(* ===== verification/Prelude.thy ===== *)
theory Prelude
  imports Main "HOL-Library.AList" "HOL-Library.Word"
begin

text \<open>
  Shared vocabulary of the development.

  \<^item> Results: Rust's \<open>Result<T, E>\<close> is the sum \<open>'e + 'a\<close> with \<open>Err\<close> on the left.
  \<^item> Unsigned 64-bit counters: where the code uses checked or saturating operations a
    counter is a \<open>nat\<close> together with the explicit bound \<open>u64_max\<close>; where it relies on
    wrap-around it is a \<open>64 word\<close> in the component that needs it.
  \<^item> \<open>std::collections::HashMap\<close> is an association list with distinct keys, read by
    \<open>map_of\<close>; its iteration order is not specified, so no statement depends on it.
  \<^item> \<open>std::collections::BTreeMap\<close> is an association list with strictly increasing keys.
  \<^item> UUIDs, timestamps and byte strings come from other crates or from the clock; they are
    opaque values (\<open>uuid\<close> with the nil UUID as 0, \<open>timestamp\<close> ordered like the integers).
\<close>

named_theorems result_simps \<open>unfolding of the result combinators\<close>
named_theorems map_simps \<open>lookup laws of the map models\<close>

section \<open>Results\<close>

type_synonym ('e, 'a) result = "'e + 'a"

abbreviation Ok :: "'a \<Rightarrow> ('e, 'a) result" where
  "Ok \<equiv> Inr"

abbreviation Err :: "'e \<Rightarrow> ('e, 'a) result" where
  "Err \<equiv> Inl"

fun is_ok :: "('e, 'a) result \<Rightarrow> bool" where
  "is_ok (Inr _) = True"
| "is_ok (Inl _) = False"

fun map_err :: "('e \<Rightarrow> 'f) \<Rightarrow> ('e, 'a) result \<Rightarrow> ('f, 'a) result" where
  "map_err f (Inl e) = Inl (f e)"
| "map_err f (Inr x) = Inr x"

text \<open>The \<open>?\<close> operator on pure code: stop with the error or go on with the value.\<close>

fun and_then :: "('e, 'a) result \<Rightarrow> ('a \<Rightarrow> ('e, 'b) result) \<Rightarrow> ('e, 'b) result" where
  "and_then (Inl e) f = Inl e"
| "and_then (Inr x) f = f x"

lemma and_then_Ok_iff [result_simps]:
  "and_then r f = Inr y \<longleftrightarrow> (\<exists>x. r = Inr x \<and> f x = Inr y)"
  by (cases r) auto

lemma and_then_Err_iff [result_simps]:
  "and_then r f = Inl e \<longleftrightarrow> r = Inl e \<or> (\<exists>x. r = Inr x \<and> f x = Inl e)"
  by (cases r) auto

lemma map_err_Ok_iff [result_simps, simp]: "map_err f r = Inr x \<longleftrightarrow> r = Inr x"
  by (cases r) auto

lemma map_err_Err_iff [result_simps]: "map_err f r = Inl e \<longleftrightarrow> (\<exists>e'. r = Inl e' \<and> e = f e')"
  by (cases r) auto

lemma is_ok_iff: "is_ok r \<longleftrightarrow> (\<exists>x. r = Inr x)"
  by (cases r) auto

text \<open>\<open>collect::<Result<Vec<_>, _>>()\<close> over a mapped iterator: stop at the first error.\<close>

fun traverse :: "('a \<Rightarrow> ('e, 'b) result) \<Rightarrow> 'a list \<Rightarrow> ('e, 'b list) result" where
  "traverse f [] = Inr []"
| "traverse f (x # xs) = and_then (f x) (\<lambda>y. and_then (traverse f xs) (\<lambda>ys. Inr (y # ys)))"

lemma traverse_Ok_iff [result_simps]: "traverse f xs = Inr ys \<longleftrightarrow> list_all2 (\<lambda>x y. f x = Inr y) xs ys"
  by (induction xs arbitrary: ys) (auto simp: and_then_Ok_iff list_all2_Cons1)

lemma traverse_total: "(\<And>x. x \<in> set xs \<Longrightarrow> \<exists>y. f x = Inr y) \<Longrightarrow> \<exists>ys. traverse f xs = Inr ys"
  by (induction xs) (fastforce simp: and_then_Ok_iff)+

section \<open>Unsigned 64-bit arithmetic\<close>

definition u64_max :: nat where
  "u64_max = 18446744073709551615"

definition u64_try_from :: "nat \<Rightarrow> nat option" where
  "u64_try_from n = (if n \<le> u64_max then Some n else None)"

definition checked_add_u64 :: "nat \<Rightarrow> nat \<Rightarrow> nat option" where
  "checked_add_u64 a b = (if a + b \<le> u64_max then Some (a + b) else None)"

definition saturating_add_u64 :: "nat \<Rightarrow> nat \<Rightarrow> nat" where
  "saturating_add_u64 a b = min u64_max (a + b)"

text \<open>\<open>NonZeroU64::new\<close>: a number that is not zero, else \<open>None\<close>.\<close>

definition non_zero_u64 :: "nat \<Rightarrow> nat option" where
  "non_zero_u64 n = (if n = 0 then None else Some n)"

lemma u64_max_pos [simp]: "0 < u64_max"
  by (simp add: u64_max_def)

lemma checked_add_u64_Some [simp]:
  "checked_add_u64 a b = Some c \<longleftrightarrow> c = a + b \<and> a + b \<le> u64_max"
  by (auto simp: checked_add_u64_def)

lemma checked_add_u64_None [simp]: "checked_add_u64 a b = None \<longleftrightarrow> u64_max < a + b"
  by (auto simp: checked_add_u64_def)

lemma non_zero_u64_Some [simp]: "non_zero_u64 n = Some m \<longleftrightarrow> m = n \<and> n \<noteq> 0"
  by (auto simp: non_zero_u64_def)

lemma saturating_add_u64_le [simp]: "saturating_add_u64 a b \<le> u64_max"
  by (simp add: saturating_add_u64_def)

section \<open>Rendering of numbers\<close>

definition digit_char :: "nat \<Rightarrow> char" where
  "digit_char d = char_of (48 + d)"

fun show_nat :: "nat \<Rightarrow> string" where
  "show_nat n = (if n < 10 then [digit_char n] else show_nat (n div 10) @ [digit_char (n mod 10)])"

declare show_nat.simps [simp del]

lemma show_nat_snoc: "\<not> n < 10 \<Longrightarrow> show_nat n = show_nat (n div 10) @ [digit_char (n mod 10)]"
  by (subst show_nat.simps) simp

lemma show_nat_digit: "n < 10 \<Longrightarrow> show_nat n = [digit_char n]"
  by (subst show_nat.simps) simp

lemma show_nat_nonempty [simp]: "show_nat n \<noteq> []"
  by (cases "n < 10") (simp_all add: show_nat_digit show_nat_snoc)

lemma show_nat_nonempty' [simp]: "[] \<noteq> show_nat n"
  using show_nat_nonempty [of n] by metis

lemma of_char_digit_char: "n < 10 \<Longrightarrow> (of_char (digit_char n) :: nat) = 48 + n"
  by (simp add: digit_char_def)

lemma show_nat_inj [simp]: "show_nat m = show_nat n \<longleftrightarrow> m = n"
proof (induction m arbitrary: n rule: less_induct)
  case (less m)
  have digit: "a < 10 \<Longrightarrow> b < 10 \<Longrightarrow> digit_char a = digit_char b \<Longrightarrow> a = b" for a b
    using of_char_digit_char by (metis add_left_cancel)
  show ?case
  proof (cases "m < 10"; cases "n < 10")
    assume "\<not> m < 10" "\<not> n < 10"
    then have "show_nat m = show_nat n \<longleftrightarrow> m div 10 = n div 10 \<and> digit_char (m mod 10) = digit_char (n mod 10)"
      using less.IH [of "m div 10" "n div 10"] by (simp add: show_nat_snoc)
    then show ?thesis using digit [of "m mod 10" "n mod 10"] by (metis div_mult_mod_eq mod_less_divisor zero_less_numeral)
  qed (use digit in \<open>auto simp: show_nat_digit show_nat_snoc\<close>)
qed

lemma show_nat_chars: "c \<in> set (show_nat n) \<Longrightarrow> 48 \<le> (of_char c :: nat) \<and> (of_char c :: nat) \<le> 57"
proof (induction n rule: less_induct)
  case (less n)
  show ?case
  proof (cases "n < 10")
    case True
    then show ?thesis using less.prems by (simp add: show_nat_digit of_char_digit_char)
  next
    case False
    then show ?thesis
      using less.prems less.IH [of "n div 10"] of_char_digit_char [of "n mod 10"] by (auto simp: show_nat_snoc)
  qed
qed

section \<open>Hash maps\<close>

type_synonym ('k, 'v) hash_map = "('k \<times> 'v) list"

definition hm_get :: "('k, 'v) hash_map \<Rightarrow> 'k \<Rightarrow> 'v option" where
  "hm_get m k = map_of m k"

definition hm_insert :: "'k \<Rightarrow> 'v \<Rightarrow> ('k, 'v) hash_map \<Rightarrow> ('k, 'v) hash_map" where
  "hm_insert k v m = AList.update k v m"

definition hm_remove :: "'k \<Rightarrow> ('k, 'v) hash_map \<Rightarrow> ('k, 'v) hash_map" where
  "hm_remove k m = AList.delete k m"

text \<open>\<open>entry(k).or_insert(v)\<close>: an existing binding is kept.\<close>

definition hm_or_insert :: "'k \<Rightarrow> 'v \<Rightarrow> ('k, 'v) hash_map \<Rightarrow> ('k, 'v) hash_map" where
  "hm_or_insert k v m = (case map_of m k of None \<Rightarrow> AList.update k v m | Some _ \<Rightarrow> m)"

definition hm_keys :: "('k, 'v) hash_map \<Rightarrow> 'k list" where
  "hm_keys m = map fst m"

definition hm_wf :: "('k, 'v) hash_map \<Rightarrow> bool" where
  "hm_wf m \<longleftrightarrow> distinct (map fst m)"

lemma hm_get_empty [map_simps, simp]: "hm_get [] k = None"
  by (simp add: hm_get_def)

lemma hm_get_insert [map_simps, simp]:
  "hm_get (hm_insert k v m) k' = (if k' = k then Some v else hm_get m k')"
  by (simp add: hm_get_def hm_insert_def update_conv')

lemma hm_get_remove [map_simps, simp]:
  "hm_get (hm_remove k m) k' = (if k' = k then None else hm_get m k')"
  by (simp add: hm_get_def hm_remove_def delete_conv')

lemma hm_get_or_insert [map_simps, simp]:
  "hm_get (hm_or_insert k v m) k' =
    (if k' = k \<and> hm_get m k = None then Some v else hm_get m k')"
  by (auto simp: hm_get_def hm_or_insert_def update_conv' split: option.splits)

lemma hm_wf_empty [simp]: "hm_wf []"
  by (simp add: hm_wf_def)

lemma hm_wf_insert [simp]: "hm_wf m \<Longrightarrow> hm_wf (hm_insert k v m)"
  by (simp add: hm_wf_def hm_insert_def distinct_update)

lemma hm_wf_remove [simp]: "hm_wf m \<Longrightarrow> hm_wf (hm_remove k m)"
  by (simp add: hm_wf_def hm_remove_def distinct_delete)

lemma hm_keys_get: "k \<in> set (hm_keys m) \<longleftrightarrow> hm_get m k \<noteq> None"
  by (metis hm_get_def hm_keys_def list.set_map map_of_eq_None_iff)

section \<open>Ordered maps\<close>

fun bt_insert :: "'k::linorder \<Rightarrow> 'v \<Rightarrow> ('k \<times> 'v) list \<Rightarrow> ('k \<times> 'v) list" where
  "bt_insert k v [] = [(k, v)]"
| "bt_insert k v ((k', v') # m) =
    (if k < k' then (k, v) # (k', v') # m
     else if k = k' then (k, v) # m
     else (k', v') # bt_insert k v m)"

definition bt_remove :: "'k \<Rightarrow> ('k \<times> 'v) list \<Rightarrow> ('k \<times> 'v) list" where
  "bt_remove k m = filter (\<lambda>(k', v). k' \<noteq> k) m"

definition bt_values :: "('k \<times> 'v) list \<Rightarrow> 'v list" where
  "bt_values m = map snd m"

definition bt_wf :: "('k::linorder \<times> 'v) list \<Rightarrow> bool" where
  "bt_wf m \<longleftrightarrow> sorted_wrt (<) (map fst m)"

lemma bt_get_insert [map_simps, simp]:
  "map_of (bt_insert k v m) k' = (if k' = k then Some v else map_of m k')"
  by (induction k v m rule: bt_insert.induct) auto

lemma bt_get_remove [map_simps, simp]:
  "map_of (bt_remove k m) k' = (if k' = k then None else map_of m k')"
  by (induction m) (auto simp: bt_remove_def)

lemma bt_keys_insert: "set (map fst (bt_insert k v m)) = insert k (set (map fst m))"
  by (induction k v m rule: bt_insert.induct) auto

lemma bt_wf_empty [simp]: "bt_wf []"
  by (simp add: bt_wf_def)

lemma bt_wf_insert [simp]: "bt_wf m \<Longrightarrow> bt_wf (bt_insert k v m)"
  unfolding bt_wf_def
proof (induction k v m rule: bt_insert.induct)
  case (2 k v k' v' m)
  have "x \<in> set (map fst (bt_insert k v m)) \<Longrightarrow> x = k \<or> x \<in> set (map fst m)" for x
    using bt_keys_insert [of k v m] by auto
  with 2 show ?case
    by (fastforce simp: not_less_iff_gr_or_eq)
qed simp

lemma bt_wf_remove [simp]: "bt_wf m \<Longrightarrow> bt_wf (bt_remove k m)"
  unfolding bt_wf_def bt_remove_def
  by (induction m) auto

lemma bt_wf_distinct: "bt_wf m \<Longrightarrow> distinct (map fst m)"
  unfolding bt_wf_def using strict_sorted_iff by blast

section \<open>Lists\<close>

text \<open>\<open>slice.last()\<close> and \<open>iter().find(..)\<close>.\<close>

fun last_opt :: "'a list \<Rightarrow> 'a option" where
  "last_opt [] = None"
| "last_opt (x # xs) = Some (last (x # xs))"

lemma last_opt_None [simp]: "last_opt xs = None \<longleftrightarrow> xs = []"
  by (cases xs) auto

lemma last_opt_Some: "last_opt xs = Some x \<longleftrightarrow> xs \<noteq> [] \<and> x = last xs"
  by (cases xs) auto

lemma last_opt_append [simp]: "ys \<noteq> [] \<Longrightarrow> last_opt (xs @ ys) = last_opt ys"
  by (cases xs; cases ys) auto

lemma find_Some_set: "List.find P xs = Some x \<Longrightarrow> x \<in> set xs \<and> P x"
  by (auto simp: find_Some_iff)

lemma filter_index_take:
  assumes "\<And>i. i < length xs \<Longrightarrow> P (xs ! i) \<longleftrightarrow> i < n"
  shows "filter P xs = take n xs"
  using assms
proof (induction xs arbitrary: n)
  case (Cons x xs)
  show ?case
  proof (cases n)
    case 0
    then have "\<forall>y \<in> set (x # xs). \<not> P y"
      using Cons.prems by (metis in_set_conv_nth not_less0)
    with 0 show ?thesis by (simp add: filter_False)
  next
    case (Suc m)
    have "P (xs ! i) \<longleftrightarrow> i < m" if "i < length xs" for i
      using Cons.prems [of "Suc i"] that Suc by simp
    then have "filter P xs = take m xs" by (rule Cons.IH)
    moreover have "P x" using Cons.prems [of 0] Suc by simp
    ultimately show ?thesis using Suc by simp
  qed
qed simp

section \<open>Opaque values of other crates\<close>

type_synonym uuid = nat
type_synonym timestamp = int

definition nil_uuid :: uuid where
  "nil_uuid = 0"

text \<open>
  \<open>Uuid::now_v7\<close> is a source of identifiers: the n-th call yields \<open>v7 n\<close>. The code relies
  on its documented behaviour: the identifiers are never nil and never repeat.
\<close>

definition fresh_uuids :: "(nat \<Rightarrow> uuid) \<Rightarrow> bool" where
  "fresh_uuids v7 \<longleftrightarrow> inj v7 \<and> (\<forall>n. v7 n \<noteq> nil_uuid)"

lemma fresh_uuids_Suc: "fresh_uuids Suc"
  by (simp add: fresh_uuids_def nil_uuid_def)

end
