(* ===== verification/Core_Types.thy ===== *)
theory Core_Types
  imports Prelude
begin

text \<open>
  The identity and context types of \<open>cherry-pit-core\<close>: \<open>AggregateId\<close>, \<open>ScheduleId\<close>,
  \<open>CorrelationContext\<close>, \<open>ProjectionCheckpoint\<close>, \<open>IdempotencyKey\<close> and the work types.
  \<open>NonZeroU64\<close> values are natural numbers; the well-formedness predicates state the range
  that the Rust type enforces.
\<close>

section \<open>Aggregate identity (\<open>aggregate_id.rs\<close>)\<close>

datatype aggregate_id = AggregateId (get: nat)

definition AggregateId_new :: "nat \<Rightarrow> aggregate_id" where
  "AggregateId_new n = AggregateId n"

definition aggregate_id_wf :: "aggregate_id \<Rightarrow> bool" where
  "aggregate_id_wf i \<longleftrightarrow> 0 < get i \<and> get i \<le> u64_max"

definition AggregateId_fmt :: "aggregate_id \<Rightarrow> string" where
  "AggregateId_fmt i = show_nat (get i)"

instantiation aggregate_id :: linorder
begin

definition less_eq_aggregate_id :: "aggregate_id \<Rightarrow> aggregate_id \<Rightarrow> bool" where
  "less_eq_aggregate_id a b \<longleftrightarrow> get a \<le> get b"

definition less_aggregate_id :: "aggregate_id \<Rightarrow> aggregate_id \<Rightarrow> bool" where
  "less_aggregate_id a b \<longleftrightarrow> get a < get b"

instance
  by standard
    (auto simp: less_eq_aggregate_id_def less_aggregate_id_def aggregate_id.expand)

end

section \<open>Schedule identity (\<open>scheduler.rs\<close>)\<close>

datatype schedule_id = ScheduleId (as_uuid: uuid)

instantiation schedule_id :: linorder
begin

definition less_eq_schedule_id :: "schedule_id \<Rightarrow> schedule_id \<Rightarrow> bool" where
  "less_eq_schedule_id a b \<longleftrightarrow> as_uuid a \<le> as_uuid b"

definition less_schedule_id :: "schedule_id \<Rightarrow> schedule_id \<Rightarrow> bool" where
  "less_schedule_id a b \<longleftrightarrow> as_uuid a < as_uuid b"

instance
  by standard
    (auto simp: less_eq_schedule_id_def less_schedule_id_def schedule_id.expand)

end

section \<open>Correlation context (\<open>correlation.rs\<close>)\<close>

record correlation_context =
  correlation_id :: "uuid option"
  causation_id :: "uuid option"

definition CorrelationContext_none :: correlation_context where
  "CorrelationContext_none = \<lparr>correlation_id = None, causation_id = None\<rparr>"

definition CorrelationContext_new :: "uuid \<Rightarrow> uuid \<Rightarrow> correlation_context" where
  "CorrelationContext_new corr cause = \<lparr>correlation_id = Some corr, causation_id = Some cause\<rparr>"

definition CorrelationContext_correlated :: "uuid \<Rightarrow> correlation_context" where
  "CorrelationContext_correlated corr = \<lparr>correlation_id = Some corr, causation_id = None\<rparr>"

section \<open>Projection checkpoint (\<open>checkpoint.rs\<close>)\<close>

record projection_checkpoint =
  cp_aggregate_id :: aggregate_id
  cp_projection_name :: string
  cp_last_sequence :: nat

definition ProjectionCheckpoint_new ::
  "aggregate_id \<Rightarrow> string \<Rightarrow> nat \<Rightarrow> projection_checkpoint" where
  "ProjectionCheckpoint_new i name n =
    \<lparr>cp_aggregate_id = i, cp_projection_name = name, cp_last_sequence = n\<rparr>"

section \<open>Idempotency key (\<open>idempotency.rs\<close>)\<close>

text \<open>
  \<open>str::trim\<close> drops characters with the Unicode property \<open>White_Space\<close>; below 256 these are
  the controls 9 to 13, the space, 133 and 160.
\<close>

definition is_whitespace :: "char \<Rightarrow> bool" where
  "is_whitespace c \<longleftrightarrow>
    (let n = of_char c :: nat in 9 \<le> n \<and> n \<le> 13 \<or> n = 32 \<or> n = 133 \<or> n = 160)"

definition trim_start :: "string \<Rightarrow> string" where
  "trim_start s = dropWhile is_whitespace s"

definition trim :: "string \<Rightarrow> string" where
  "trim s = rev (trim_start (rev (trim_start s)))"

datatype idempotency_key = IdempotencyKey (as_str: string)

definition from_header_value :: "string \<Rightarrow> idempotency_key option" where
  "from_header_value raw =
    (let trimmed = trim raw in if trimmed = [] then None else Some (IdempotencyKey trimmed))"

section \<open>Work types (\<open>work.rs\<close>)\<close>

type_synonym domain_key = string

datatype job_source =
    ScheduledBatch
  | External (ext_id: string) (ext_kind: string)
  | InitialLoad

type_synonym duration = nat

datatype 'r job_outcome =
    Success domain_key 'r job_source duration correlation_context
  | Failure domain_key string job_source duration correlation_context

section \<open>Facts\<close>

lemma trim_start_decomp: "\<exists>ws. s = ws @ trim_start s \<and> (\<forall>c \<in> set ws. is_whitespace c)"
  unfolding trim_start_def
  by (metis set_takeWhileD takeWhile_dropWhile_id)

lemma trim_decomp:
  "\<exists>pre post. s = pre @ trim s @ post \<and> (\<forall>c \<in> set (pre @ post). is_whitespace c)"
proof -
  obtain pre where pre: "s = pre @ trim_start s" "\<forall>c \<in> set pre. is_whitespace c"
    using trim_start_decomp by blast
  obtain post where post: "rev (trim_start s) = post @ trim_start (rev (trim_start s))"
      "\<forall>c \<in> set post. is_whitespace c"
    using trim_start_decomp by blast
  from post(1) have "trim_start s = trim s @ rev post"
    unfolding trim_def by (metis rev_append rev_rev_ident)
  with pre post(2) show ?thesis
    by (intro exI [of _ pre] exI [of _ "rev post"]) auto
qed

lemma trim_start_hd: "trim_start s \<noteq> [] \<Longrightarrow> \<not> is_whitespace (hd (trim_start s))"
  unfolding trim_start_def by (rule hd_dropWhile)

lemma trim_ends:
  assumes "trim s \<noteq> []"
  shows "\<not> is_whitespace (hd (trim s)) \<and> \<not> is_whitespace (last (trim s))"
proof
  let ?t = "trim_start (rev (trim_start s))"
  from assms have ne: "?t \<noteq> []" by (simp add: trim_def)
  then show "\<not> is_whitespace (last (trim s))"
    unfolding trim_def by (simp add: last_rev trim_start_hd)
  obtain post where post: "rev (trim_start s) = post @ ?t"
    using trim_start_decomp by blast
  then have "trim_start s = rev ?t @ rev post"
    by (metis rev_append rev_rev_ident)
  with ne have "hd (trim_start s) = hd (rev ?t)" "trim_start s \<noteq> []"
    by (metis hd_append2 rev_is_Nil_conv, force)
  with trim_start_hd [of s] show "\<not> is_whitespace (hd (trim s))"
    by (simp add: trim_def)
qed

end
