(* ===== verification/Core_Errors.thy ===== *)
theory Core_Errors
  imports Core_Types
begin

text \<open>
  The error types of \<open>cherry-pit-core/src/error.rs\<close> and \<open>cherry-pit-app/src/error.rs\<close> with
  their retry categories and their \<open>Display\<close> texts. A boxed \<open>dyn Error\<close> is one of the values
  the code boxes: a message, an \<open>EnvelopeError\<close>, a \<open>StoreError\<close>, or an error of another crate
  given by its \<open>Display\<close> text. The text of a UUID comes from the \<open>uuid\<close> crate and is the
  parameter \<open>show_uuid\<close>.
\<close>

datatype error_category = Retryable | Terminal | ReconciliationRequired

definition is_retryable :: "error_category \<Rightarrow> bool" where
  "is_retryable c \<longleftrightarrow> c = Retryable"

definition is_terminal :: "error_category \<Rightarrow> bool" where
  "is_terminal c \<longleftrightarrow> c = Terminal"

datatype envelope_error =
    NilEventId
  | AggregateIdMismatch (expected: aggregate_id) (actual: aggregate_id)
  | SequenceGap (expected_sequence: nat) (actual_sequence: nat)
  | DuplicateEventId (dup_event_id: uuid)

definition EnvelopeError_category :: "envelope_error \<Rightarrow> error_category" where
  "EnvelopeError_category e = Terminal"

datatype boxed_error =
    BoxMessage string
  | BoxEnvelopeError envelope_error
  | BoxStoreError store_error
  | BoxForeign string
and store_error =
    Indeterminate boxed_error
  | ConcurrencyConflict aggregate_id nat nat
  | StoreLocked string
  | CorruptData boxed_error
  | Infrastructure boxed_error
  | JoinFailure boxed_error

fun StoreError_category :: "store_error \<Rightarrow> error_category" where
  "StoreError_category (Indeterminate _) = ReconciliationRequired"
| "StoreError_category (ConcurrencyConflict _ _ _) = Retryable"
| "StoreError_category (StoreLocked _) = Retryable"
| "StoreError_category (Infrastructure _) = Retryable"
| "StoreError_category (CorruptData _) = Terminal"
| "StoreError_category (JoinFailure _) = Terminal"

datatype 'd dispatch_error =
    DispatchIndeterminate boxed_error
  | Rejected 'd
  | AggregateNotFound aggregate_id
  | DispatchConflict aggregate_id nat nat
  | DispatchInfrastructure boxed_error

fun DispatchError_category :: "'d dispatch_error \<Rightarrow> error_category" where
  "DispatchError_category (DispatchIndeterminate _) = ReconciliationRequired"
| "DispatchError_category (DispatchConflict _ _ _) = Retryable"
| "DispatchError_category (DispatchInfrastructure _) = Retryable"
| "DispatchError_category (Rejected _) = Terminal"
| "DispatchError_category (AggregateNotFound _) = Terminal"

datatype bus_error = BusError boxed_error

definition BusError_category :: "bus_error \<Rightarrow> error_category" where
  "BusError_category e = Retryable"

datatype agent_error =
    Policy boxed_error
  | DeadLetter boxed_error
  | Store store_error
  | Bus bus_error

fun AgentError_category :: "agent_error \<Rightarrow> error_category" where
  "AgentError_category (Policy _) = Terminal"
| "AgentError_category (DeadLetter _) = Terminal"
| "AgentError_category (Store e) = StoreError_category e"
| "AgentError_category (Bus e) = BusError_category e"

section \<open>Display\<close>

fun EnvelopeError_fmt :: "(uuid \<Rightarrow> string) \<Rightarrow> envelope_error \<Rightarrow> string" where
  "EnvelopeError_fmt show_uuid NilEventId = ''event_id must not be nil''"
| "EnvelopeError_fmt show_uuid (AggregateIdMismatch e a) =
    ''event aggregate_id mismatch: expected '' @ AggregateId_fmt e @ '', actual '' @ AggregateId_fmt a"
| "EnvelopeError_fmt show_uuid (SequenceGap e a) =
    ''event sequence gap: expected sequence '' @ show_nat e @ '', actual '' @ show_nat a"
| "EnvelopeError_fmt show_uuid (DuplicateEventId i) =
    ''duplicate event_id in stream: '' @ show_uuid i"

fun boxed_fmt :: "(uuid \<Rightarrow> string) \<Rightarrow> boxed_error \<Rightarrow> string"
  and StoreError_fmt :: "(uuid \<Rightarrow> string) \<Rightarrow> store_error \<Rightarrow> string"
where
  "boxed_fmt show_uuid (BoxMessage m) = m"
| "boxed_fmt show_uuid (BoxEnvelopeError e) = EnvelopeError_fmt show_uuid e"
| "boxed_fmt show_uuid (BoxStoreError e) = StoreError_fmt show_uuid e"
| "boxed_fmt show_uuid (BoxForeign m) = m"
| "StoreError_fmt show_uuid (Indeterminate e) = ''store outcome indeterminate: '' @ boxed_fmt show_uuid e"
| "StoreError_fmt show_uuid (ConcurrencyConflict i e a) =
    ''concurrency conflict on '' @ AggregateId_fmt i @ '': expected sequence '' @ show_nat e
      @ '', actual '' @ show_nat a"
| "StoreError_fmt show_uuid (StoreLocked path) =
    ''store directory is locked by another process: '' @ path"
| "StoreError_fmt show_uuid (CorruptData e) = ''store corrupt data: '' @ boxed_fmt show_uuid e"
| "StoreError_fmt show_uuid (Infrastructure e) =
    ''store infrastructure error: '' @ boxed_fmt show_uuid e"
| "StoreError_fmt show_uuid (JoinFailure e) =
    ''store spawn_blocking join failure: '' @ boxed_fmt show_uuid e"

fun BusError_fmt :: "(uuid \<Rightarrow> string) \<Rightarrow> bus_error \<Rightarrow> string" where
  "BusError_fmt show_uuid (BusError e) = ''event bus error: '' @ boxed_fmt show_uuid e"

fun AgentError_fmt :: "(uuid \<Rightarrow> string) \<Rightarrow> agent_error \<Rightarrow> string" where
  "AgentError_fmt show_uuid (Policy e) = ''policy dispatch error: '' @ boxed_fmt show_uuid e"
| "AgentError_fmt show_uuid (DeadLetter e) = ''dead-letter sink error: '' @ boxed_fmt show_uuid e"
| "AgentError_fmt show_uuid (Store e) = ''store error: '' @ StoreError_fmt show_uuid e"
| "AgentError_fmt show_uuid (Bus e) = ''bus error: '' @ BusError_fmt show_uuid e"

text \<open>An error is an unknown outcome exactly when its category asks for reconciliation.\<close>

lemma StoreError_reconciliation_iff:
  "StoreError_category e = ReconciliationRequired \<longleftrightarrow> (\<exists>b. e = Indeterminate b)"
  by (cases e) auto

end
