(* ===== verification/Core_Event.thy ===== *)
theory Core_Event
  imports Core_Errors
begin

text \<open>
  Event envelopes (\<open>cherry-pit-core/src/event.rs\<close>): construction, validation of one envelope
  and of a whole aggregate stream. \<open>valid_stream\<close> is the replay contract that the comment of
  \<open>validate_stream\<close> states in words; the lemmas show that the loop decides exactly that
  contract and reports the first violation.
\<close>

record 'e event_envelope =
  env_event_id :: uuid
  env_aggregate_id :: aggregate_id
  env_sequence :: nat
  env_timestamp :: timestamp
  env_correlation_id :: "uuid option"
  env_causation_id :: "uuid option"
  env_payload :: 'e

definition EventEnvelope_new ::
  "uuid \<Rightarrow> aggregate_id \<Rightarrow> nat \<Rightarrow> timestamp \<Rightarrow> uuid option \<Rightarrow> uuid option \<Rightarrow> 'e
    \<Rightarrow> (envelope_error, 'e event_envelope) result" where
  "EventEnvelope_new eid aid sq ts corr cause p =
    (if eid = nil_uuid then Err NilEventId
     else Ok \<lparr>env_event_id = eid, env_aggregate_id = aid, env_sequence = sq, env_timestamp = ts,
       env_correlation_id = corr, env_causation_id = cause, env_payload = p\<rparr>)"

definition EventEnvelope_validate :: "'e event_envelope \<Rightarrow> (envelope_error, unit) result" where
  "EventEnvelope_validate env = (if env_event_id env = nil_uuid then Err NilEventId else Ok ())"

text \<open>\<open>u64::try_from(index).ok().and_then(|i| i.checked_add(1)).unwrap_or(u64::MAX)\<close>\<close>

definition expected_sequence_at :: "nat \<Rightarrow> nat" where
  "expected_sequence_at index =
    (case Option.bind (u64_try_from index) (\<lambda>i. checked_add_u64 i 1) of
      Some n \<Rightarrow> n | None \<Rightarrow> u64_max)"

text \<open>The loop of \<open>validate_stream\<close> at position \<open>index\<close> with the identifiers seen so far.\<close>

fun validate_stream_from ::
  "aggregate_id \<Rightarrow> nat \<Rightarrow> uuid list \<Rightarrow> 'e event_envelope list \<Rightarrow> (envelope_error, unit) result"
where
  "validate_stream_from aid index seen [] = Ok ()"
| "validate_stream_from aid index seen (env # envs) =
    (case EventEnvelope_validate env of
      Inl e \<Rightarrow> Err e
    | Inr _ \<Rightarrow>
        if env_event_id env \<in> set seen then Err (DuplicateEventId (env_event_id env))
        else if env_aggregate_id env \<noteq> aid
          then Err (AggregateIdMismatch aid (env_aggregate_id env))
        else if env_sequence env \<noteq> expected_sequence_at index
          then Err (SequenceGap (expected_sequence_at index) (env_sequence env))
        else validate_stream_from aid (Suc index) (env_event_id env # seen) envs)"

definition validate_stream ::
  "aggregate_id \<Rightarrow> 'e event_envelope list \<Rightarrow> (envelope_error, unit) result" where
  "validate_stream aid stream = validate_stream_from aid 0 [] stream"

section \<open>The replay contract\<close>

definition valid_stream :: "aggregate_id \<Rightarrow> 'e event_envelope list \<Rightarrow> bool" where
  "valid_stream aid es \<longleftrightarrow>
    (\<forall>env \<in> set es. env_event_id env \<noteq> nil_uuid \<and> env_aggregate_id env = aid)
    \<and> distinct (map env_event_id es)
    \<and> map env_sequence es = [1..<Suc (length es)]"

text \<open>The check that fails for an envelope at a position, given the envelopes before it.\<close>

fun violates ::
  "aggregate_id \<Rightarrow> 'e event_envelope list \<Rightarrow> 'e event_envelope \<Rightarrow> envelope_error \<Rightarrow> bool"
where
  "violates aid before env NilEventId \<longleftrightarrow> env_event_id env = nil_uuid"
| "violates aid before env (DuplicateEventId i) \<longleftrightarrow>
    i = env_event_id env \<and> i \<in> env_event_id ` set before"
| "violates aid before env (AggregateIdMismatch e a) \<longleftrightarrow>
    e = aid \<and> a = env_aggregate_id env \<and> a \<noteq> aid"
| "violates aid before env (SequenceGap e a) \<longleftrightarrow>
    e = Suc (length before) \<and> a = env_sequence env \<and> a \<noteq> e"

lemma expected_sequence_at_eq [simp]:
  "i < u64_max \<Longrightarrow> expected_sequence_at i = Suc i"
  by (simp add: expected_sequence_at_def u64_try_from_def checked_add_u64_def)

lemma valid_stream_Nil [simp]: "valid_stream aid []"
  by (simp add: valid_stream_def)

lemma valid_stream_seq:
  "valid_stream aid es \<Longrightarrow> i < length es \<Longrightarrow> env_sequence (es ! i) = Suc i"
  unfolding valid_stream_def
  by (metis Suc_eq_plus1 add.commute diff_Suc_1 length_map length_upt nth_map nth_upt
      plus_1_eq_Suc less_diff_conv)

lemma valid_stream_last_seq:
  "valid_stream aid es \<Longrightarrow> es \<noteq> [] \<Longrightarrow> env_sequence (last es) = length es"
  using valid_stream_seq [of aid es "length es - 1"] by (simp add: last_conv_nth)

lemma valid_stream_snoc:
  "valid_stream aid (es @ [env]) \<longleftrightarrow>
    valid_stream aid es \<and> env_event_id env \<noteq> nil_uuid \<and> env_aggregate_id env = aid
    \<and> env_event_id env \<notin> env_event_id ` set es \<and> env_sequence env = Suc (length es)"
  by (auto simp: valid_stream_def)

lemma valid_stream_appendD: "valid_stream aid (es @ fs) \<Longrightarrow> valid_stream aid es"
  by (induction fs rule: rev_induct) (auto simp: append_assoc [symmetric] valid_stream_snoc
      simp del: append_assoc)

lemma valid_stream_take: "valid_stream aid es \<Longrightarrow> valid_stream aid (take n es)"
  using valid_stream_appendD [of aid "take n es" "drop n es"] by simp

text \<open>Extending a valid prefix by the loop: each iteration accepts exactly a valid extension.\<close>

lemma validate_stream_from_step_ok:
  assumes "valid_stream aid (before @ [env])" "length before < u64_max"
    "set seen = env_event_id ` set before"
  shows "validate_stream_from aid (length before) seen (env # es)
    = validate_stream_from aid (Suc (length before)) (env_event_id env # seen) es"
  using assms by (simp add: valid_stream_snoc EventEnvelope_validate_def)

lemma validate_stream_from_step_err:
  assumes "valid_stream aid before" "\<not> valid_stream aid (before @ [env])"
    "length before < u64_max" "set seen = env_event_id ` set before"
  shows "\<exists>e. validate_stream_from aid (length before) seen (env # es) = Inl e
    \<and> violates aid before env e"
  using assms by (auto simp: valid_stream_snoc EventEnvelope_validate_def)

lemma validate_stream_from_Ok:
  assumes "valid_stream aid before" "length before + length es \<le> u64_max"
    "set seen = env_event_id ` set before"
  shows "validate_stream_from aid (length before) seen es = Inr () \<longleftrightarrow>
    valid_stream aid (before @ es)"
  using assms
proof (induction es arbitrary: before seen)
  case (Cons env es)
  show ?case
  proof (cases "valid_stream aid (before @ [env])")
    case True
    then show ?thesis
      using Cons.prems Cons.IH [of "before @ [env]" "env_event_id env # seen"]
      by (simp add: validate_stream_from_step_ok del: validate_stream_from.simps)
  next
    case False
    moreover from False have "\<not> valid_stream aid (before @ env # es)"
      using valid_stream_appendD [of aid "before @ [env]" es] by auto
    ultimately show ?thesis
      using Cons.prems validate_stream_from_step_err [of aid before env seen es] by fastforce
  qed
qed simp

lemma validate_stream_from_Err:
  assumes "valid_stream aid before" "length before + length es \<le> u64_max"
    "set seen = env_event_id ` set before"
    "validate_stream_from aid (length before) seen es = Inl e"
  shows "\<exists>k < length es. valid_stream aid (before @ take k es)
    \<and> \<not> valid_stream aid (before @ take (Suc k) es)
    \<and> violates aid (before @ take k es) (es ! k) e"
  using assms
proof (induction es arbitrary: before seen)
  case (Cons env es)
  show ?case
  proof (cases "valid_stream aid (before @ [env])")
    case True
    have "\<exists>k < length es. valid_stream aid ((before @ [env]) @ take k es)
        \<and> \<not> valid_stream aid ((before @ [env]) @ take (Suc k) es)
        \<and> violates aid ((before @ [env]) @ take k es) (es ! k) e"
      using True Cons.prems
      by (intro Cons.IH [of "before @ [env]" "env_event_id env # seen"])
        (auto simp: validate_stream_from_step_ok simp del: validate_stream_from.simps)
    then obtain k where "k < length es" "valid_stream aid (before @ take (Suc k) (env # es))"
        "\<not> valid_stream aid (before @ take (Suc (Suc k)) (env # es))"
        "violates aid (before @ take (Suc k) (env # es)) ((env # es) ! Suc k) e"
      by auto
    then show ?thesis by (intro exI [of _ "Suc k"]) simp
  next
    case False
    with Cons.prems validate_stream_from_step_err [of aid before env seen es]
    show ?thesis by (intro exI [of _ 0]) auto
  qed
qed simp

lemma validate_stream_Ok_iff:
  "length es \<le> u64_max \<Longrightarrow> validate_stream aid es = Inr () \<longleftrightarrow> valid_stream aid es"
  using validate_stream_from_Ok [of aid "[]" es "[]"] by (simp add: validate_stream_def)

lemma validate_stream_Err:
  assumes "length es \<le> u64_max" "validate_stream aid es = Inl e"
  shows "\<exists>k < length es. valid_stream aid (take k es)
    \<and> \<not> valid_stream aid (take (Suc k) es) \<and> violates aid (take k es) (es ! k) e"
  using validate_stream_from_Err [of aid "[]" es "[]" e] assms
  by (simp add: validate_stream_def)

text \<open>
  C8. \<open>validate_stream\<close> accepts a stream exactly when every envelope carries a non-nil
  identifier and the requested aggregate id, no identifier repeats, and the sequence numbers
  are 1, 2, ..., n; every other stream is rejected at its first bad envelope, with the error
  that names what is wrong with that envelope. (A Rust slice has fewer than \<open>u64::MAX\<close>
  elements.)
\<close>

theorem validate_stream_decides_replay_contract:
  assumes "length es \<le> u64_max"
  shows "case validate_stream aid es of
      Inr _ \<Rightarrow> valid_stream aid es
    | Inl e \<Rightarrow> (\<exists>k < length es. valid_stream aid (take k es)
        \<and> \<not> valid_stream aid (take (Suc k) es) \<and> violates aid (take k es) (es ! k) e)"
  using validate_stream_Ok_iff [OF assms] validate_stream_Err [OF assms]
  by (auto split: sum.splits)

definition sample_env :: "uuid \<Rightarrow> nat \<Rightarrow> nat \<Rightarrow> unit event_envelope" where
  "sample_env eid aid sq = \<lparr>env_event_id = eid, env_aggregate_id = AggregateId aid,
    env_sequence = sq, env_timestamp = 0, env_correlation_id = None, env_causation_id = None,
    env_payload = ()\<rparr>"

theorem validate_stream_decides_replay_contract_witness:
  "valid_stream (AggregateId 7) [sample_env 11 7 1, sample_env 12 7 2]
   \<and> (\<exists>k < 2. violates (AggregateId 7) (take k [sample_env 11 7 1, sample_env 12 7 3])
        ([sample_env 11 7 1, sample_env 12 7 3] ! k) (SequenceGap 2 3))"
proof
  have "validate_stream (AggregateId 7) [sample_env 11 7 1, sample_env 12 7 2] = Inr ()"
    by (simp add: validate_stream_def EventEnvelope_validate_def sample_env_def nil_uuid_def
        u64_max_def)
  then show "valid_stream (AggregateId 7) [sample_env 11 7 1, sample_env 12 7 2]"
    using validate_stream_decides_replay_contract
      [of "[sample_env 11 7 1, sample_env 12 7 2]" "AggregateId 7"]
    by (simp add: u64_max_def)
  have "validate_stream (AggregateId 7) [sample_env 11 7 1, sample_env 12 7 3]
      = Inl (SequenceGap 2 3)"
    by (simp add: validate_stream_def EventEnvelope_validate_def sample_env_def nil_uuid_def
        u64_max_def numeral_2_eq_2)
  then show "\<exists>k < 2. violates (AggregateId 7) (take k [sample_env 11 7 1, sample_env 12 7 3])
        ([sample_env 11 7 1, sample_env 12 7 3] ! k) (SequenceGap 2 3)"
    using validate_stream_decides_replay_contract
      [of "[sample_env 11 7 1, sample_env 12 7 3]" "AggregateId 7"]
    by (simp add: u64_max_def numeral_2_eq_2 del: violates.simps) blast
qed

end
