(* ===== verification/Event_Store.thy ===== *)
theory Event_Store
  imports Core_Event
begin

text \<open>
  The \<open>EventStore\<close> port (\<open>cherry-pit-core/src/store.rs\<close>). An implementation is a record of its
  three operations over its own state type; the clients of the port (the merger, the
  projection driver, the scheduler, the conformance harness) take that record as an argument.

  The locale \<open>event_store\<close> states what the trait documentation promises to those clients, for
  every implementation: histories are valid streams, a successful write appends exactly the
  supplied events stamped with the caller's context, a failed write leaves no trace unless
  its outcome is unknown. The locale \<open>responsive_event_store\<close> adds what holds of a store that
  has no transient failures. Both are interpreted on the in-memory store in \<open>Mem_Store\<close>.
\<close>

record ('s, 'e) event_store_ops =
  es_load :: "aggregate_id \<Rightarrow> 's \<Rightarrow> (store_error, 'e event_envelope list) result"
  es_create :: "'e list \<Rightarrow> correlation_context \<Rightarrow> 's
    \<Rightarrow> (store_error, aggregate_id \<times> 'e event_envelope list) result \<times> 's"
  es_append :: "aggregate_id \<Rightarrow> nat \<Rightarrow> 'e list \<Rightarrow> correlation_context \<Rightarrow> 's
    \<Rightarrow> (store_error, 'e event_envelope list) result \<times> 's"

text \<open>Envelopes that record the given events under the given context.\<close>

definition records :: "'e list \<Rightarrow> correlation_context \<Rightarrow> 'e event_envelope list \<Rightarrow> bool" where
  "records evs ctx envs \<longleftrightarrow> map env_payload envs = evs
    \<and> (\<forall>env \<in> set envs. env_correlation_id env = correlation_id ctx
        \<and> env_causation_id env = causation_id ctx)"

lemma records_length: "records evs ctx envs \<Longrightarrow> length envs = length evs"
  unfolding records_def by (metis length_map)

lemma records_Nil [simp]: "records [] ctx envs \<longleftrightarrow> envs = []"
  by (auto simp: records_def)

lemma records_single: "records [ev] ctx envs \<Longrightarrow> \<exists>env. envs = [env] \<and> env_payload env = ev"
  by (auto simp: records_def map_eq_Cons_conv)

text \<open>A write whose result is unknown either took effect or did not.\<close>

definition maybe_created :: "'e list \<Rightarrow> correlation_context
    \<Rightarrow> (aggregate_id \<Rightarrow> 'e event_envelope list) \<Rightarrow> (aggregate_id \<Rightarrow> 'e event_envelope list) \<Rightarrow> bool" where
  "maybe_created evs ctx f f' \<longleftrightarrow> f' = f \<or>
    (\<exists>i envs. f i = [] \<and> records evs ctx envs \<and> f' = f(i := envs))"

definition maybe_appended :: "aggregate_id \<Rightarrow> 'e list \<Rightarrow> correlation_context
    \<Rightarrow> (aggregate_id \<Rightarrow> 'e event_envelope list) \<Rightarrow> (aggregate_id \<Rightarrow> 'e event_envelope list) \<Rightarrow> bool" where
  "maybe_appended i evs ctx f f' \<longleftrightarrow> f' = f \<or>
    (\<exists>envs. f i \<noteq> [] \<and> records evs ctx envs \<and> f' = f(i := f i @ envs))"

locale event_store =
  fixes ops :: "('s, 'e) event_store_ops"
    and inv :: "'s \<Rightarrow> bool"
    and stream :: "'s \<Rightarrow> aggregate_id \<Rightarrow> 'e event_envelope list"
  assumes load_stream: "inv s \<Longrightarrow> es_load ops i s = Inr es \<Longrightarrow> es = stream s i"
    and stream_valid: "inv s \<Longrightarrow> valid_stream i (stream s i)"
    and stream_bound: "inv s \<Longrightarrow> length (stream s i) \<le> u64_max"
    and create_inv: "inv s \<Longrightarrow> es_create ops evs ctx s = (r, s') \<Longrightarrow> inv s'"
    and append_inv: "inv s \<Longrightarrow> es_append ops i n evs ctx s = (ra, s') \<Longrightarrow> inv s'"
    and create_ok: "inv s \<Longrightarrow> es_create ops evs ctx s = (Inr (i, envs), s') \<Longrightarrow>
      stream s i = [] \<and> evs \<noteq> [] \<and> records evs ctx envs \<and> stream s' = (stream s)(i := envs)"
    and create_err: "inv s \<Longrightarrow> es_create ops evs ctx s = (Inl e, s') \<Longrightarrow>
      (if StoreError_category e = ReconciliationRequired
       then maybe_created evs ctx (stream s) (stream s') else stream s' = stream s)"
    and append_ok: "inv s \<Longrightarrow> evs \<noteq> [] \<Longrightarrow> es_append ops i n evs ctx s = (Inr envs, s') \<Longrightarrow>
      stream s i \<noteq> [] \<and> n = length (stream s i) \<and> records evs ctx envs
      \<and> stream s' = (stream s)(i := stream s i @ envs)"
    and append_empty: "inv s \<Longrightarrow> es_append ops i n [] ctx s = (ra, s') \<Longrightarrow>
      ra = Inr [] \<and> stream s' = stream s"
    and append_err: "inv s \<Longrightarrow> es_append ops i n evs ctx s = (Inl e, s') \<Longrightarrow>
      (if StoreError_category e = ReconciliationRequired
       then maybe_appended i evs ctx (stream s) (stream s') else stream s' = stream s)"
begin

text \<open>
  Histories only grow: after any write, whatever its result, every stream extends what it
  was before.
\<close>

lemma create_prefix:
  assumes "inv s" "es_create ops evs ctx s = (r, s')"
  shows "\<exists>new. stream s' i = stream s i @ new"
proof (cases r)
  case (Inl e)
  with assms have "maybe_created evs ctx (stream s) (stream s')"
    using create_err [of s evs ctx e s'] by (auto simp: maybe_created_def split: if_splits)
  then show ?thesis by (auto simp: maybe_created_def)
next
  case (Inr ie)
  then show ?thesis
    using assms create_ok [of s evs ctx "fst ie" "snd ie" s'] by auto
qed

lemma append_prefix:
  assumes "inv s" "es_append ops i n evs ctx s = (r, s')"
  shows "\<exists>new. stream s' j = stream s j @ new"
proof (cases r)
  case (Inl e)
  with assms have "maybe_appended i evs ctx (stream s) (stream s')"
    using append_err [of s i n evs ctx e s'] by (auto simp: maybe_appended_def split: if_splits)
  then show ?thesis by (auto simp: maybe_appended_def)
next
  case (Inr envs)
  then show ?thesis
    using assms append_ok [of s evs i n ctx envs s'] append_empty [of s i n ctx r s']
    by (cases "evs = []") auto
qed

text \<open>
  The envelopes returned by a successful write: they continue the stream's numbering, and
  the sequence number of the last one is the new length of the stream.
\<close>

lemma append_ok_last:
  assumes "inv s" "evs \<noteq> []" "es_append ops i n evs ctx s = (Inr envs, s')"
  shows "envs \<noteq> []" "env_sequence (last envs) = length (stream s' i)"
proof -
  from append_ok [OF assms] have envs: "records evs ctx envs"
      "stream s' i = stream s i @ envs" by auto
  with assms(2) show ne: "envs \<noteq> []" by (metis records_length length_0_conv)
  from append_inv [OF assms(1,3)] have "valid_stream i (stream s' i)"
    by (rule stream_valid)
  with envs ne show "env_sequence (last envs) = length (stream s' i)"
    using valid_stream_last_seq [of i "stream s' i"] by simp
qed

lemma create_ok_last:
  assumes "inv s" "es_create ops evs ctx s = (Inr (i, envs), s')"
  shows "envs \<noteq> []" "env_sequence (last envs) = length (stream s' i)"
proof -
  from create_ok [OF assms] have envs: "records evs ctx envs" "evs \<noteq> []" "stream s' i = envs"
    by auto
  then show ne: "envs \<noteq> []" by (metis records_length length_0_conv)
  from create_inv [OF assms] have "valid_stream i (stream s' i)" by (rule stream_valid)
  with envs ne show "env_sequence (last envs) = length (stream s' i)"
    using valid_stream_last_seq [of i "stream s' i"] by simp
qed

lemma load_last_seq:
  "inv s \<Longrightarrow> es_load ops i s = Inr es \<Longrightarrow> es \<noteq> [] \<Longrightarrow> env_sequence (last es) = length (stream s i)"
  using load_stream stream_valid valid_stream_last_seq by metis

end

text \<open>
  A store without transient failures: loads succeed, no write has an unknown outcome, and
  single-event writes succeed while there is room in the 64-bit counters. \<open>room s n\<close> says that \<open>n\<close> more such writes fit.
\<close>

locale responsive_event_store = event_store ops inv stream
  for ops :: "('s, 'e) event_store_ops"
    and inv :: "'s \<Rightarrow> bool"
    and stream :: "'s \<Rightarrow> aggregate_id \<Rightarrow> 'e event_envelope list" +
  fixes room :: "'s \<Rightarrow> nat \<Rightarrow> bool"
  assumes load_total: "inv s \<Longrightarrow> es_load ops i s = Inr (stream s i)"
    and room_less: "room s (Suc n) \<Longrightarrow> room s n"
    and create_one: "inv s \<Longrightarrow> room s (Suc n) \<Longrightarrow>
      \<exists>i envs s'. es_create ops [ev] ctx s = (Inr (i, envs), s') \<and> room s' n"
    and create_empty: "inv s \<Longrightarrow> \<exists>m s'. es_create ops [] ctx s = (Inl (Infrastructure m), s')"
    and append_one: "inv s \<Longrightarrow> room s (Suc n) \<Longrightarrow> stream s i \<noteq> [] \<Longrightarrow>
      \<exists>envs s'. es_append ops i (length (stream s i)) [ev] ctx s = (Inr envs, s') \<and> room s' n"
    and append_missing: "inv s \<Longrightarrow> stream s i = [] \<Longrightarrow> evs \<noteq> [] \<Longrightarrow>
      \<exists>m s'. es_append ops i k evs ctx s = (Inl (Infrastructure m), s')"
    and append_conflict: "inv s \<Longrightarrow> stream s i \<noteq> [] \<Longrightarrow> evs \<noteq> [] \<Longrightarrow> k \<noteq> length (stream s i) \<Longrightarrow>
      \<exists>s'. es_append ops i k evs ctx s = (Inl (ConcurrencyConflict i k (length (stream s i))), s')"
    and create_definite: "inv s \<Longrightarrow> es_create ops evs ctx s = (Inl e, s') \<Longrightarrow> stream s' = stream s"
    and append_definite: "inv s \<Longrightarrow> es_append ops i k evs ctx s = (Inl e, s') \<Longrightarrow> stream s' = stream s"

end
