(* ===== verification/Mem_Store.thy ===== *)
theory Mem_Store
  imports Event_Store "HOL-Library.Sublist"
begin

text \<open>
  The in-memory event store of \<open>cherry-pit-core/src/testing.rs\<close>. \<open>event_store_state\<close> is the
  struct behind the mutex. Each call runs under the lock from start to end, so a call is one
  step. The two inputs a call draws from its environment, \<open>Uuid::now_v7\<close> and
  \<open>Timestamp::now\<close>, are the parameters \<open>v7\<close> and \<open>ts\<close>; the fields \<open>uuid_draws\<close> and
  \<open>clock_reads\<close> of \<open>mem_world\<close> count how many values have been drawn.
\<close>

record 'e event_store_state =
  streams :: "(aggregate_id, 'e event_envelope list) hash_map"
  next_id :: nat

record 'e mem_world =
  mem_state :: "'e event_store_state"
  uuid_draws :: nat
  clock_reads :: nat

definition InMemoryEventStore_new :: "'e event_store_state" where
  "InMemoryEventStore_new = \<lparr>streams = [], next_id = 1\<rparr>"

definition mem_start :: "nat \<Rightarrow> nat \<Rightarrow> 'e mem_world" where
  "mem_start draws reads =
    \<lparr>mem_state = InMemoryEventStore_new, uuid_draws = draws, clock_reads = reads\<rparr>"

definition infra_msg :: "string \<Rightarrow> store_error" where
  "infra_msg m = Infrastructure (BoxMessage m)"

text \<open>The loop of \<open>build_envelopes\<close>: returns the new envelopes and the next draw.\<close>

fun build_envelopes_from ::
  "(nat \<Rightarrow> uuid) \<Rightarrow> timestamp \<Rightarrow> aggregate_id \<Rightarrow> nat \<Rightarrow> correlation_context \<Rightarrow> nat \<Rightarrow> nat \<Rightarrow> 'e list
    \<Rightarrow> (store_error, 'e event_envelope list) result \<times> nat"
where
  "build_envelopes_from v7 t aid start ctx i d [] = (Ok [], d)"
| "build_envelopes_from v7 t aid start ctx i d (p # ps) =
    (let i_u64 = (case u64_try_from i of Some n \<Rightarrow> n | None \<Rightarrow> u64_max) in
     case Option.bind (checked_add_u64 start i_u64) (\<lambda>s. checked_add_u64 s 1) of
       None \<Rightarrow> (Err (infra_msg ''sequence overflow''), d)
     | Some raw \<Rightarrow>
       (case non_zero_u64 raw of
         None \<Rightarrow> (Err (infra_msg ''sequence must be non-zero''), d)
       | Some sq \<Rightarrow>
         (case EventEnvelope_new (v7 d) aid sq t (correlation_id ctx) (causation_id ctx) p of
           Inl e \<Rightarrow> (Err (Infrastructure (BoxEnvelopeError e)), Suc d)
         | Inr env \<Rightarrow>
           (case build_envelopes_from v7 t aid start ctx (Suc i) (Suc d) ps of
             (Inl e, d') \<Rightarrow> (Err e, d')
           | (Inr envs, d') \<Rightarrow> (Ok (env # envs), d')))))"

definition build_envelopes ::
  "(nat \<Rightarrow> uuid) \<Rightarrow> timestamp \<Rightarrow> nat \<Rightarrow> aggregate_id \<Rightarrow> nat \<Rightarrow> 'e list \<Rightarrow> correlation_context
    \<Rightarrow> (store_error, 'e event_envelope list) result \<times> nat" where
  "build_envelopes v7 t d aid start evs ctx = build_envelopes_from v7 t aid start ctx 0 d evs"

definition stream_of :: "'e event_store_state \<Rightarrow> aggregate_id \<Rightarrow> 'e event_envelope list" where
  "stream_of st aid = (case hm_get (streams st) aid of Some es \<Rightarrow> es | None \<Rightarrow> [])"

definition mem_load ::
  "aggregate_id \<Rightarrow> 'e mem_world \<Rightarrow> (store_error, 'e event_envelope list) result" where
  "mem_load aid w =
    (let es = stream_of (mem_state w) aid in
     and_then (map_err (\<lambda>e. CorruptData (BoxEnvelopeError e)) (validate_stream aid es))
       (\<lambda>_. Ok es))"

definition mem_create ::
  "(nat \<Rightarrow> uuid) \<Rightarrow> (nat \<Rightarrow> timestamp) \<Rightarrow> 'e list \<Rightarrow> correlation_context \<Rightarrow> 'e mem_world
    \<Rightarrow> (store_error, aggregate_id \<times> 'e event_envelope list) result \<times> 'e mem_world" where
  "mem_create v7 ts evs ctx w =
    (if evs = [] then (Err (infra_msg ''cannot create aggregate with zero events''), w)
     else
       let st = mem_state w; aid = AggregateId_new (next_id st) in
       case checked_add_u64 (next_id st) 1 of
         None \<Rightarrow> (Err (infra_msg ''aggregate ID overflow''), w)
       | Some bumped \<Rightarrow>
         let st1 = st\<lparr>next_id := bumped\<rparr>;
             (r, d) = build_envelopes v7 (ts (clock_reads w)) (uuid_draws w) aid 0 evs ctx;
             w1 = w\<lparr>mem_state := st1, uuid_draws := d, clock_reads := Suc (clock_reads w)\<rparr> in
         case r of
           Inl e \<Rightarrow> (Err e, w1)
         | Inr envs \<Rightarrow>
             (Ok (aid, envs), w1\<lparr>mem_state := st1\<lparr>streams := hm_insert aid envs (streams st1)\<rparr>\<rparr>))"

definition mem_append ::
  "(nat \<Rightarrow> uuid) \<Rightarrow> (nat \<Rightarrow> timestamp) \<Rightarrow> aggregate_id \<Rightarrow> nat \<Rightarrow> 'e list \<Rightarrow> correlation_context
    \<Rightarrow> 'e mem_world \<Rightarrow> (store_error, 'e event_envelope list) result \<times> 'e mem_world" where
  "mem_append v7 ts aid expected_seq evs ctx w =
    (if evs = [] then (Ok [], w)
     else
       let st = mem_state w in
       case hm_get (streams st) aid of
         None \<Rightarrow> (Err (infra_msg (''cannot append to aggregate '' @ AggregateId_fmt aid
                   @ '': not created (use create() first)'')), w)
       | Some es \<Rightarrow>
         let actual_seq = (case last_opt es of None \<Rightarrow> 0 | Some env \<Rightarrow> env_sequence env) in
         if actual_seq \<noteq> expected_seq
         then (Err (ConcurrencyConflict aid expected_seq actual_seq), w)
         else
           let (r, d) = build_envelopes v7 (ts (clock_reads w)) (uuid_draws w) aid expected_seq evs ctx;
               w1 = w\<lparr>uuid_draws := d, clock_reads := Suc (clock_reads w)\<rparr> in
           case r of
             Inl e \<Rightarrow> (Err e, w1)
           | Inr envs \<Rightarrow>
               (Ok envs, w1\<lparr>mem_state := st\<lparr>streams := hm_insert aid (es @ envs) (streams st)\<rparr>\<rparr>))"

definition list_aggregates :: "'e mem_world \<Rightarrow> (store_error, aggregate_id list) result" where
  "list_aggregates w = Ok (hm_keys (streams (mem_state w)))"

definition history ::
  "aggregate_id \<Rightarrow> 'e mem_world \<Rightarrow> (store_error, 'e event_envelope list) result" where
  "history aid w = mem_load aid w"

definition replay_until ::
  "aggregate_id \<Rightarrow> nat \<Rightarrow> 'e mem_world \<Rightarrow> (store_error, 'e event_envelope list) result" where
  "replay_until aid limit w =
    and_then (mem_load aid w) (\<lambda>es. Ok (filter (\<lambda>env. env_sequence env \<le> limit) es))"

definition mem_ops ::
  "(nat \<Rightarrow> uuid) \<Rightarrow> (nat \<Rightarrow> timestamp) \<Rightarrow> ('e mem_world, 'e) event_store_ops" where
  "mem_ops v7 ts = \<lparr>es_load = mem_load, es_create = mem_create v7 ts, es_append = mem_append v7 ts\<rparr>"

section \<open>Envelope batches\<close>

text \<open>What a batch looks like: consecutive draws, consecutive sequence numbers.\<close>

fun stamp ::
  "(nat \<Rightarrow> uuid) \<Rightarrow> timestamp \<Rightarrow> aggregate_id \<Rightarrow> correlation_context \<Rightarrow> nat \<Rightarrow> nat \<Rightarrow> 'e list
    \<Rightarrow> 'e event_envelope list"
where
  "stamp v7 t aid ctx sq d [] = []"
| "stamp v7 t aid ctx sq d (p # ps) =
    \<lparr>env_event_id = v7 d, env_aggregate_id = aid, env_sequence = sq, env_timestamp = t,
     env_correlation_id = correlation_id ctx, env_causation_id = causation_id ctx,
     env_payload = p\<rparr> # stamp v7 t aid ctx (Suc sq) (Suc d) ps"

lemma length_stamp [simp]: "length (stamp v7 t aid ctx sq d ps) = length ps"
  by (induction ps arbitrary: sq d) auto

lemma stamp_Nil_iff [simp]: "stamp v7 t aid ctx sq d ps = [] \<longleftrightarrow> ps = []"
  by (cases ps) auto

lemma records_stamp [simp]: "records ps ctx (stamp v7 t aid ctx sq d ps)"
  unfolding records_def by (induction ps arbitrary: sq d) auto

lemma stamp_ids: "map env_event_id (stamp v7 t aid ctx sq d ps) = map v7 [d..<d + length ps]"
  by (induction ps arbitrary: sq d) (auto simp: upt_conv_Cons simp del: upt_Suc)

lemma stamp_ids_set:
  "env_event_id ` set (stamp v7 t aid ctx sq d ps) = v7 ` {d..<d + length ps}"
  by (metis stamp_ids list.set_map set_upt)

lemma stamp_seqs:
  "map env_sequence (stamp v7 t aid ctx sq d ps) = [sq..<sq + length ps]"
  by (induction ps arbitrary: sq d) (auto simp: upt_conv_Cons simp del: upt_Suc)

lemma stamp_aggregate: "env \<in> set (stamp v7 t aid ctx sq d ps) \<Longrightarrow> env_aggregate_id env = aid"
  by (induction ps arbitrary: sq d) auto

text \<open>Extending a valid stream whose identifiers were drawn before.\<close>

lemma valid_stream_stamp:
  assumes "fresh_uuids v7" "valid_stream aid es" "env_event_id ` set es \<subseteq> v7 ` {..<d}"
  shows "valid_stream aid (es @ stamp v7 t aid ctx (Suc (length es)) d ps)"
proof -
  let ?new = "stamp v7 t aid ctx (Suc (length es)) d ps"
  have inj: "inj v7" using assms(1) by (simp add: fresh_uuids_def)
  have "distinct (map env_event_id ?new)"
    unfolding stamp_ids using inj by (simp add: distinct_map inj_on_def)
  moreover have "env_event_id ` set es \<inter> env_event_id ` set ?new = {}"
    using assms(3) inj unfolding stamp_ids_set
    by (fastforce simp: inj_on_def)
  moreover have "\<forall>env \<in> set ?new. env_event_id env \<noteq> nil_uuid"
  proof
    fix env assume "env \<in> set ?new"
    then have "env_event_id env \<in> v7 ` {d..<d + length ps}" using stamp_ids_set by blast
    then show "env_event_id env \<noteq> nil_uuid"
      using assms(1) unfolding fresh_uuids_def by (metis imageE)
  qed
  moreover have "[1..<Suc (length es)] @ [Suc (length es)..<Suc (length es) + length ps]
      = [1..<Suc (length es + length ps)]"
    using upt_add_eq_append [of 1 "Suc (length es)" "length ps"] by simp
  ultimately show ?thesis
    using assms(2) stamp_aggregate unfolding valid_stream_def
    by (auto simp: stamp_seqs simp del: upt_Suc)
qed

lemma build_envelopes_from_ok:
  assumes "fresh_uuids v7" "start + i + length ps \<le> u64_max"
  shows "build_envelopes_from v7 t aid start ctx i d ps
    = (Ok (stamp v7 t aid ctx (Suc (start + i)) d ps), d + length ps)"
  using assms(2)
proof (induction ps arbitrary: i d)
  case (Cons p ps)
  have "v7 d \<noteq> nil_uuid" using assms(1) by (simp add: fresh_uuids_def)
  moreover have "u64_try_from i = Some i" using Cons.prems by (simp add: u64_try_from_def)
  ultimately show ?case
    using Cons.prems Cons.IH [of "Suc i" "Suc d"]
    by (simp add: checked_add_u64_def non_zero_u64_def EventEnvelope_new_def)
qed simp

lemma build_envelopes_from_overflow:
  assumes "fresh_uuids v7" "u64_max < start + i + length ps" "start + i \<le> u64_max"
  shows "\<exists>d'. build_envelopes_from v7 t aid start ctx i d ps
    = (Err (infra_msg ''sequence overflow''), d') \<and> d \<le> d'"
  using assms(2,3)
proof (induction ps arbitrary: i d)
  case (Cons p ps)
  have nn: "v7 d \<noteq> nil_uuid" using assms(1) by (simp add: fresh_uuids_def)
  have tf: "u64_try_from i = Some i" using Cons.prems by (simp add: u64_try_from_def)
  show ?case
  proof (cases "start + i < u64_max")
    case True
    with Cons.prems obtain d' where "build_envelopes_from v7 t aid start ctx (Suc i) (Suc d) ps
        = (Err (infra_msg ''sequence overflow''), d')" "Suc d \<le> d'"
      using Cons.IH [of "Suc i" "Suc d"] by auto
    with True nn tf show ?thesis
      by (simp add: checked_add_u64_def non_zero_u64_def EventEnvelope_new_def)
  next
    case False
    with Cons.prems tf show ?thesis by (simp add: checked_add_u64_def)
  qed
qed simp

lemma build_envelopes_cases:
  assumes "fresh_uuids v7" "start \<le> u64_max"
  shows "start + length ps \<le> u64_max \<and>
      build_envelopes v7 t d aid start ps ctx = (Ok (stamp v7 t aid ctx (Suc start) d ps), d + length ps)
    \<or> u64_max < start + length ps \<and> (\<exists>d' \<ge> d.
      build_envelopes v7 t d aid start ps ctx = (Err (infra_msg ''sequence overflow''), d'))"
  using build_envelopes_from_ok [OF assms(1), of start 0 ps t aid ctx d]
    build_envelopes_from_overflow [OF assms(1), of start 0 ps t aid ctx d] assms(2)
  unfolding build_envelopes_def by (cases "start + length ps \<le> u64_max") auto

section \<open>Invariant\<close>

definition entry_ok ::
  "(nat \<Rightarrow> uuid) \<Rightarrow> nat \<Rightarrow> nat \<Rightarrow> aggregate_id \<Rightarrow> 'e event_envelope list \<Rightarrow> bool" where
  "entry_ok v7 d n i es \<longleftrightarrow> es \<noteq> [] \<and> valid_stream i es \<and> length es \<le> u64_max
    \<and> 0 < get i \<and> get i < n \<and> env_event_id ` set es \<subseteq> v7 ` {..<d}"

definition mem_inv :: "(nat \<Rightarrow> uuid) \<Rightarrow> 'e mem_world \<Rightarrow> bool" where
  "mem_inv v7 w \<longleftrightarrow>
    fresh_uuids v7
    \<and> hm_wf (streams (mem_state w))
    \<and> 0 < next_id (mem_state w) \<and> next_id (mem_state w) \<le> u64_max
    \<and> (\<forall>i es. hm_get (streams (mem_state w)) i = Some es \<longrightarrow>
        entry_ok v7 (uuid_draws w) (next_id (mem_state w)) i es)
    \<and> (\<forall>i j es fs. i \<noteq> j \<longrightarrow> hm_get (streams (mem_state w)) i = Some es \<longrightarrow>
        hm_get (streams (mem_state w)) j = Some fs \<longrightarrow>
        env_event_id ` set es \<inter> env_event_id ` set fs = {})"

definition mem_stream :: "'e mem_world \<Rightarrow> aggregate_id \<Rightarrow> 'e event_envelope list" where
  "mem_stream w = stream_of (mem_state w)"

definition mem_room :: "'e mem_world \<Rightarrow> nat \<Rightarrow> bool" where
  "mem_room w n \<longleftrightarrow> next_id (mem_state w) + n \<le> u64_max
    \<and> (\<forall>i. length (mem_stream w i) + n \<le> u64_max)"


lemma mem_inv_start [simp]: "fresh_uuids v7 \<Longrightarrow> mem_inv v7 (mem_start d k)"
  by (simp add: mem_inv_def mem_start_def InMemoryEventStore_new_def u64_max_def)

lemma mem_stream_start [simp]: "mem_stream (mem_start d k) i = []"
  by (simp add: mem_stream_def stream_of_def mem_start_def InMemoryEventStore_new_def)

lemma mem_inv_entry:
  "mem_inv v7 w \<Longrightarrow> hm_get (streams (mem_state w)) i = Some es \<Longrightarrow>
    entry_ok v7 (uuid_draws w) (next_id (mem_state w)) i es"
  unfolding mem_inv_def by blast

lemma mem_inv_disjoint:
  "mem_inv v7 w \<Longrightarrow> i \<noteq> j \<Longrightarrow> hm_get (streams (mem_state w)) i = Some es \<Longrightarrow>
    hm_get (streams (mem_state w)) j = Some fs \<Longrightarrow> env_event_id ` set es \<inter> env_event_id ` set fs = {}"
  unfolding mem_inv_def by blast

lemma mem_inv_fresh: "mem_inv v7 w \<Longrightarrow> fresh_uuids v7"
  unfolding mem_inv_def by blast

text \<open>Only a recorded aggregate has a history, and a recorded history is not empty.\<close>

lemma mem_inv_get:
  assumes "mem_inv v7 w"
  shows "hm_get (streams (mem_state w)) i =
    (if mem_stream w i = [] then None else Some (mem_stream w i))"
proof (cases "hm_get (streams (mem_state w)) i")
  case None
  then show ?thesis by (simp add: mem_stream_def stream_of_def)
next
  case (Some es)
  with mem_inv_entry [OF assms Some] show ?thesis
    by (simp add: mem_stream_def stream_of_def entry_ok_def)
qed

lemma mem_inv_stream_entry:
  "mem_inv v7 w \<Longrightarrow> mem_stream w i \<noteq> [] \<Longrightarrow>
    entry_ok v7 (uuid_draws w) (next_id (mem_state w)) i (mem_stream w i)"
  using mem_inv_get mem_inv_entry by metis

lemma mem_inv_stream:
  assumes "mem_inv v7 w"
  shows "valid_stream i (mem_stream w i)" "length (mem_stream w i) \<le> u64_max"
    "env_event_id ` set (mem_stream w i) \<subseteq> v7 ` {..<uuid_draws w}"
  using mem_inv_stream_entry [OF assms, of i]
  by (cases "mem_stream w i = []"; simp add: entry_ok_def)+

lemma mem_inv_fresh_id:
  assumes "mem_inv v7 w"
  shows "mem_stream w (AggregateId (next_id (mem_state w))) = []"
  using mem_inv_stream_entry [OF assms, of "AggregateId (next_id (mem_state w))"]
  by (fastforce simp: entry_ok_def)

text \<open>Counters may move forward without touching the streams.\<close>

lemma entry_ok_mono:
  "entry_ok v7 d n i es \<Longrightarrow> d \<le> d' \<Longrightarrow> n \<le> n' \<Longrightarrow> entry_ok v7 d' n' i es"
  unfolding entry_ok_def by fastforce

lemma mem_inv_advance:
  assumes "mem_inv v7 w" "uuid_draws w \<le> d" "next_id (mem_state w) \<le> n" "n \<le> u64_max"
  shows "mem_inv v7 (w\<lparr>mem_state := (mem_state w)\<lparr>next_id := n\<rparr>, uuid_draws := d, clock_reads := c\<rparr>)"
  unfolding mem_inv_def
proof (intro conjI allI impI, goal_cases)
  case (5 i es)
  then have "entry_ok v7 (uuid_draws w) (next_id (mem_state w)) i es"
    by (simp add: mem_inv_entry [OF assms(1)])
  then show ?case using entry_ok_mono assms(2,3) by simp
next
  case (6 i j es fs)
  then show ?case using mem_inv_disjoint [OF assms(1)] by simp
qed (use assms in \<open>auto simp: mem_inv_def\<close>)

text \<open>One stream is replaced by an extension with freshly drawn identifiers.\<close>

lemma mem_inv_extend:
  assumes inv: "mem_inv v7 w"
    and ev: "ps \<noteq> []" "length (mem_stream w i) + length ps \<le> u64_max"
    and idn: "0 < get i" "get i < n" "next_id (mem_state w) \<le> n" "n \<le> u64_max"
    and es: "es = mem_stream w i @ stamp v7 t i ctx (Suc (length (mem_stream w i))) (uuid_draws w) ps"
  shows "mem_inv v7 (w\<lparr>mem_state := \<lparr>streams = hm_insert i es (streams (mem_state w)), next_id = n\<rparr>,
      uuid_draws := uuid_draws w + length ps, clock_reads := c\<rparr>)"
proof -
  let ?d = "uuid_draws w" and ?d' = "uuid_draws w + length ps"
  let ?new = "stamp v7 t i ctx (Suc (length (mem_stream w i))) ?d ps"
  have fresh: "fresh_uuids v7" and inj: "inj v7"
    using inv by (auto simp: mem_inv_def fresh_uuids_def)
  have valid: "valid_stream i es"
    unfolding es by (intro valid_stream_stamp fresh mem_inv_stream [OF inv])
  have mono: "v7 ` {..<?d} \<subseteq> v7 ` {..<?d'}" by auto
  have new: "env_event_id ` set ?new \<subseteq> v7 ` {?d..<?d'}" unfolding stamp_ids_set by simp
  have ids: "env_event_id ` set es \<subseteq> v7 ` {..<?d'}"
  proof -
    have "v7 ` {?d..<?d'} \<subseteq> v7 ` {..<?d'}" by auto
    with mem_inv_stream(3) [OF inv, of i] new mono show ?thesis
      unfolding es set_append image_Un by blast
  qed
  have apart: "env_event_id ` set es \<inter> env_event_id ` set fs = {}"
    if "j \<noteq> i" "hm_get (streams (mem_state w)) j = Some fs" for j fs
  proof -
    have fs: "env_event_id ` set fs \<subseteq> v7 ` {..<?d}"
      using mem_inv_entry [OF inv that(2)] unfolding entry_ok_def by simp
    have "v7 ` {?d..<?d'} \<inter> v7 ` {..<?d} = v7 ` ({?d..<?d'} \<inter> {..<?d})"
      using inj by (simp add: image_Int)
    then have "v7 ` {?d..<?d'} \<inter> v7 ` {..<?d} = {}" by auto
    with new fs have "env_event_id ` set ?new \<inter> env_event_id ` set fs = {}" by blast
    moreover have "env_event_id ` set (mem_stream w i) \<inter> env_event_id ` set fs = {}"
      using mem_inv_disjoint [OF inv _ _ that(2), of i] that(1) mem_inv_get [OF inv, of i]
      by (cases "mem_stream w i = []") auto
    ultimately show ?thesis unfolding es set_append image_Un by blast
  qed
  have new_entry: "entry_ok v7 ?d' n i es"
    using valid ids ev idn unfolding entry_ok_def es by auto
  have keep: "entry_ok v7 ?d' n j fs" if "hm_get (streams (mem_state w)) j = Some fs" for j fs
    by (rule entry_ok_mono [OF mem_inv_entry [OF inv that] _ idn(3)]) simp
  have wf: "hm_wf (streams (mem_state w))" using inv unfolding mem_inv_def by simp
  show ?thesis
    unfolding mem_inv_def
  proof (intro conjI allI impI, goal_cases)
    case (5 j fs)
    then show ?case using new_entry keep by (auto split: if_splits)
  next
    case (6 j k fs gs)
    then show ?case
      using apart mem_inv_disjoint [OF inv, of j k fs gs]
      by (cases "j = i"; cases "k = i") (auto simp: Int_commute)
  qed (use fresh wf idn in auto)
qed


section \<open>The operations\<close>

abbreviation new_aggregate :: "'e mem_world \<Rightarrow> aggregate_id" where
  "new_aggregate w \<equiv> AggregateId (next_id (mem_state w))"

abbreviation mem_bumped :: "'e mem_world \<Rightarrow> nat \<Rightarrow> 'e mem_world" where
  "mem_bumped w d \<equiv> w\<lparr>mem_state := (mem_state w)\<lparr>next_id := Suc (next_id (mem_state w))\<rparr>,
    uuid_draws := d, clock_reads := Suc (clock_reads w)\<rparr>"

abbreviation mem_extended :: "'e mem_world \<Rightarrow> aggregate_id \<Rightarrow> 'e event_envelope list \<Rightarrow> nat \<Rightarrow> nat \<Rightarrow> 'e mem_world" where
  "mem_extended w i es n d \<equiv>
    w\<lparr>mem_state := \<lparr>streams = hm_insert i es (streams (mem_state w)), next_id = n\<rparr>,
      uuid_draws := d, clock_reads := Suc (clock_reads w)\<rparr>"

lemma mem_create_eq:
  assumes "mem_inv v7 w" "evs \<noteq> []" "next_id (mem_state w) < u64_max" "length evs \<le> u64_max"
  shows "mem_create v7 ts evs ctx w =
    (let envs = stamp v7 (ts (clock_reads w)) (new_aggregate w) ctx 1 (uuid_draws w) evs in
      (Ok (new_aggregate w, envs), mem_extended w (new_aggregate w) envs
        (Suc (next_id (mem_state w))) (uuid_draws w + length evs)))"
  using build_envelopes_cases [OF mem_inv_fresh [OF assms(1)], of 0 evs] assms(2-)
  by (cases w; cases "mem_state w")
    (auto simp: mem_create_def checked_add_u64_def AggregateId_new_def Let_def)

lemma mem_create_overflow:
  assumes "mem_inv v7 w" "next_id (mem_state w) < u64_max" "u64_max < length evs"
  shows "\<exists>d \<ge> uuid_draws w. mem_create v7 ts evs ctx w =
    (Err (infra_msg ''sequence overflow''), mem_bumped w d)"
  using build_envelopes_cases [OF mem_inv_fresh [OF assms(1)], of 0 evs
      "ts (clock_reads w)" "uuid_draws w" "new_aggregate w" ctx] assms(2-)
  by (auto simp: mem_create_def checked_add_u64_def AggregateId_new_def Let_def)

lemma mem_create_full:
  assumes "mem_inv v7 w" "evs \<noteq> []" "next_id (mem_state w) = u64_max"
  shows "mem_create v7 ts evs ctx w = (Err (infra_msg ''aggregate ID overflow''), w)"
  using assms by (simp add: mem_create_def checked_add_u64_def)

lemma mem_stream_last:
  assumes "mem_inv v7 w" "mem_stream w i \<noteq> []"
  shows "last_opt (mem_stream w i) = Some (last (mem_stream w i))"
    "env_sequence (last (mem_stream w i)) = length (mem_stream w i)"
  using valid_stream_last_seq [OF mem_inv_stream(1) [OF assms(1)] assms(2)] assms(2)
  by (auto simp: last_opt_Some)

lemma mem_append_eq:
  assumes "mem_inv v7 w" "evs \<noteq> []" "mem_stream w i \<noteq> []"
    "length (mem_stream w i) + length evs \<le> u64_max"
  shows "mem_append v7 ts i (length (mem_stream w i)) evs ctx w =
    (let envs = stamp v7 (ts (clock_reads w)) i ctx (Suc (length (mem_stream w i)))
          (uuid_draws w) evs in
      (Ok envs, mem_extended w i (mem_stream w i @ envs) (next_id (mem_state w))
        (uuid_draws w + length evs)))"
proof -
  note last = mem_stream_last [OF assms(1,3)]
  show ?thesis
    using last build_envelopes_cases [OF mem_inv_fresh [OF assms(1)], of "length (mem_stream w i)" evs]
      assms(2-) mem_inv_get [OF assms(1), of i]
    by (cases w; cases "mem_state w") (auto simp: mem_append_def Let_def)
qed

lemma mem_append_overflow:
  assumes "mem_inv v7 w" "mem_stream w i \<noteq> []"
    "u64_max < length (mem_stream w i) + length evs"
  shows "\<exists>d \<ge> uuid_draws w. mem_append v7 ts i (length (mem_stream w i)) evs ctx w =
    (Err (infra_msg ''sequence overflow''),
     w\<lparr>uuid_draws := d, clock_reads := Suc (clock_reads w)\<rparr>)"
proof -
  note last = mem_stream_last [OF assms(1,2)]
  have "evs \<noteq> []" using assms mem_inv_stream(2) [OF assms(1), of i] by auto
  then show ?thesis
    using last build_envelopes_cases [OF mem_inv_fresh [OF assms(1)], of "length (mem_stream w i)" evs
        "ts (clock_reads w)" "uuid_draws w" i ctx]
      assms(2-) mem_inv_get [OF assms(1), of i] mem_inv_stream(2) [OF assms(1), of i]
    by (auto simp: mem_append_def)
qed

lemma mem_append_conflict:
  assumes "mem_inv v7 w" "evs \<noteq> []" "mem_stream w i \<noteq> []" "k \<noteq> length (mem_stream w i)"
  shows "mem_append v7 ts i k evs ctx w =
    (Err (ConcurrencyConflict i k (length (mem_stream w i))), w)"
proof -
  note last = mem_stream_last [OF assms(1,3)]
  show ?thesis
    using last assms(2-) mem_inv_get [OF assms(1), of i] by (simp add: mem_append_def)
qed

lemma mem_append_missing:
  assumes "mem_inv v7 w" "evs \<noteq> []" "mem_stream w i = []"
  shows "mem_append v7 ts i k evs ctx w =
    (Err (infra_msg (''cannot append to aggregate '' @ AggregateId_fmt i
       @ '': not created (use create() first)'')), w)"
  using assms mem_inv_get [OF assms(1), of i] by (simp add: mem_append_def)

lemma mem_append_empty: "mem_append v7 ts i k [] ctx w = (Ok [], w)"
  by (simp add: mem_append_def)

lemma mem_create_empty:
  "mem_create v7 ts [] ctx w = (Err (infra_msg ''cannot create aggregate with zero events''), w)"
  by (simp add: mem_create_def)

lemma mem_load_eq: "mem_inv v7 w \<Longrightarrow> mem_load i w = Ok (mem_stream w i)"
  using mem_inv_stream [of v7 w i] validate_stream_Ok_iff [of "mem_stream w i" i]
  by (simp add: mem_load_def mem_stream_def Let_def)

lemma mem_stream_extended [simp]:
  "mem_stream (w\<lparr>mem_state := \<lparr>streams = hm_insert i es (streams (mem_state w)), next_id = n\<rparr>\<rparr>)
    = (mem_stream w)(i := es)"
  by (auto simp: mem_stream_def stream_of_def fun_eq_iff)

lemma mem_stream_update [simp]:
  "mem_stream (w\<lparr>mem_state := (mem_state w)\<lparr>next_id := n\<rparr>\<rparr>) = mem_stream w"
  "mem_stream (w\<lparr>uuid_draws := d\<rparr>) = mem_stream w"
  "mem_stream (w\<lparr>clock_reads := c\<rparr>) = mem_stream w"
  by (auto simp: mem_stream_def stream_of_def fun_eq_iff)

lemma mem_inv_draw:
  assumes "mem_inv v7 w" "uuid_draws w \<le> d"
  shows "mem_inv v7 (w\<lparr>uuid_draws := d, clock_reads := c\<rparr>)"
  using mem_inv_advance [OF assms, of "next_id (mem_state w)" c] assms(1)
  by (cases w; cases "mem_state w") (simp add: mem_inv_def)

lemmas mem_append_facts = mem_append_eq mem_append_overflow mem_append_conflict
  mem_append_missing mem_append_empty

lemmas mem_create_facts = mem_create_eq mem_create_overflow mem_create_full mem_create_empty

lemma infra_msg_category [simp]: "StoreError_category (infra_msg m) = Retryable"
  by (simp add: infra_msg_def)

text \<open>Every call either fails and leaves all histories alone, or extends exactly one history.\<close>

lemma mem_create_elim:
  assumes inv: "mem_inv v7 w" and call: "mem_create v7 ts evs ctx w = (r, w')"
  obtains (failed) e where "r = Inl e" "StoreError_category e = Retryable"
      "mem_stream w' = mem_stream w" "mem_inv v7 w'"
  | (created) envs where "r = Inr (new_aggregate w, envs)" "evs \<noteq> []" "records evs ctx envs"
      "mem_stream w (new_aggregate w) = []"
      "mem_stream w' = (mem_stream w)(new_aggregate w := envs)" "mem_inv v7 w'"
proof -
  have n: "0 < next_id (mem_state w)" "next_id (mem_state w) \<le> u64_max"
    using inv by (auto simp: mem_inv_def)
  have empty: "mem_stream w (new_aggregate w) = []" by (rule mem_inv_fresh_id [OF inv])
  consider "evs = []" | "evs \<noteq> []" "next_id (mem_state w) = u64_max"
    | "evs \<noteq> []" "next_id (mem_state w) < u64_max" "u64_max < length evs"
    | "evs \<noteq> []" "next_id (mem_state w) < u64_max" "length evs \<le> u64_max"
    using n by linarith
  then show thesis
  proof cases
    case 1
    with call mem_create_empty [of v7 ts ctx w] inv show ?thesis by (intro failed) auto
  next
    case 2
    with call mem_create_full [OF inv 2, of ts ctx] inv show ?thesis by (intro failed) auto
  next
    case 3
    obtain d where "uuid_draws w \<le> d"
        "mem_create v7 ts evs ctx w = (Err (infra_msg ''sequence overflow''), mem_bumped w d)"
      using mem_create_overflow [OF inv 3(2,3), of ts ctx] by blast
    with call 3 mem_inv_advance [OF inv, of d "Suc (next_id (mem_state w))"]
    show ?thesis by (intro failed) auto
  next
    case 4
    with call mem_create_eq [OF inv 4, of ts ctx] empty n
      mem_inv_extend [OF inv 4(1), of "new_aggregate w" "Suc (next_id (mem_state w))" _
        "ts (clock_reads w)" ctx "Suc (clock_reads w)"]
    show ?thesis by (intro created) (auto simp: Let_def)
  qed
qed

lemma mem_append_elim:
  assumes inv: "mem_inv v7 w" and call: "mem_append v7 ts i k evs ctx w = (r, w')"
  obtains (failed) e where "r = Inl e" "StoreError_category e = Retryable" "evs \<noteq> []"
      "mem_stream w' = mem_stream w" "mem_inv v7 w'"
  | (noop) "evs = []" "r = Inr []" "w' = w" "mem_inv v7 w'"
  | (appended) envs where "r = Inr envs" "evs \<noteq> []" "records evs ctx envs"
      "mem_stream w i \<noteq> []" "k = length (mem_stream w i)"
      "mem_stream w' = (mem_stream w)(i := mem_stream w i @ envs)" "mem_inv v7 w'"
proof -
  let ?n = "length (mem_stream w i)"
  consider "evs = []" | "evs \<noteq> []" "mem_stream w i = []"
    | "evs \<noteq> []" "mem_stream w i \<noteq> []" "k \<noteq> ?n"
    | "evs \<noteq> []" "mem_stream w i \<noteq> []" "k = ?n" "u64_max < ?n + length evs"
    | "evs \<noteq> []" "mem_stream w i \<noteq> []" "k = ?n" "?n + length evs \<le> u64_max"
    by linarith
  then show thesis
  proof cases
    case 1
    with call mem_append_empty [of v7 ts i k ctx w] inv show ?thesis by (intro noop) auto
  next
    case 2
    with call mem_append_missing [OF inv 2, of ts k ctx] inv show ?thesis by (intro failed) auto
  next
    case 3
    with call mem_append_conflict [OF inv 3, of ts ctx] inv show ?thesis by (intro failed) auto
  next
    case 4
    obtain d where "uuid_draws w \<le> d" "mem_append v7 ts i ?n evs ctx w =
        (Err (infra_msg ''sequence overflow''), w\<lparr>uuid_draws := d, clock_reads := Suc (clock_reads w)\<rparr>)"
      using mem_append_overflow [OF inv 4(2,4), of ts ctx] by blast
    with call 4 mem_inv_draw [OF inv, of d] show ?thesis by (intro failed) auto
  next
    case 5
    have "0 < get i" "get i < next_id (mem_state w)" "next_id (mem_state w) \<le> u64_max"
      using mem_inv_stream_entry [OF inv 5(2)] inv by (auto simp: entry_ok_def mem_inv_def)
    with call 5 mem_append_eq [OF inv 5(1,2,4), of ts ctx]
      mem_inv_extend [OF inv 5(1,4), of "next_id (mem_state w)" _
        "ts (clock_reads w)" ctx "Suc (clock_reads w)"]
    show ?thesis by (intro appended) (auto simp: Let_def)
  qed
qed

section \<open>The in-memory store implements the port\<close>

lemma mem_room_step:
  assumes "mem_room w (Suc n)" "n' \<le> Suc (next_id (mem_state w))"
    "length es \<le> Suc (length (mem_stream w i))"
  shows "mem_room (mem_extended w i es n' d) n"
proof -
  have old: "length (mem_stream w j) + Suc n \<le> u64_max" for j
    using assms(1) unfolding mem_room_def by blast
  have "length es + n \<le> u64_max" using old [of i] assms(3) by linarith
  then show ?thesis
    using assms(1,2) old unfolding mem_room_def by (auto intro: Suc_leD)
qed

interpretation mem: responsive_event_store "mem_ops v7 ts" "mem_inv v7" mem_stream mem_room
  for v7 ts
proof (unfold_locales, goal_cases)
  case (1 s i es)
  then show ?case by (simp add: mem_ops_def mem_load_eq)
next
  case (2 s i)
  then show ?case by (rule mem_inv_stream)
next
  case (3 s i)
  then show ?case by (rule mem_inv_stream)
next
  case (4 s evs ctx r s')
  then show ?case unfolding mem_ops_def by simp (erule (1) mem_create_elim)
next
  case (5 s i n evs ctx ra s')
  then show ?case unfolding mem_ops_def by simp (erule (1) mem_append_elim; simp)
next
  case (6 s evs ctx i envs s')
  then show ?case unfolding mem_ops_def by simp (erule (1) mem_create_elim; simp)
next
  case (7 s evs ctx e s')
  then show ?case unfolding mem_ops_def by simp (erule (1) mem_create_elim; simp)
next
  case (8 s evs i n ctx envs s')
  then show ?case unfolding mem_ops_def by simp (erule (1) mem_append_elim; simp)
next
  case (9 s i n ctx ra s')
  then show ?case by (simp add: mem_ops_def mem_append_empty)
next
  case (10 s i n evs ctx e s')
  then show ?case unfolding mem_ops_def by simp (erule (1) mem_append_elim; simp)
next
  case (11 s i)
  then show ?case by (simp add: mem_ops_def mem_load_eq)
next
  case (12 s n)
  then show ?case by (auto simp: mem_room_def intro: Suc_leD)
next
  case (13 s n ev ctx)
  then have "next_id (mem_state s) < u64_max" by (simp add: mem_room_def)
  with 13 show ?case
    using mem_create_eq [of v7 s "[ev]" ts ctx] mem_room_step [OF 13(2)]
    by (simp add: mem_ops_def Let_def u64_max_def)
next
  case (14 s ctx)
  then show ?case by (simp add: mem_ops_def mem_create_empty infra_msg_def)
next
  case (15 s n i ev ctx)
  then have "length (mem_stream s i) + length [ev] \<le> u64_max"
    by (auto simp: mem_room_def dest: spec [of _ i])
  with 15 show ?case
    using mem_append_eq [of v7 s "[ev]" i ts ctx] mem_room_step [OF 15(2)]
    by (simp add: mem_ops_def Let_def)
next
  case (16 s i evs k ctx)
  then show ?case by (simp add: mem_ops_def mem_append_missing infra_msg_def)
next
  case (17 s i evs k ctx)
  then show ?case by (simp add: mem_ops_def mem_append_conflict)
next
  case (18 s evs ctx e s')
  then show ?case unfolding mem_ops_def by simp (erule (1) mem_create_elim; simp)
next
  case (19 s i k evs ctx e s')
  then show ?case unfolding mem_ops_def by simp (erule (1) mem_append_elim; simp)
qed

section \<open>Sequences of calls\<close>

datatype 'e store_call =
    CallCreate "'e list" correlation_context
  | CallAppend aggregate_id nat "'e list" correlation_context

fun mem_call :: "(nat \<Rightarrow> uuid) \<Rightarrow> (nat \<Rightarrow> timestamp) \<Rightarrow> 'e store_call \<Rightarrow> 'e mem_world \<Rightarrow> 'e mem_world" where
  "mem_call v7 ts (CallCreate evs ctx) w = snd (mem_create v7 ts evs ctx w)"
| "mem_call v7 ts (CallAppend i k evs ctx) w = snd (mem_append v7 ts i k evs ctx w)"

definition mem_run :: "(nat \<Rightarrow> uuid) \<Rightarrow> (nat \<Rightarrow> timestamp) \<Rightarrow> 'e store_call list \<Rightarrow> 'e mem_world \<Rightarrow> 'e mem_world" where
  "mem_run v7 ts = fold (mem_call v7 ts)"

lemma mem_call_step:
  assumes "mem_inv v7 w"
  shows "mem_inv v7 (mem_call v7 ts c w)"
    "\<exists>new. mem_stream (mem_call v7 ts c w) i = mem_stream w i @ new"
proof -
  have "mem_inv v7 (mem_call v7 ts c w) \<and>
      (\<exists>new. mem_stream (mem_call v7 ts c w) i = mem_stream w i @ new)"
  proof (cases c)
    case (CallCreate evs ctx)
    then show ?thesis
      using mem.create_inv [OF assms, of ts evs ctx] mem.create_prefix [OF assms, of ts evs ctx]
      by (cases "mem_create v7 ts evs ctx w") (simp add: mem_ops_def)
  next
    case (CallAppend j k evs ctx)
    then show ?thesis
      using mem.append_inv [OF assms, of ts j k evs ctx]
        mem.append_prefix [OF assms, of ts j k evs ctx]
      by (cases "mem_append v7 ts j k evs ctx w") (simp add: mem_ops_def)
  qed
  then show "mem_inv v7 (mem_call v7 ts c w)"
    "\<exists>new. mem_stream (mem_call v7 ts c w) i = mem_stream w i @ new" by auto
qed

lemma mem_run_inv: "mem_inv v7 w \<Longrightarrow> mem_inv v7 (mem_run v7 ts cs w)"
  unfolding mem_run_def by (induction cs arbitrary: w) (auto simp: mem_call_step)

lemma mem_run_prefix:
  "mem_inv v7 w \<Longrightarrow> \<exists>new. mem_stream (mem_run v7 ts cs w) i = mem_stream w i @ new"
proof (induction cs arbitrary: w)
  case Nil
  then show ?case by (simp add: mem_run_def)
next
  case (Cons c cs)
  let ?w = "mem_call v7 ts c w"
  obtain a where "mem_stream ?w i = mem_stream w i @ a"
    using mem_call_step(2) [OF Cons.prems] by blast
  moreover obtain b where "mem_stream (mem_run v7 ts cs ?w) i = mem_stream ?w i @ b"
    using Cons.IH [OF mem_call_step(1) [OF Cons.prems]] by blast
  ultimately show ?case by (simp add: mem_run_def)
qed

text \<open>Evaluation of concrete calls by rewriting.\<close>

lemmas mem_eval = mem_create_def mem_append_def mem_start_def InMemoryEventStore_new_def
  build_envelopes_def u64_try_from_def checked_add_u64_def non_zero_u64_def u64_max_def
  EventEnvelope_new_def nil_uuid_def AggregateId_new_def hm_get_def hm_insert_def
  mem_stream_def stream_of_def CorrelationContext_none_def numeral_2_eq_2 Let_def

text \<open>
  C1. Whatever calls are made on a fresh store, with whatever arguments and results: loading
  any aggregate succeeds and returns a history that meets the replay contract; no two
  recorded events of the whole store share an identifier; and each history only ever grows,
  by appending.
\<close>

theorem mem_run_histories:
  assumes "fresh_uuids v7"
  shows "mem_load i (mem_run v7 ts (cs @ ds) (mem_start d k))
      = Ok (mem_stream (mem_run v7 ts (cs @ ds) (mem_start d k)) i)
    \<and> valid_stream i (mem_stream (mem_run v7 ts (cs @ ds) (mem_start d k)) i)
    \<and> (i \<noteq> j \<longrightarrow>
        env_event_id ` set (mem_stream (mem_run v7 ts (cs @ ds) (mem_start d k)) i)
        \<inter> env_event_id ` set (mem_stream (mem_run v7 ts (cs @ ds) (mem_start d k)) j) = {})
    \<and> prefix (mem_stream (mem_run v7 ts cs (mem_start d k)) i)
        (mem_stream (mem_run v7 ts (cs @ ds) (mem_start d k)) i)"
proof (intro conjI impI)
  let ?w = "mem_run v7 ts cs (mem_start d k)" and ?w' = "mem_run v7 ts (cs @ ds) (mem_start d k)"
  have inv: "mem_inv v7 ?w" "mem_inv v7 ?w'"
    using assms by (auto intro: mem_run_inv)
  show "mem_load i ?w' = Ok (mem_stream ?w' i)" by (rule mem_load_eq [OF inv(2)])
  show "valid_stream i (mem_stream ?w' i)" by (rule mem_inv_stream [OF inv(2)])
  show "env_event_id ` set (mem_stream ?w' i) \<inter> env_event_id ` set (mem_stream ?w' j) = {}"
    if "i \<noteq> j"
    using mem_inv_disjoint [OF inv(2) that] mem_inv_get [OF inv(2), of i]
      mem_inv_get [OF inv(2), of j]
    by (cases "mem_stream ?w' i = []"; cases "mem_stream ?w' j = []") auto
  have "?w' = mem_run v7 ts ds ?w" by (simp add: mem_run_def)
  then show "prefix (mem_stream ?w i) (mem_stream ?w' i)"
    using mem_run_prefix [OF inv(1), of ts ds i] by (auto simp: prefix_def)
qed

theorem mem_run_histories_witness:
  "valid_stream (AggregateId 1) (mem_stream
     (mem_run Suc (\<lambda>_. 0) ([CallCreate [True] CorrelationContext_none]
        @ [CallAppend (AggregateId 1) 1 [False] CorrelationContext_none]) (mem_start 0 0))
     (AggregateId 1))
   \<and> length (mem_stream
     (mem_run Suc (\<lambda>_. 0) [CallCreate [True] CorrelationContext_none,
        CallAppend (AggregateId 1) 1 [False] CorrelationContext_none] (mem_start 0 0))
     (AggregateId 1)) = 2"
proof
  show "valid_stream (AggregateId 1) (mem_stream
     (mem_run Suc (\<lambda>_. 0) ([CallCreate [True] CorrelationContext_none]
        @ [CallAppend (AggregateId 1) 1 [False] CorrelationContext_none]) (mem_start 0 0))
     (AggregateId 1))"
    using mem_run_histories [OF fresh_uuids_Suc] by blast
qed (simp add: mem_run_def mem_eval)

text \<open>
  Optimistic concurrency. On every reachable store a non-empty \<open>append\<close> succeeds exactly
  when the aggregate exists, the caller's \<open>expected_sequence\<close> is the current length of its
  history, and the sequence counter has room; it then returns one envelope per event, stamped
  with the caller's context and numbered on from the history, and only that history grows, by
  exactly those envelopes. A wrong \<open>expected_sequence\<close> is answered with a conflict that
  reports the actual one, a missing aggregate with an infrastructure error, and every
  failed append leaves all histories as they were.
\<close>

theorem mem_append_behaviour:
  assumes "mem_inv v7 w" "evs \<noteq> []" "mem_append v7 ts i k evs ctx w = (r, w')"
  shows "mem_inv v7 w' \<and>
    (case r of
      Inr envs \<Rightarrow> mem_stream w i \<noteq> [] \<and> k = length (mem_stream w i)
        \<and> k + length evs \<le> u64_max \<and> records evs ctx envs
        \<and> map env_sequence envs = [Suc k..<Suc k + length evs]
        \<and> mem_stream w' = (mem_stream w)(i := mem_stream w i @ envs)
    | Inl e \<Rightarrow> mem_stream w' = mem_stream w \<and>
        (if mem_stream w i = [] then
           e = infra_msg (''cannot append to aggregate '' @ AggregateId_fmt i
             @ '': not created (use create() first)'')
         else if k \<noteq> length (mem_stream w i) then
           e = ConcurrencyConflict i k (length (mem_stream w i))
         else u64_max < k + length evs \<and> e = infra_msg ''sequence overflow''))"
proof -
  let ?n = "length (mem_stream w i)"
  have inv': "mem_inv v7 w'"
    using mem.append_inv [OF assms(1), of ts i k evs ctx] assms(3) by (simp add: mem_ops_def)
  consider "mem_stream w i = []" | "mem_stream w i \<noteq> []" "k \<noteq> ?n"
    | "mem_stream w i \<noteq> []" "k = ?n" "u64_max < ?n + length evs"
    | "mem_stream w i \<noteq> []" "k = ?n" "?n + length evs \<le> u64_max"
    by linarith
  then show ?thesis
  proof cases
    case 1
    with assms mem_append_missing [OF assms(1,2) 1] inv' show ?thesis by auto
  next
    case 2
    with assms mem_append_conflict [OF assms(1,2) 2] inv' show ?thesis by auto
  next
    case 3
    with assms mem_append_overflow [OF assms(1) 3(1,3), of ts ctx] inv' show ?thesis by auto
  next
    case 4
    with assms mem_append_eq [OF assms(1,2) 4(1,3)] inv' show ?thesis
      by (auto simp: Let_def stamp_seqs)
  qed
qed

definition one_event_store :: "bool mem_world" where
  "one_event_store = mem_run Suc (\<lambda>_. 0) [CallCreate [True] CorrelationContext_none] (mem_start 0 0)"

lemma one_event_store_inv: "mem_inv Suc one_event_store"
  unfolding one_event_store_def by (intro mem_run_inv mem_inv_start fresh_uuids_Suc)

lemma one_event_store_length: "length (mem_stream one_event_store (AggregateId 1)) = 1"
  by (simp add: one_event_store_def mem_run_def mem_eval)

theorem mem_append_behaviour_witness:
  "fst (mem_append Suc (\<lambda>_. 0) (AggregateId 1) 5 [False] CorrelationContext_none one_event_store)
    = Err (ConcurrencyConflict (AggregateId 1) 5 1)
   \<and> is_ok (fst (mem_append Suc (\<lambda>_. 0) (AggregateId 1) 1 [False] CorrelationContext_none
       one_event_store))"
proof -
  obtain r w' where a: "mem_append Suc (\<lambda>_. 0) (AggregateId 1) 5 [False] CorrelationContext_none
      one_event_store = (r, w')" by fastforce
  obtain r2 w2 where b: "mem_append Suc (\<lambda>_. 0) (AggregateId 1) 1 [False] CorrelationContext_none
      one_event_store = (r2, w2)" by fastforce
  have len: "length (mem_stream one_event_store (AggregateId 1)) = 1"
    "mem_stream one_event_store (AggregateId 1) \<noteq> []"
    using one_event_store_length by auto
  have "r = Err (ConcurrencyConflict (AggregateId 1) 5 1)"
    using mem_append_behaviour [OF one_event_store_inv _ a] len by (auto split: sum.splits)
  moreover have "is_ok r2"
    using mem_append_behaviour [OF one_event_store_inv _ b] len
    by (cases r2) (auto simp: u64_max_def)
  ultimately show ?thesis using a b by simp
qed

text \<open>
  \<open>create\<close> allocates the next unused aggregate id: the call fails and leaves every history
  as it was when there are no events or a 64-bit counter would overflow; otherwise it returns
  the id \<open>next_id\<close>, under which nothing was recorded before, and a load right after returns
  exactly the returned envelopes, one per event, numbered from 1 and stamped with the context.
\<close>

theorem mem_create_then_load:
  assumes "mem_inv v7 w" "mem_create v7 ts evs ctx w = (r, w')"
  shows "mem_inv v7 w' \<and>
    (case r of
      Inr (i, envs) \<Rightarrow> i = AggregateId (next_id (mem_state w)) \<and> mem_load i w = Ok []
        \<and> mem_load i w' = Ok envs \<and> records evs ctx envs
        \<and> map env_sequence envs = [1..<Suc (length evs)]
        \<and> next_id (mem_state w') = Suc (next_id (mem_state w))
        \<and> (\<forall>j. j \<noteq> i \<longrightarrow> mem_stream w' j = mem_stream w j)
    | Inl e \<Rightarrow> mem_stream w' = mem_stream w \<and> (evs = [] \<or> next_id (mem_state w) = u64_max
        \<or> u64_max < length evs))"
proof -
  have inv': "mem_inv v7 w'"
    using mem.create_inv [OF assms(1), of ts evs ctx] assms(2) by (simp add: mem_ops_def)
  have n: "next_id (mem_state w) \<le> u64_max" using assms(1) by (simp add: mem_inv_def)
  show ?thesis
  proof (cases "evs \<noteq> [] \<and> next_id (mem_state w) < u64_max \<and> length evs \<le> u64_max")
    case True
    then show ?thesis
      using assms mem_create_eq [OF assms(1), of evs ts ctx] inv' mem_load_eq [OF assms(1)]
        mem_load_eq [OF inv'] mem_inv_fresh_id [OF assms(1)]
      by (auto simp: Let_def stamp_seqs)
  next
    case False
    then have "evs = [] \<or> next_id (mem_state w) = u64_max \<or> u64_max < length evs"
      using n by linarith
    moreover from this n have "\<exists>e. r = Inl e" "mem_stream w' = mem_stream w"
      using assms mem_create_empty [of v7 ts ctx w] mem_create_full [OF assms(1), of evs ts ctx]
        mem_create_overflow [OF assms(1), of evs ts ctx]
      by (cases "evs = []"; cases "next_id (mem_state w) = u64_max"; force)+
    ultimately show ?thesis using inv' by auto
  qed
qed

theorem mem_create_then_load_witness:
  "case mem_create Suc (\<lambda>_. 0) [True, False] CorrelationContext_none one_event_store of
    (Inr (i, envs), w') \<Rightarrow> i = AggregateId 2 \<and> mem_load i w' = Ok envs
      \<and> map env_payload envs = [True, False]
  | (Inl e, w') \<Rightarrow> False"
proof -
  obtain r w' where call: "mem_create Suc (\<lambda>_. 0) [True, False] CorrelationContext_none
      one_event_store = (r, w')" by fastforce
  have n: "next_id (mem_state one_event_store) = 2"
    by (simp add: one_event_store_def mem_run_def mem_eval)
  show ?thesis
    using mem_create_then_load [OF one_event_store_inv call] call n
    by (auto simp: u64_max_def records_def split: sum.splits prod.splits)
qed

end
