(* ===== verification/Conformance.thy ===== *)
theory Conformance
  imports Mem_Store
begin

text \<open>
  The conformance harness of \<open>cherry-pit-core/src/testing.rs\<close>: executable checks that every
  implementation of the ports must pass. A harness function panics on a violation; the model
  returns the panic message on the left. The store factory \<open>make_store\<close> is called once per
  scenario, so it is a function of the scenario's number. The lemmas show that the harness
  demands nothing beyond the port contract: every store that meets the locale
  \<open>responsive_event_store\<close> passes, and so does the in-memory store.
\<close>

type_synonym 'a checked = "(string, 'a) result"

definition assert_that :: "bool \<Rightarrow> string \<Rightarrow> unit checked" where
  "assert_that b msg = (if b then Ok () else Err msg)"

lemma assert_that_Ok [simp]: "assert_that b msg = Inr u \<longleftrightarrow> b"
  by (simp add: assert_that_def)

lemma assert_that_True [simp]: "assert_that True msg = Inr ()"
  by (simp add: assert_that_def)

text \<open>The loops over \<open>iter().enumerate()\<close>: position \<open>i\<close> must carry sequence \<open>i + 1\<close>.\<close>

fun check_contiguous :: "string \<Rightarrow> aggregate_id option \<Rightarrow> nat \<Rightarrow> 'e event_envelope list \<Rightarrow> unit checked" where
  "check_contiguous label aid i [] = Ok ()"
| "check_contiguous label aid i (env # envs) =
    and_then (assert_that (env_sequence env = i + 1)
        (label @ ''['' @ show_nat i @ ''] sequence must be '' @ show_nat (i + 1)))
      (\<lambda>_. and_then (case aid of None \<Rightarrow> Ok ()
          | Some a \<Rightarrow> assert_that (env_aggregate_id env = a)
              (label @ ''['' @ show_nat i @ ''] aggregate_id must match store-assigned id''))
        (\<lambda>_. check_contiguous label aid (Suc i) envs))"

text \<open>The append loops: one single-event append per index, each at the last sequence.\<close>

fun append_loop ::
  "('s, 'e) event_store_ops \<Rightarrow> aggregate_id \<Rightarrow> (nat \<Rightarrow> 'e) \<Rightarrow> nat list \<Rightarrow> nat
    \<Rightarrow> 'e event_envelope list \<Rightarrow> 's \<Rightarrow> ('e event_envelope list \<times> 's) checked"
where
  "append_loop ops aid make_event [] last_seq acc s = Ok (acc, s)"
| "append_loop ops aid make_event (i # is) last_seq acc s =
    (case es_append ops aid last_seq [make_event i] CorrelationContext_none s of
      (Inl _, _) \<Rightarrow> Err ''append with correct expected_sequence must succeed''
    | (Inr appended, s') \<Rightarrow>
        and_then (assert_that (length appended = 1) ''append must return one envelope'')
          (\<lambda>_. append_loop ops aid make_event is (env_sequence (hd appended)) (acc @ appended) s'))"

text \<open>Scenario 6 also checks each appended sequence as it arrives.\<close>

fun monotone_loop ::
  "('s, 'e) event_store_ops \<Rightarrow> aggregate_id \<Rightarrow> (nat \<Rightarrow> 'e) \<Rightarrow> nat \<Rightarrow> nat list \<Rightarrow> nat \<Rightarrow> 's \<Rightarrow> 's checked"
where
  "monotone_loop ops aid make_event offset [] last_seq s = Ok s"
| "monotone_loop ops aid make_event offset (i # is) last_seq s =
    (case es_append ops aid last_seq [make_event i] CorrelationContext_none s of
      (Inl _, _) \<Rightarrow> Err ''append with correct expected_sequence must succeed''
    | (Inr appended, s') \<Rightarrow>
        and_then (assert_that (length appended = 1) ''append returns one envelope per event'')
          (\<lambda>_. and_then (assert_that (env_sequence (hd appended) = offset + 2)
              (''appended['' @ show_nat offset @ ''] sequence must be contiguous''))
            (\<lambda>_. monotone_loop ops aid make_event (Suc offset) is (env_sequence (hd appended)) s')))"

definition scenario_create_load_roundtrip ::
  "('s, 'e) event_store_ops \<Rightarrow> 's \<Rightarrow> (nat \<Rightarrow> 'e) \<Rightarrow> unit checked" where
  "scenario_create_load_roundtrip ops s make_event =
    (case es_create ops [make_event 0] CorrelationContext_none s of
      (Inl _, _) \<Rightarrow> Err ''create with non-empty events must succeed''
    | (Inr (aid, created), s1) \<Rightarrow>
      and_then (assert_that (length created = 1) ''create must return one envelope per supplied event'')
      (\<lambda>_. case last_opt created of
        None \<Rightarrow> Err ''create returns one envelope''
      | Some l \<Rightarrow>
        and_then (append_loop ops aid make_event [1..<3] (env_sequence l) created s1) (\<lambda>(all_envs, s2).
        and_then (assert_that (length all_envs = 3) ''create+2 appends must produce 3 envelopes'') (\<lambda>_.
        and_then (check_contiguous ''envelope'' (Some aid) 0 all_envs) (\<lambda>_.
        case es_load ops aid s2 of
          Inl _ \<Rightarrow> Err ''load after create must succeed''
        | Inr loaded \<Rightarrow>
          and_then (assert_that (length loaded = 3) ''load must return the full stream just created'')
          (\<lambda>_. check_contiguous ''loaded envelope'' None 0 loaded))))))"

definition scenario_stale_expected_sequence ::
  "('s, 'e) event_store_ops \<Rightarrow> 's \<Rightarrow> (nat \<Rightarrow> 'e) \<Rightarrow> unit checked" where
  "scenario_stale_expected_sequence ops s make_event =
    (case es_create ops [make_event 0] CorrelationContext_none s of
      (Inl _, _) \<Rightarrow> Err ''create must succeed''
    | (Inr (aid, created), s1) \<Rightarrow>
      (case last_opt created of
        None \<Rightarrow> Err ''create returns one envelope''
      | Some l \<Rightarrow>
        (case non_zero_u64 (saturating_add_u64 (env_sequence l) 99) of
          None \<Rightarrow> Err ''non-zero by add''
        | Some stale \<Rightarrow>
          (case fst (es_append ops aid stale [make_event 1] CorrelationContext_none s1) of
            Inr _ \<Rightarrow> Err ''stale expected_sequence must reject; got Ok''
          | Inl err \<Rightarrow>
            (case err of
              ConcurrencyConflict a e n \<Rightarrow>
                and_then (assert_that (a = aid) ''ConcurrencyConflict aggregate_id must match'')
                (\<lambda>_. and_then (assert_that (e = stale)
                    ''ConcurrencyConflict expected_sequence must echo the input'')
                (\<lambda>_. assert_that (n = env_sequence l)
                    ''ConcurrencyConflict actual_sequence must reflect store state''))
            | _ \<Rightarrow> Err ''expected StoreError::ConcurrencyConflict'')))))"

definition scenario_load_unknown_returns_empty ::
  "('s, 'e) event_store_ops \<Rightarrow> 's \<Rightarrow> (nat \<Rightarrow> 'e) \<Rightarrow> unit checked" where
  "scenario_load_unknown_returns_empty ops s make_event =
    (case es_load ops (AggregateId_new 987654321) s of
      Inl _ \<Rightarrow> Err ''load of unknown aggregate must return Ok(vec![]), not error''
    | Inr loaded \<Rightarrow> assert_that (loaded = []) ''load of unknown aggregate must return empty Vec'')"

definition is_infrastructure :: "store_error \<Rightarrow> bool" where
  "is_infrastructure e = (case e of Infrastructure _ \<Rightarrow> True | _ \<Rightarrow> False)"

definition scenario_empty_create_is_infrastructure ::
  "('s, 'e) event_store_ops \<Rightarrow> 's \<Rightarrow> (nat \<Rightarrow> 'e) \<Rightarrow> unit checked" where
  "scenario_empty_create_is_infrastructure ops s make_event =
    (case fst (es_create ops [] CorrelationContext_none s) of
      Inr _ \<Rightarrow> Err ''create with empty events must fail; got Ok''
    | Inl err \<Rightarrow> assert_that (is_infrastructure err)
        ''empty-events create must return StoreError::Infrastructure'')"

definition scenario_append_to_phantom_is_infrastructure ::
  "('s, 'e) event_store_ops \<Rightarrow> 's \<Rightarrow> (nat \<Rightarrow> 'e) \<Rightarrow> unit checked" where
  "scenario_append_to_phantom_is_infrastructure ops s make_event =
    (case fst (es_append ops (AggregateId_new 42) 1 [make_event 0] CorrelationContext_none s) of
      Inr _ \<Rightarrow> Err ''append to never-created aggregate must fail; got Ok''
    | Inl err \<Rightarrow> assert_that (is_infrastructure err)
        ''append-to-phantom must return StoreError::Infrastructure'')"

definition scenario_create_then_append_is_monotone ::
  "('s, 'e) event_store_ops \<Rightarrow> 's \<Rightarrow> (nat \<Rightarrow> 'e) \<Rightarrow> unit checked" where
  "scenario_create_then_append_is_monotone ops s make_event =
    (case es_create ops [make_event 0] CorrelationContext_none s of
      (Inl _, _) \<Rightarrow> Err ''create must succeed''
    | (Inr (aid, created), s1) \<Rightarrow>
      (case last_opt created of
        None \<Rightarrow> Err ''one envelope''
      | Some l \<Rightarrow>
        and_then (assert_that (env_sequence l = 1) ''after create of 1 event, last sequence must be 1'')
        (\<lambda>_. and_then (monotone_loop ops aid make_event 0 [1..<4] (env_sequence l) s1) (\<lambda>s2.
        case es_load ops aid s2 of
          Inl _ \<Rightarrow> Err ''load after append must succeed''
        | Inr full \<Rightarrow>
          and_then (assert_that (length full = 4) ''stream after create+3 appends must contain all 4 events'')
          (\<lambda>_. check_contiguous ''full stream envelope'' (Some aid) 0 full)))))"

definition assert_event_store_conformance ::
  "('s, 'e) event_store_ops \<Rightarrow> (nat \<Rightarrow> 's) \<Rightarrow> (nat \<Rightarrow> 'e) \<Rightarrow> unit checked" where
  "assert_event_store_conformance ops make_store make_event =
    and_then (scenario_create_load_roundtrip ops (make_store 0) make_event) (\<lambda>_.
    and_then (scenario_stale_expected_sequence ops (make_store 1) make_event) (\<lambda>_.
    and_then (scenario_load_unknown_returns_empty ops (make_store 2) make_event) (\<lambda>_.
    and_then (scenario_empty_create_is_infrastructure ops (make_store 3) make_event) (\<lambda>_.
    and_then (scenario_append_to_phantom_is_infrastructure ops (make_store 4) make_event) (\<lambda>_.
    scenario_create_then_append_is_monotone ops (make_store 5) make_event)))))"

definition assert_aggregate_conformance ::
  "'a \<Rightarrow> ('e \<Rightarrow> 'a \<Rightarrow> 'a) \<Rightarrow> 'e list \<Rightarrow> ('a \<Rightarrow> bool) \<Rightarrow> unit checked" where
  "assert_aggregate_conformance dflt apply_event events probe =
    and_then (assert_that (events \<noteq> []) ''assert_aggregate_conformance requires one event'') (\<lambda>_.
    and_then (assert_that (\<not> probe dflt) ''A::default() must NOT satisfy the caller-supplied probe'') (\<lambda>_.
    and_then (assert_that (probe (fold apply_event events dflt))
        ''after applying all events, A must satisfy probe'') (\<lambda>_.
    assert_that (probe (fold apply_event events dflt)) ''replay determinism violated'')))"

text \<open>The append loop of the projection harness does not check the number of envelopes.\<close>

fun projection_append_loop ::
  "('s, 'e) event_store_ops \<Rightarrow> aggregate_id \<Rightarrow> (nat \<Rightarrow> 'e) \<Rightarrow> nat list \<Rightarrow> nat \<Rightarrow> 's \<Rightarrow> 's checked"
where
  "projection_append_loop ops aid make_event [] last_seq s = Ok s"
| "projection_append_loop ops aid make_event (i # is) last_seq s =
    (case es_append ops aid last_seq [make_event i] CorrelationContext_none s of
      (Inl _, _) \<Rightarrow> Err ''append with correct expected_sequence must succeed''
    | (Inr appended, s') \<Rightarrow>
        (case last_opt appended of
          None \<Rightarrow> Err ''one envelope''
        | Some l \<Rightarrow> projection_append_loop ops aid make_event is (env_sequence l) s'))"

definition assert_projection_conformance ::
  "('s, 'e) event_store_ops \<Rightarrow> 's \<Rightarrow> (nat \<Rightarrow> 'e) \<Rightarrow> 'p \<Rightarrow> ('e event_envelope \<Rightarrow> 'p \<Rightarrow> 'p)
    \<Rightarrow> ('p \<Rightarrow> 'p \<Rightarrow> bool) \<Rightarrow> unit checked" where
  "assert_projection_conformance ops s make_event dflt apply_env compare =
    (case es_create ops [make_event 0] CorrelationContext_none s of
      (Inl _, _) \<Rightarrow> Err ''create must succeed''
    | (Inr (aid, created), s1) \<Rightarrow>
      (case last_opt created of
        None \<Rightarrow> Err ''one envelope''
      | Some l \<Rightarrow>
        and_then (projection_append_loop ops aid make_event [1..<3] (env_sequence l) s1) (\<lambda>s2.
        case es_load ops aid s2 of
          Inl _ \<Rightarrow> Err ''load after create must succeed for replay''
        | Inr envs \<Rightarrow>
          and_then (assert_that (length envs = 3) ''loaded stream must reflect created events'') (\<lambda>_.
          let p1 = fold apply_env envs dflt; p2 = fold apply_env envs dflt;
              p3 = fold apply_env envs dflt in
          and_then (assert_that (compare p1 p2) ''replay-equivalence violated'') (\<lambda>_.
          assert_that (compare p1 p3) ''projection apply must be deterministic over identical input'')))))"

section \<open>A store that meets the contract passes\<close>

lemma check_contiguous_valid:
  assumes "valid_stream a (before @ es)" "aid = None \<or> aid = Some a"
  shows "check_contiguous label aid (length before) es = Ok ()"
  using assms(1)
proof (induction es arbitrary: before)
  case (Cons env es)
  have "env_sequence env = Suc (length before)"
    using valid_stream_seq [OF Cons.prems, of "length before"] by simp
  moreover have "env_aggregate_id env = a" using Cons.prems by (simp add: valid_stream_def)
  ultimately show ?case
    using Cons.prems Cons.IH [of "before @ [env]"] assms(2) by auto
qed simp

context responsive_event_store
begin

lemma create_single:
  assumes "inv s" "room s (Suc n)"
  shows "\<exists>i env s'. es_create ops [ev] ctx s = (Inr (i, [env]), s') \<and> inv s' \<and> room s' n
    \<and> stream s' i = [env] \<and> env_sequence env = 1"
proof -
  obtain i envs s' where c: "es_create ops [ev] ctx s = (Inr (i, envs), s')" "room s' n"
    using create_one [OF assms] by blast
  with create_ok [OF assms(1) c(1)] create_inv [OF assms(1) c(1)] create_ok_last [OF assms(1) c(1)]
  show ?thesis by (auto dest!: records_single)
qed

lemma append_single:
  assumes "inv s" "room s (Suc n)" "stream s i \<noteq> []"
  shows "\<exists>env s'. es_append ops i (length (stream s i)) [ev] ctx s = (Inr [env], s') \<and> inv s'
    \<and> room s' n \<and> env_sequence env = Suc (length (stream s i))
    \<and> stream s' i = stream s i @ [env]"
proof -
  obtain envs s' where a: "es_append ops i (length (stream s i)) [ev] ctx s = (Inr envs, s')"
      "room s' n"
    using append_one [OF assms] by blast
  have "[ev] \<noteq> []" by simp
  from append_ok [OF assms(1) this a(1)] append_inv [OF assms(1) a(1)]
    append_ok_last [OF assms(1) this a(1)] a
  show ?thesis by (auto dest!: records_single)
qed

lemma append_loop_ok:
  assumes "inv s" "room s (length is + n)" "stream s i = acc" "acc \<noteq> []"
  shows "\<exists>acc' s'. append_loop ops i make_event is (length acc) acc s = Ok (acc', s') \<and> inv s'
    \<and> stream s' i = acc' \<and> length acc' = length acc + length is"
  using assms
proof (induction "is" arbitrary: s acc)
  case (Cons k ks)
  obtain env s' where step: "es_append ops i (length acc) [make_event k] CorrelationContext_none s
      = (Inr [env], s')" "inv s'" "room s' (length ks + n)" "env_sequence env = Suc (length acc)"
      "stream s' i = acc @ [env]"
    using append_single [OF Cons.prems(1), of "length ks + n" i "make_event k" CorrelationContext_none] Cons.prems
    by auto
  then show ?case
    using Cons.IH [of s' "acc @ [env]"] by auto
qed simp

lemma monotone_loop_ok:
  assumes "inv s" "room s (length is + n)" "length (stream s i) = Suc offset"
  shows "\<exists>s'. monotone_loop ops i make_event offset is (Suc offset) s = Ok s' \<and> inv s'
    \<and> length (stream s' i) = Suc offset + length is"
  using assms
proof (induction "is" arbitrary: s offset)
  case (Cons k ks)
  have ne: "stream s i \<noteq> []" using Cons.prems(3) by auto
  obtain env s' where step: "es_append ops i (Suc offset) [make_event k] CorrelationContext_none s
      = (Inr [env], s')" "inv s'" "room s' (length ks + n)" "env_sequence env = Suc (Suc offset)"
      "stream s' i = stream s i @ [env]"
    using append_single [OF Cons.prems(1) _ ne, of "length ks + n" "make_event k" CorrelationContext_none] Cons.prems
    by auto
  then show ?case
    using Cons.IH [of s' "Suc offset"] Cons.prems by auto
qed simp

lemma projection_append_loop_ok:
  assumes "inv s" "room s (length is + n)" "stream s i \<noteq> []"
  shows "\<exists>s'. projection_append_loop ops i make_event is (length (stream s i)) s = Ok s' \<and> inv s'
    \<and> length (stream s' i) = length (stream s i) + length is"
  using assms
proof (induction "is" arbitrary: s)
  case (Cons k ks)
  obtain env s' where step: "es_append ops i (length (stream s i)) [make_event k]
        CorrelationContext_none s = (Inr [env], s')" "inv s'" "room s' (length ks + n)"
      "env_sequence env = Suc (length (stream s i))" "stream s' i = stream s i @ [env]"
    using append_single [OF Cons.prems(1) _ Cons.prems(3), of "length ks + n" "make_event k" CorrelationContext_none]
      Cons.prems by auto
  then show ?case
    using Cons.IH [of s'] by auto
qed simp

lemma roundtrip_passes:
  assumes "inv s" "room s 3"
  shows "scenario_create_load_roundtrip ops s make_event = Ok ()"
proof -
  obtain i env s1 where c: "es_create ops [make_event 0] CorrelationContext_none s
      = (Inr (i, [env]), s1)" "inv s1" "room s1 2" "stream s1 i = [env]" "env_sequence env = 1"
    using create_single [OF assms(1), of 2 "make_event 0" CorrelationContext_none] assms(2) by (auto simp: numeral_3_eq_3)
  obtain all_envs s2 where l: "append_loop ops i make_event [1..<3] 1 [env] s1 = Ok (all_envs, s2)"
      "inv s2" "stream s2 i = all_envs" "length all_envs = 3"
    using append_loop_ok [of s1 "[1..<3]" 0 i "[env]" make_event] c by auto
  have "valid_stream i all_envs" using stream_valid [OF l(2), of i] l(3) by simp
  then have "check_contiguous lbl aid 0 all_envs = Ok ()" if "aid = None \<or> aid = Some i" for lbl aid
    using check_contiguous_valid [of i "[]" all_envs aid lbl] that by simp
  then show ?thesis
    using c l load_total [OF l(2), of i] by (simp add: scenario_create_load_roundtrip_def)
qed

lemma stale_passes:
  assumes "inv s" "room s 3"
  shows "scenario_stale_expected_sequence ops s make_event = Ok ()"
proof -
  obtain i env s1 where c: "es_create ops [make_event 0] CorrelationContext_none s
      = (Inr (i, [env]), s1)" "inv s1" "stream s1 i = [env]" "env_sequence env = 1"
    using create_single [OF assms(1), of 2 "make_event 0" CorrelationContext_none] assms(2) by (auto simp: numeral_3_eq_3)
  obtain s2 where "es_append ops i 100 [make_event 1] CorrelationContext_none s1
      = (Inl (ConcurrencyConflict i 100 1), s2)"
    using append_conflict [OF c(2), of i "[make_event 1]" 100 CorrelationContext_none] c(3) by auto
  with c show ?thesis
    by (simp add: scenario_stale_expected_sequence_def saturating_add_u64_def u64_max_def
        non_zero_u64_def)
qed

lemma monotone_passes:
  assumes "inv s" "room s 4"
  shows "scenario_create_then_append_is_monotone ops s make_event = Ok ()"
proof -
  obtain i env s1 where c: "es_create ops [make_event 0] CorrelationContext_none s
      = (Inr (i, [env]), s1)" "inv s1" "room s1 3" "stream s1 i = [env]" "env_sequence env = 1"
    using create_single [OF assms(1), of 3 "make_event 0" CorrelationContext_none] assms(2) by (auto simp: eval_nat_numeral)
  obtain s2 where l: "monotone_loop ops i make_event 0 [1..<4] 1 s1 = Ok s2" "inv s2"
      "length (stream s2 i) = 4"
    using monotone_loop_ok [of s1 "[1..<4]" 0 i 0 make_event] c by auto
  have "check_contiguous lbl (Some i) 0 (stream s2 i) = Ok ()" for lbl
    using check_contiguous_valid [of i "[]" "stream s2 i" "Some i" lbl] stream_valid [OF l(2), of i]
    by simp
  then show ?thesis
    using c l load_total [OF l(2), of i]
    by (simp add: scenario_create_then_append_is_monotone_def)
qed

lemma fresh_passes:
  assumes "inv s" "\<And>i. stream s i = []"
  shows "scenario_load_unknown_returns_empty ops s make_event = Ok ()"
    "scenario_empty_create_is_infrastructure ops s make_event = Ok ()"
    "scenario_append_to_phantom_is_infrastructure ops s make_event = Ok ()"
proof -
  obtain m s' where "es_create ops [] CorrelationContext_none s = (Inl (Infrastructure m), s')"
    using create_empty [OF assms(1)] by blast
  moreover obtain m2 s2 where "es_append ops (AggregateId_new 42) 1 [make_event 0]
      CorrelationContext_none s = (Inl (Infrastructure m2), s2)"
    using append_missing [OF assms(1), of "AggregateId_new 42" "[make_event 0]" 1 CorrelationContext_none] assms(2) by auto
  ultimately show "scenario_load_unknown_returns_empty ops s make_event = Ok ()"
    "scenario_empty_create_is_infrastructure ops s make_event = Ok ()"
    "scenario_append_to_phantom_is_infrastructure ops s make_event = Ok ()"
    using assms load_total [OF assms(1)]
    by (simp_all add: scenario_load_unknown_returns_empty_def is_infrastructure_def
        scenario_empty_create_is_infrastructure_def scenario_append_to_phantom_is_infrastructure_def)
qed

theorem store_conforms:
  assumes "\<And>k. inv (make_store k)" "\<And>k i. stream (make_store k) i = []"
    "\<And>k n. n \<le> 4 \<Longrightarrow> room (make_store k) n"
  shows "assert_event_store_conformance ops make_store make_event = Ok ()"
  using assms by (simp add: assert_event_store_conformance_def roundtrip_passes stale_passes
      fresh_passes monotone_passes)

theorem projection_conforms:
  assumes "inv s" "room s 3" "\<And>p. compare p p"
  shows "assert_projection_conformance ops s make_event dflt apply_env compare = Ok ()"
proof -
  obtain i env s1 where c: "es_create ops [make_event 0] CorrelationContext_none s
      = (Inr (i, [env]), s1)" "inv s1" "room s1 2" "stream s1 i = [env]" "env_sequence env = 1"
    using create_single [OF assms(1), of 2 "make_event 0" CorrelationContext_none] assms(2) by (auto simp: numeral_3_eq_3)
  obtain s2 where l: "projection_append_loop ops i make_event [1..<3] 1 s1 = Ok s2"
      "inv s2" "length (stream s2 i) = 3"
    using projection_append_loop_ok [of s1 "[1..<3]" 0 i make_event] c by auto
  then show ?thesis
    using c assms(3) load_total [OF l(2), of i]
    by (simp add: assert_projection_conformance_def Let_def)
qed

end

text \<open>
  C19. The in-memory store passes the whole conformance harness, whatever events the harness
  is given: no scenario panics. The scenarios run on fresh stores that share the sources of
  identifiers and time.
\<close>

theorem mem_store_conforms:
  assumes "fresh_uuids v7"
  shows "assert_event_store_conformance (mem_ops v7 ts) (\<lambda>k. mem_start (d k) (c k)) make_event = Ok ()"
  using assms
  by (intro mem.store_conforms mem_inv_start mem_stream_start)
    (auto simp: mem_room_def mem_start_def InMemoryEventStore_new_def mem_stream_def stream_of_def
      u64_max_def)

theorem mem_store_conforms_witness:
  "assert_event_store_conformance (mem_ops Suc (\<lambda>_. 0)) (\<lambda>k. mem_start (10 * k) 0) (\<lambda>i. i) = Ok ()"
  using mem_store_conforms [OF fresh_uuids_Suc, of "\<lambda>_. 0" "\<lambda>k. 10 * k" "\<lambda>_. 0" "\<lambda>i. i"] .

end
