(* ===== verification/Event_History.thy ===== *)
theory Event_History
  imports Mem_Store
begin

text \<open>
  The history capability of the in-memory store (\<open>EventHistoryEventStore\<close> and
  \<open>ListableEventStore\<close> in \<open>cherry-pit-core/src/testing.rs\<close>): prefix replay, listing, and the
  walk along causation ids. The walk is a loop with no bound of its own, so it is a
  \<open>partial_function\<close> whose value \<open>None\<close> means that it never returns; the theorems state when
  it returns and that it does not return on a cyclic history.
\<close>

partial_function (option) causal_walk ::
  "'e event_envelope list \<Rightarrow> uuid option \<Rightarrow> uuid option \<Rightarrow> 'e event_envelope list
    \<Rightarrow> 'e event_envelope list option"
where
  "causal_walk hist target next chain =
    (case next of
      None \<Rightarrow> Some chain
    | Some current \<Rightarrow>
      (case List.find (\<lambda>env. env_event_id env = current \<and>
          (case target of None \<Rightarrow> True | Some c \<Rightarrow> env_correlation_id env = Some c)) hist of
        None \<Rightarrow> Some chain
      | Some env \<Rightarrow> causal_walk hist target (env_causation_id env) (chain @ [env])))"

definition causal_chain ::
  "aggregate_id \<Rightarrow> uuid \<Rightarrow> 'e mem_world \<Rightarrow> (store_error, 'e event_envelope list) result option" where
  "causal_chain aid eid w =
    (case mem_load aid w of
      Inl e \<Rightarrow> Some (Err e)
    | Inr hist \<Rightarrow>
        let target = Option.bind (List.find (\<lambda>env. env_event_id env = eid) hist) env_correlation_id
        in map_option (\<lambda>chain. Ok (rev chain)) (causal_walk hist target (Some eid) []))"

section \<open>Prefix replay and listing\<close>

text \<open>
  \<open>replay_until\<close> returns the first \<open>limit\<close> events of the history, so replaying up to the
  last sequence number is the whole history.
\<close>

theorem replay_until_prefix:
  assumes "mem_inv v7 w"
  shows "replay_until i limit w = Ok (take limit (mem_stream w i))"
proof -
  have "env_sequence (mem_stream w i ! k) \<le> limit \<longleftrightarrow> k < limit"
    if "k < length (mem_stream w i)" for k
    using valid_stream_seq [OF mem_inv_stream(1) [OF assms] that] by auto
  then have "filter (\<lambda>env. env_sequence env \<le> limit) (mem_stream w i) = take limit (mem_stream w i)"
    by (rule filter_index_take)
  then show ?thesis by (simp add: replay_until_def mem_load_eq [OF assms])
qed

theorem replay_until_prefix_witness:
  "replay_until (AggregateId 1) 1 one_event_store = Ok (mem_stream one_event_store (AggregateId 1))"
  using replay_until_prefix [OF one_event_store_inv, of "AggregateId 1" 1] one_event_store_length
  by simp

text \<open>
  \<open>list_aggregates\<close> returns every aggregate that has a history, once each and nothing else.
\<close>

theorem list_aggregates_exact:
  assumes "mem_inv v7 w"
  shows "\<exists>ids. list_aggregates w = Ok ids \<and> distinct ids
    \<and> set ids = {i. history i w \<noteq> Ok []}"
proof (intro exI conjI)
  show "list_aggregates w = Ok (hm_keys (streams (mem_state w)))"
    by (simp add: list_aggregates_def)
  show "distinct (hm_keys (streams (mem_state w)))"
    using assms by (simp add: mem_inv_def hm_wf_def hm_keys_def)
  show "set (hm_keys (streams (mem_state w))) = {i. history i w \<noteq> Ok []}"
    using mem_inv_get [OF assms] mem_load_eq [OF assms]
    by (auto simp: hm_keys_get history_def)
qed

theorem list_aggregates_exact_witness:
  "\<exists>ids. list_aggregates one_event_store = Ok ids \<and> set ids = {i. history i one_event_store \<noteq> Ok []}"
  using list_aggregates_exact [OF one_event_store_inv] by blast

section \<open>Causal chains\<close>

text \<open>
  A causation id names an event that happened before. \<open>backward\<close> says so for one stream: a
  causation id that is the identifier of an event of the stream names an earlier one.
\<close>

definition backward :: "'e event_envelope list \<Rightarrow> bool" where
  "backward es \<longleftrightarrow> (\<forall>i < length es. \<forall>j < length es.
    env_causation_id (es ! i) = Some (env_event_id (es ! j)) \<longrightarrow> j < i)"

definition correlated :: "uuid option \<Rightarrow> 'e event_envelope \<Rightarrow> bool" where
  "correlated target env \<longleftrightarrow> (case target of None \<Rightarrow> True | Some c \<Rightarrow> env_correlation_id env = Some c)"

text \<open>
  A chain from a root cause to an event: each envelope is caused by the one before it, and
  the first one has no cause recorded in the (correlated part of the) stream.
\<close>

fun chain_links :: "'e event_envelope list \<Rightarrow> bool" where
  "chain_links (a # b # es) \<longleftrightarrow> env_causation_id b = Some (env_event_id a) \<and> chain_links (b # es)"
| "chain_links _ \<longleftrightarrow> True"

definition rooted :: "'e event_envelope list \<Rightarrow> uuid option \<Rightarrow> 'e event_envelope list \<Rightarrow> bool" where
  "rooted hist target chain \<longleftrightarrow> (\<forall>env \<in> set hist. correlated target env \<longrightarrow>
    chain \<noteq> [] \<longrightarrow> env_causation_id (hd chain) \<noteq> Some (env_event_id env))"

lemma causal_walk_find:
  "causal_walk hist target (Some current) chain =
    (case List.find (\<lambda>env. env_event_id env = current \<and> correlated target env) hist of
      None \<Rightarrow> Some chain
    | Some env \<Rightarrow> causal_walk hist target (env_causation_id env) (chain @ [env]))"
  by (subst causal_walk.simps) (simp add: correlated_def)

lemma causal_walk_None: "causal_walk hist target None chain = Some chain"
  by (subst causal_walk.simps) simp

lemma chain_links_Cons:
  "chain_links es \<Longrightarrow> (es \<noteq> [] \<Longrightarrow> env_causation_id (hd es) = Some (env_event_id env)) \<Longrightarrow>
    chain_links (env # es)"
  by (cases es) auto

lemma find_by_id:
  assumes "distinct (map env_event_id hist)" "k < length hist" "P (hist ! k)"
  shows "List.find (\<lambda>env. env_event_id env = env_event_id (hist ! k) \<and> P env) hist = Some (hist ! k)"
proof -
  have "env_event_id (hist ! j) \<noteq> env_event_id (hist ! k)" if "j < k" for j
    using nth_eq_iff_index_eq [OF assms(1), of j k] that assms(2) by simp
  with assms show ?thesis by (auto simp: find_Some_iff)
qed

lemma causal_walk_returns:
  assumes "distinct (map env_event_id hist)" "backward hist"
    and "k < length hist" "correlated target (hist ! k)"
    and "chain_links (rev chain)" "set chain \<subseteq> set hist"
    and "chain \<noteq> [] \<Longrightarrow> env_causation_id (last chain) = Some (env_event_id (hist ! k))"
  shows "\<exists>more. causal_walk hist target (Some (env_event_id (hist ! k))) chain
      = Some (chain @ hist ! k # more)
    \<and> chain_links (rev (chain @ hist ! k # more)) \<and> set (hist ! k # more) \<subseteq> {e \<in> set hist. correlated target e}
    \<and> rooted hist target (rev (chain @ hist ! k # more))"
  using assms(3-)
proof (induction k arbitrary: chain rule: less_induct)
  case (less k)
  let ?e = "hist ! k"
  have "List.find (\<lambda>env. env_event_id env = env_event_id ?e \<and> correlated target env) hist = Some ?e"
    by (intro find_by_id assms(1) less.prems(1,2))
  then have step: "causal_walk hist target (Some (env_event_id ?e)) chain
      = causal_walk hist target (env_causation_id ?e) (chain @ [?e])"
    by (simp add: causal_walk_find)
  have links: "chain_links (rev (chain @ [?e]))"
    using less.prems(3,5) by (cases "chain = []") (simp_all add: chain_links_Cons hd_rev)
  show ?case
  proof (cases "\<exists>j < length hist. env_causation_id ?e = Some (env_event_id (hist ! j))
      \<and> correlated target (hist ! j)")
    case True
    then obtain j where j: "j < length hist" "env_causation_id ?e = Some (env_event_id (hist ! j))"
      "correlated target (hist ! j)" by blast
    then have "j < k" using assms(2) less.prems(1) by (auto simp: backward_def)
    from less.IH [OF this j(1,3) links] less.prems(1,4) j(2) obtain more where
      "causal_walk hist target (Some (env_event_id (hist ! j))) (chain @ [?e])
        = Some ((chain @ [?e]) @ hist ! j # more)"
      "chain_links (rev ((chain @ [?e]) @ hist ! j # more))"
      "set (hist ! j # more) \<subseteq> {e \<in> set hist. correlated target e}"
      "rooted hist target (rev ((chain @ [?e]) @ hist ! j # more))"
      by auto
    then show ?thesis
      using step j(2) less.prems(1,2) by (intro exI [of _ "hist ! j # more"]) auto
  next
    case False
    then have none: "\<not> (env_event_id env = c \<and> correlated target env)"
      if "env_causation_id ?e = Some c" "env \<in> set hist" for env c
      using that by (metis in_set_conv_nth)
    have "causal_walk hist target (env_causation_id ?e) (chain @ [?e]) = Some (chain @ [?e])"
    proof (cases "env_causation_id ?e")
      case None
      then show ?thesis by (simp add: causal_walk_None)
    next
      case (Some c)
      then have "List.find (\<lambda>env. env_event_id env = c \<and> correlated target env) hist = None"
        using none by (simp add: find_None_iff)
      with Some show ?thesis by (simp add: causal_walk_find)
    qed
    moreover have "rooted hist target (rev (chain @ [?e]))"
      using none by (auto simp: rooted_def)
    ultimately show ?thesis
      using step links less.prems(1,2) by (intro exI [of _ "[]"]) simp
  qed
qed

text \<open>
  C36. For an event of a recorded history whose causation ids point backwards, \<open>causal_chain\<close>
  returns: its result runs over stored envelopes from a root cause to the requested event,
  each one caused by the one before it, all carrying the requested event's correlation id if
  it has one, and no such recorded cause of the first element is left out. For an unknown
  event it returns the empty chain.
\<close>

theorem causal_chain_returns:
  assumes "mem_inv v7 w" "backward (mem_stream w i)"
  shows "if eid \<in> env_event_id ` set (mem_stream w i)
    then \<exists>chain. causal_chain i eid w = Some (Ok chain) \<and> chain \<noteq> []
      \<and> env_event_id (last chain) = eid
      \<and> set chain \<subseteq> {e \<in> set (mem_stream w i). correlated (env_correlation_id (last chain)) e}
      \<and> chain_links chain \<and> rooted (mem_stream w i) (env_correlation_id (last chain)) chain
    else causal_chain i eid w = Some (Ok [])"
proof -
  let ?h = "mem_stream w i"
  let ?t = "Option.bind (List.find (\<lambda>env. env_event_id env = eid) ?h) env_correlation_id"
  have dist: "distinct (map env_event_id ?h)"
    using mem_inv_stream(1) [OF assms(1)] by (simp add: valid_stream_def)
  have chain: "causal_chain i eid w =
      map_option (\<lambda>chain. Ok (rev chain)) (causal_walk ?h ?t (Some eid) [])"
    by (simp add: causal_chain_def mem_load_eq [OF assms(1)] Let_def)
  show ?thesis
  proof (cases "eid \<in> env_event_id ` set ?h")
    case True
    then obtain k where k: "k < length ?h" "env_event_id (?h ! k) = eid"
      by (metis imageE in_set_conv_nth)
    have "List.find (\<lambda>env. env_event_id env = eid) ?h = Some (?h ! k)"
      using find_by_id [OF dist k(1), of "\<lambda>_. True"] k(2) by simp
    then have t: "?t = env_correlation_id (?h ! k)" by simp
    then have "correlated ?t (?h ! k)" by (auto simp: correlated_def split: option.splits)
    from causal_walk_returns [OF dist assms(2) k(1) this, of "[]"] k(2) obtain more where more:
      "causal_walk ?h ?t (Some eid) [] = Some (?h ! k # more)"
      "chain_links (rev (?h ! k # more))" "set (?h ! k # more) \<subseteq> {e \<in> set ?h. correlated ?t e}"
      "rooted ?h ?t (rev (?h ! k # more))" by auto
    then have "causal_chain i eid w = Some (Ok (rev (?h ! k # more)))" by (simp add: chain)
    with True more(2-) k(2) show ?thesis
      unfolding t by (auto simp del: rev.simps intro!: exI [of _ "rev (?h ! k # more)"]
          simp: last_rev)
  next
    case False
    then have "List.find (\<lambda>env. env_event_id env = eid \<and> correlated ?t env) ?h = None"
      by (auto simp: find_None_iff)
    then have "causal_walk ?h ?t (Some eid) [] = Some []" by (simp add: causal_walk_find)
    with False show ?thesis by (simp add: chain)
  qed
qed

definition caused_store :: "bool mem_world" where
  "caused_store = mem_run Suc (\<lambda>_. 0) [CallCreate [True] CorrelationContext_none,
    CallAppend (AggregateId 1) 1 [False] \<lparr>correlation_id = None, causation_id = Some 1\<rparr>]
    (mem_start 0 0)"

lemma caused_store_inv: "mem_inv Suc caused_store"
  unfolding caused_store_def by (intro mem_run_inv mem_inv_start fresh_uuids_Suc)

lemma caused_store_backward:
  "backward (mem_stream caused_store (AggregateId 1))"
  "env_event_id ` set (mem_stream caused_store (AggregateId 1)) = {1, 2}"
  by (auto simp: backward_def caused_store_def mem_run_def mem_eval less_Suc_eq)

theorem causal_chain_returns_witness:
  "\<exists>chain. causal_chain (AggregateId 1) 2 caused_store = Some (Ok chain)
    \<and> env_event_id (last chain) = 2 \<and> chain_links chain"
  using causal_chain_returns [OF caused_store_inv caused_store_backward(1), of 2]
    caused_store_backward(2) by auto

lemma causal_walk_cycle:
  assumes cyc: "List.find (\<lambda>env. env_event_id env = eid \<and> correlated target env) hist = Some env"
    "env_causation_id env = Some eid"
  shows "causal_walk hist target (Some eid) chain = None"
proof (rule ccontr)
  assume "causal_walk hist target (Some eid) chain \<noteq> None"
  then obtain r where "causal_walk hist target (Some eid) chain = Some r" by blast
  then have "hist = hist \<longrightarrow> target = target \<longrightarrow> Some eid \<noteq> Some eid"
  proof (rule causal_walk.raw_induct
      [where P = "\<lambda>h t n c r. h = hist \<longrightarrow> t = target \<longrightarrow> n \<noteq> Some eid", rotated])
    fix walk :: "'a event_envelope list \<Rightarrow> uuid option \<Rightarrow> uuid option \<Rightarrow> 'a event_envelope list
      \<Rightarrow> 'a event_envelope list option" and h t n c r
    assume "\<And>h t n c r. walk h t n c = Some r \<Longrightarrow> h = hist \<longrightarrow> t = target \<longrightarrow> n \<noteq> Some eid"
      and "(case n of None \<Rightarrow> Some c | Some current \<Rightarrow>
        (case List.find (\<lambda>env. env_event_id env = current \<and>
          (case t of None \<Rightarrow> True | Some c \<Rightarrow> env_correlation_id env = Some c)) h of
          None \<Rightarrow> Some c | Some env \<Rightarrow> walk h t (env_causation_id env) (c @ [env]))) = Some r"
    then show "h = hist \<longrightarrow> t = target \<longrightarrow> n \<noteq> Some eid"
      using cyc unfolding correlated_def by (auto split: option.splits)
  qed
  then show False by simp
qed

text \<open>
  The walk has no guard against a causation id that names its own event: if the history
  holds such an event, asking for its causal chain never returns.
\<close>

theorem causal_chain_self_cause_diverges:
  assumes "mem_inv v7 w" "env \<in> set (mem_stream w i)"
    "env_causation_id env = Some (env_event_id env)"
  shows "causal_chain i (env_event_id env) w = None"
proof -
  let ?h = "mem_stream w i"
  let ?t = "Option.bind (List.find (\<lambda>e. env_event_id e = env_event_id env) ?h) env_correlation_id"
  have dist: "distinct (map env_event_id ?h)"
    using mem_inv_stream(1) [OF assms(1)] by (simp add: valid_stream_def)
  obtain k where k: "k < length ?h" "?h ! k = env" using assms(2) by (metis in_set_conv_nth)
  have "List.find (\<lambda>e. env_event_id e = env_event_id env) ?h = Some env"
    using find_by_id [OF dist k(1), of "\<lambda>_. True"] k(2) by simp
  then have "correlated ?t env" by (auto simp: correlated_def split: option.splits)
  with k have "List.find (\<lambda>e. env_event_id e = env_event_id env \<and> correlated ?t e) ?h = Some env"
    using find_by_id [OF dist k(1), of "correlated ?t"] by simp
  then have "causal_walk ?h ?t (Some (env_event_id env)) [] = None"
    using assms(3) by (rule causal_walk_cycle)
  then show ?thesis
    by (simp add: causal_chain_def mem_load_eq [OF assms(1)] Let_def)
qed

text \<open>The first identifier drawn is 1 here, so a caller that passes it as the cause makes a cycle.\<close>

definition cyclic_store :: "bool mem_world" where
  "cyclic_store = mem_run Suc (\<lambda>_. 0)
    [CallCreate [True] \<lparr>correlation_id = None, causation_id = Some 1\<rparr>] (mem_start 0 0)"

theorem causal_chain_self_cause_diverges_witness:
  "causal_chain (AggregateId 1) 1 cyclic_store = None"
proof -
  let ?env = "hd (mem_stream cyclic_store (AggregateId 1))"
  have inv: "mem_inv Suc cyclic_store"
    unfolding cyclic_store_def by (intro mem_run_inv mem_inv_start fresh_uuids_Suc)
  have "?env \<in> set (mem_stream cyclic_store (AggregateId 1))"
    "env_causation_id ?env = Some (env_event_id ?env)" "env_event_id ?env = 1"
    by (simp_all add: cyclic_store_def mem_run_def mem_eval)
  with causal_chain_self_cause_diverges [OF inv, of ?env "AggregateId 1"] show ?thesis by simp
qed

end
