(* ===== verification/Projection_Driver.thy ===== *)
theory Projection_Driver
  imports Mem_Store
begin

text \<open>
  The read side: \<open>cherry-pit-projection/src/lib.rs\<close> (error type, in-memory projection, driver),
  \<open>write_cell.rs\<close>, and the projection store fixture of \<open>cherry-pit-core/src/testing.rs\<close>. A
  projection type is its default value and its \<open>apply\<close> function, which are parameters, as
  they are in the trait.
\<close>

datatype projection_error =
    ProjIndeterminate boxed_error
  | ProjCorruptData boxed_error
  | ProjInfrastructure boxed_error
  | ProjStoreLocked
  | CheckpointRegression nat nat

fun ProjectionError_category :: "projection_error \<Rightarrow> error_category" where
  "ProjectionError_category (ProjIndeterminate _) = ReconciliationRequired"
| "ProjectionError_category (ProjCorruptData _) = Terminal"
| "ProjectionError_category (CheckpointRegression _ _) = Terminal"
| "ProjectionError_category (ProjInfrastructure _) = Retryable"
| "ProjectionError_category ProjStoreLocked = Retryable"

fun ProjectionError_fmt :: "(uuid \<Rightarrow> string) \<Rightarrow> projection_error \<Rightarrow> string" where
  "ProjectionError_fmt show_uuid (ProjIndeterminate e) =
    ''projection outcome indeterminate: '' @ boxed_fmt show_uuid e"
| "ProjectionError_fmt show_uuid (ProjCorruptData e) =
    ''projection corrupt data: '' @ boxed_fmt show_uuid e"
| "ProjectionError_fmt show_uuid (ProjInfrastructure e) =
    ''projection infrastructure error: '' @ boxed_fmt show_uuid e"
| "ProjectionError_fmt show_uuid ProjStoreLocked =
    ''projection store directory is locked by another writer (CHE-0043)''"
| "ProjectionError_fmt show_uuid (CheckpointRegression existing attempted) =
    ''checkpoint sequence regression: attempted '' @ show_nat attempted
      @ '' is lower than existing '' @ show_nat existing @ '' (CHE-0097)''"

text \<open>The driver: how a failed load is reported, and the fold over the loaded stream.\<close>

fun replay_load_error :: "store_error \<Rightarrow> projection_error" where
  "replay_load_error (Indeterminate b) = ProjIndeterminate (BoxStoreError (Indeterminate b))"
| "replay_load_error other = ProjInfrastructure (BoxStoreError other)"

definition replay_inner ::
  "('s, 'e) event_store_ops \<Rightarrow> 'p \<Rightarrow> ('e event_envelope \<Rightarrow> 'p \<Rightarrow> 'p) \<Rightarrow> aggregate_id \<Rightarrow> 's
    \<Rightarrow> (projection_error, 'p \<times> nat option) result" where
  "replay_inner ops dflt apply_env aid s =
    and_then (map_err replay_load_error (es_load ops aid s)) (\<lambda>es.
    and_then (map_err (\<lambda>e. ProjCorruptData (BoxEnvelopeError e)) (validate_stream aid es)) (\<lambda>_.
    Ok (fold apply_env es dflt, map_option env_sequence (last_opt es))))"

definition replay ::
  "('s, 'e) event_store_ops \<Rightarrow> 'p \<Rightarrow> ('e event_envelope \<Rightarrow> 'p \<Rightarrow> 'p) \<Rightarrow> aggregate_id \<Rightarrow> 's
    \<Rightarrow> (projection_error, 'p) result" where
  "replay ops dflt apply_env aid s =
    and_then (replay_inner ops dflt apply_env aid s) (\<lambda>(p, _). Ok p)"

text \<open>\<open>ProjectionDriverExt\<close>: one envelope at a time, and replay under another name.\<close>

definition apply_one :: "('e event_envelope \<Rightarrow> 'p \<Rightarrow> 'p) \<Rightarrow> 'p \<Rightarrow> 'e event_envelope \<Rightarrow> 'p" where
  "apply_one apply_env p env = apply_env env p"

definition replay_all ::
  "('s, 'e) event_store_ops \<Rightarrow> 'p \<Rightarrow> ('e event_envelope \<Rightarrow> 'p \<Rightarrow> 'p) \<Rightarrow> aggregate_id \<Rightarrow> 's
    \<Rightarrow> (projection_error, 'p) result" where
  "replay_all ops dflt apply_env aid s = replay ops dflt apply_env aid s"

record 'p in_memory_projection =
  projection :: 'p

definition InMemoryProjection_new :: "'p \<Rightarrow> 'p in_memory_projection" where
  "InMemoryProjection_new dflt = \<lparr>projection = dflt\<rparr>"

definition InMemoryProjection_replace :: "'p \<Rightarrow> 'p in_memory_projection \<Rightarrow> 'p in_memory_projection" where
  "InMemoryProjection_replace p c = c\<lparr>projection := p\<rparr>"

text \<open>\<open>WriteCell\<close>: each operation holds the lock, so it is one step on the protected value.\<close>

record 'p write_cell =
  inner :: 'p

definition WriteCell_new :: "'p \<Rightarrow> 'p write_cell" where
  "WriteCell_new dflt = \<lparr>inner = dflt\<rparr>"

definition WriteCell_apply :: "('e event_envelope \<Rightarrow> 'p \<Rightarrow> 'p) \<Rightarrow> 'e event_envelope \<Rightarrow> 'p write_cell \<Rightarrow> 'p write_cell" where
  "WriteCell_apply apply_env env c = c\<lparr>inner := apply_env env (inner c)\<rparr>"

definition WriteCell_replace :: "'p \<Rightarrow> 'p write_cell \<Rightarrow> 'p write_cell" where
  "WriteCell_replace p c = c\<lparr>inner := p\<rparr>"

definition WriteCell_snapshot :: "'p write_cell \<Rightarrow> 'p" where
  "WriteCell_snapshot c = inner c"

text \<open>\<open>InMemoryProjectionStore\<close>.\<close>

record 'p projection_store =
  projection_name :: string
  snapshots :: "(aggregate_id, 'p) hash_map"
  checkpoints :: "(aggregate_id, nat) hash_map"

definition InMemoryProjectionStore_new :: "string \<Rightarrow> 'p projection_store" where
  "InMemoryProjectionStore_new name = \<lparr>projection_name = name, snapshots = [], checkpoints = []\<rparr>"

definition load_snapshot :: "aggregate_id \<Rightarrow> 'p projection_store \<Rightarrow> 'p option" where
  "load_snapshot aid st = hm_get (snapshots st) aid"

definition load_checkpoint :: "aggregate_id \<Rightarrow> 'p projection_store \<Rightarrow> nat option" where
  "load_checkpoint aid st = hm_get (checkpoints st) aid"

definition persist :: "aggregate_id \<Rightarrow> 'p \<Rightarrow> nat \<Rightarrow> 'p projection_store \<Rightarrow> 'p projection_store" where
  "persist aid p last_sequence st = st\<lparr>snapshots := hm_insert aid p (snapshots st),
    checkpoints := hm_insert aid last_sequence (checkpoints st)\<rparr>"

definition delete :: "aggregate_id \<Rightarrow> 'p projection_store \<Rightarrow> 'p projection_store" where
  "delete aid st = st\<lparr>snapshots := hm_remove aid (snapshots st),
    checkpoints := hm_remove aid (checkpoints st)\<rparr>"

section \<open>Replay\<close>

context event_store
begin

lemma replay_inner_ok:
  assumes "inv s" "replay_inner ops dflt apply_env i s = Ok (p, last_seq)"
  shows "p = fold apply_env (stream s i) dflt"
    "last_seq = (if stream s i = [] then None else Some (length (stream s i)))"
proof -
  from assms(2) have load: "es_load ops i s = Ok (stream s i)"
    using load_stream [OF assms(1)] by (auto simp: replay_inner_def and_then_Ok_iff)
  with assms(2) have "p = fold apply_env (stream s i) dflt"
    "last_seq = map_option env_sequence (last_opt (stream s i))"
    by (auto simp: replay_inner_def and_then_Ok_iff)
  then show "p = fold apply_env (stream s i) dflt"
    "last_seq = (if stream s i = [] then None else Some (length (stream s i)))"
    using valid_stream_last_seq [OF stream_valid [OF assms(1), of i]]
    by (cases "stream s i"; simp)+
qed

text \<open>A load that succeeds is never rejected by the driver's own validation.\<close>

lemma replay_inner_total:
  assumes "inv s" "es_load ops i s = Ok es"
  shows "\<exists>r. replay_inner ops dflt apply_env i s = Ok r"
  using assms load_stream [OF assms] validate_stream_Ok_iff [OF stream_bound [OF assms(1)], of i i]
    stream_valid [OF assms(1), of i]
  by (simp add: replay_inner_def)

text \<open>Applying what a write returned to an up-to-date projection keeps it up to date.\<close>

lemma live_append:
  assumes "inv s" "es_append ops i n evs ctx s = (Inr envs, s')"
  shows "fold apply_env (stream s' i) dflt
    = fold apply_env envs (fold apply_env (stream s i) dflt)"
  using append_ok [OF assms(1) _ assms(2)] append_empty [of s i n ctx "Inr envs" s'] assms
  by (cases "evs = []") auto

end

lemma mem_replay:
  assumes "mem_inv v7 w"
  shows "replay (mem_ops v7 ts) dflt apply_env i w = Ok (fold apply_env (mem_stream w i) dflt)"
proof -
  obtain p l where r: "replay_inner (mem_ops v7 ts) dflt apply_env i w = Ok (p, l)"
    using mem.replay_inner_total [OF assms mem.load_total [OF assms], where dflt = dflt] by fastforce
  with mem.replay_inner_ok(1) [OF assms r] show ?thesis by (simp add: replay_def)
qed

text \<open>
  C14. Live updates and replay agree. On every reachable store, rebuilding a projection from
  its default and then appending events yields the same projection as rebuilding it before
  the append and applying the returned envelopes one by one.
\<close>

theorem live_projection_equals_replay:
  assumes "mem_inv v7 w" "mem_append v7 ts i n evs ctx w = (Inr envs, w')"
    and "replay (mem_ops v7 ts) dflt apply_env i w = Ok p"
  shows "replay (mem_ops v7 ts) dflt apply_env i w' = Ok (foldl (apply_one apply_env) p envs)"
proof -
  have call: "es_append (mem_ops v7 ts) i n evs ctx w = (Inr envs, w')"
    using assms(2) by (simp add: mem_ops_def)
  have "foldl (apply_one apply_env) p envs = fold apply_env envs p"
    by (simp add: foldl_conv_fold apply_one_def)
  with assms(3) show ?thesis
    unfolding mem_replay [OF assms(1)] mem_replay [OF mem.append_inv [OF assms(1) call]]
    by (auto simp: mem.live_append [OF assms(1) call])
qed

theorem live_projection_equals_replay_witness:
  "\<exists>envs w'. mem_append Suc (\<lambda>_. 0) (AggregateId 1) 1 [False] CorrelationContext_none one_event_store
      = (Inr envs, w')
    \<and> replay (mem_ops Suc (\<lambda>_. 0)) 0 (\<lambda>env n. n + (1 :: nat)) (AggregateId 1) w'
      = Ok (foldl (apply_one (\<lambda>env n. n + 1)) 1 envs)"
proof -
  obtain envs w' where a: "mem_append Suc (\<lambda>_. 0) (AggregateId 1) 1 [False] CorrelationContext_none
      one_event_store = (Inr envs, w')"
    by (simp add: one_event_store_def mem_run_def mem_eval)
  have "replay (mem_ops Suc (\<lambda>_. 0)) 0 (\<lambda>env n. n + (1 :: nat)) (AggregateId 1) one_event_store = Ok 1"
    unfolding mem_replay [OF one_event_store_inv]
    by (simp add: one_event_store_def mem_run_def mem_eval)
  from live_projection_equals_replay [OF one_event_store_inv a this] a show ?thesis by blast
qed

section \<open>Cells and stores\<close>

text \<open>
  A write cell that starts from the default and folds in a stream of envelopes holds
  exactly what a replay of that stream computes, whatever it was replaced by before.
\<close>

theorem write_cell_folds:
  "WriteCell_snapshot (fold (WriteCell_apply apply_env) es
     (WriteCell_replace dflt (fold (WriteCell_apply apply_env) old (WriteCell_new d0))))
   = fold apply_env es dflt"
proof -
  have "inner (fold (WriteCell_apply apply_env) es c) = fold apply_env es (inner c)" for es c
    by (induction es arbitrary: c) (auto simp: WriteCell_apply_def)
  then show ?thesis by (simp add: WriteCell_snapshot_def WriteCell_replace_def)
qed

datatype 'p projection_op = OpPersist aggregate_id 'p nat | OpDelete aggregate_id

fun run_projection_op :: "'p projection_op \<Rightarrow> 'p projection_store \<Rightarrow> 'p projection_store" where
  "run_projection_op (OpPersist i p n) st = persist i p n st"
| "run_projection_op (OpDelete i) st = delete i st"

fun last_persisted :: "aggregate_id \<Rightarrow> 'p projection_op list \<Rightarrow> ('p \<times> nat) option \<Rightarrow> ('p \<times> nat) option" where
  "last_persisted i [] acc = acc"
| "last_persisted i (OpPersist j p n # xs) acc = last_persisted i xs (if i = j then Some (p, n) else acc)"
| "last_persisted i (OpDelete j # xs) acc = last_persisted i xs (if i = j then None else acc)"

lemma projection_store_run:
  assumes "load_snapshot i st = map_option fst acc" "load_checkpoint i st = map_option snd acc"
  shows "load_snapshot i (fold run_projection_op xs st) = map_option fst (last_persisted i xs acc)
    \<and> load_checkpoint i (fold run_projection_op xs st) = map_option snd (last_persisted i xs acc)"
  using assms
proof (induction i xs acc arbitrary: st rule: last_persisted.induct)
  case (2 i j p n xs acc)
  then show ?case
    using "2.IH" [of "persist j p n st"]
    by (simp add: persist_def load_snapshot_def load_checkpoint_def)
next
  case (3 i j xs acc)
  then show ?case
    using "3.IH" [of "delete j st"]
    by (simp add: delete_def load_snapshot_def load_checkpoint_def)
qed simp

text \<open>
  After any sequence of \<open>persist\<close> and \<open>delete\<close> calls on a fresh projection store, the
  snapshot and the checkpoint of an aggregate are the pair of the last \<open>persist\<close> for it since
  its last \<open>delete\<close>: a snapshot never appears without its checkpoint or beside an older one.
\<close>

theorem projection_store_pairs:
  "load_snapshot i (fold run_projection_op xs (InMemoryProjectionStore_new name))
      = map_option fst (last_persisted i xs None)
   \<and> load_checkpoint i (fold run_projection_op xs (InMemoryProjectionStore_new name))
      = map_option snd (last_persisted i xs None)"
  by (intro projection_store_run)
    (simp_all add: InMemoryProjectionStore_new_def load_snapshot_def load_checkpoint_def)

section \<open>Error mapping\<close>

text \<open>
  The driver reports a store that found its data corrupt as an infrastructure failure:
  the store calls that error terminal, the driver's category says it can be retried.
\<close>

theorem replay_corrupt_store_is_retryable:
  assumes "es_load ops i s = Err (CorruptData b)"
  shows "\<exists>e. replay ops dflt apply_env i s = Err e
    \<and> StoreError_category (CorruptData b) = Terminal \<and> ProjectionError_category e = Retryable"
  using assms by (simp add: replay_def replay_inner_def)

theorem replay_corrupt_store_is_retryable_witness:
  "\<exists>e. replay (mem_ops Suc (\<lambda>_. 0)) () (\<lambda>_ p. p) (AggregateId 1)
      \<lparr>mem_state = \<lparr>streams = [(AggregateId 1, [sample_env 5 2 1])], next_id = 2\<rparr>,
        uuid_draws = 5, clock_reads = 0\<rparr> = Err e \<and> ProjectionError_category e = Retryable"
  using replay_corrupt_store_is_retryable
    [of "mem_ops Suc (\<lambda>_. 0)" "AggregateId 1"
      "\<lparr>mem_state = \<lparr>streams = [(AggregateId 1, [sample_env 5 2 1])], next_id = 2\<rparr>,
        uuid_draws = 5, clock_reads = 0\<rparr>"
      "BoxEnvelopeError (AggregateIdMismatch (AggregateId 1) (AggregateId 2))" "()" "\<lambda>_ p. p"]
  by (simp add: mem_ops_def mem_load_def stream_of_def hm_get_def validate_stream_def
      EventEnvelope_validate_def sample_env_def nil_uuid_def)

end
