(* ===== verification/Event_Bus.thy ===== *)
theory Event_Bus
  imports Core_Event
begin

text \<open>
  The \<open>EventBus\<close> port and two of its implementations: the recording bus of
  \<open>cherry-pit-core/src/testing.rs\<close> and the in-process bus of
  \<open>cherry-pit-app/src/event_bus.rs\<close>.
\<close>

record ('b, 'e) event_bus_ops =
  bus_publish :: "'e event_envelope list \<Rightarrow> 'b \<Rightarrow> (bus_error, unit) result \<times> 'b"

section \<open>The recording bus\<close>

record 'e fake_bus =
  published :: "'e event_envelope list"

definition FakeBus_new :: "'e fake_bus" where
  "FakeBus_new = \<lparr>published = []\<rparr>"

definition FakeBus_publish :: "'e event_envelope list \<Rightarrow> 'e fake_bus \<Rightarrow> (bus_error, unit) result \<times> 'e fake_bus" where
  "FakeBus_publish events b = (Ok (), b\<lparr>published := published b @ events\<rparr>)"

definition fake_bus_ops :: "('e fake_bus, 'e) event_bus_ops" where
  "fake_bus_ops = \<lparr>bus_publish = FakeBus_publish\<rparr>"

section \<open>The in-process bus\<close>

text \<open>
  Handlers are closures over the rest of the program, and a handler may call back into the
  bus. A handler is therefore named by a value of type \<open>'h\<close>; \<open>invoke h env w\<close> is the effect of
  running it on the program state \<open>w\<close>, which holds the bus's handler vector behind
  \<open>handlers_of\<close> and \<open>set_handlers\<close>. The mutex guards a copy-on-write snapshot: \<open>register\<close>
  stores a new vector, \<open>publish\<close> reads the current one once and then runs without the lock.
\<close>

record ('h, 'w) handler_slot =
  handlers_of :: "'w \<Rightarrow> 'h list"
  set_handlers :: "'h list \<Rightarrow> 'w \<Rightarrow> 'w"

definition register :: "('h, 'w) handler_slot \<Rightarrow> 'h \<Rightarrow> 'w \<Rightarrow> 'w" where
  "register slot h w = set_handlers slot (handlers_of slot w @ [h]) w"

definition handler_count :: "('h, 'w) handler_slot \<Rightarrow> 'w \<Rightarrow> nat" where
  "handler_count slot w = length (handlers_of slot w)"

definition publish ::
  "('h, 'w) handler_slot \<Rightarrow> ('h \<Rightarrow> 'e event_envelope \<Rightarrow> 'w \<Rightarrow> 'w) \<Rightarrow> 'e event_envelope list \<Rightarrow> 'w
    \<Rightarrow> (bus_error, unit) result \<times> 'w" where
  "publish slot invoke events w =
    (let snapshot = handlers_of slot w in
     (Ok (), fold (\<lambda>env w. fold (\<lambda>h w. invoke h env w) snapshot w) events w))"

definition deliveries :: "'h list \<Rightarrow> 'e event_envelope list \<Rightarrow> ('h \<times> 'e event_envelope) list" where
  "deliveries hs events = concat (map (\<lambda>env. map (\<lambda>h. (h, env)) hs) events)"

lemma publish_deliveries:
  "publish slot invoke events w =
    (Ok (), fold (\<lambda>(h, env). invoke h env) (deliveries (handlers_of slot w) events) w)"
proof -
  have one: "fold (\<lambda>h w. invoke h env w) hs w = fold (\<lambda>(h, env). invoke h env) (map (\<lambda>h. (h, env)) hs) w"
    for hs env w by (induction hs arbitrary: w) auto
  have "fold (\<lambda>env w. fold (\<lambda>h w. invoke h env w) hs w) events w
      = fold (\<lambda>(h, env). invoke h env) (deliveries hs events) w" for hs
    by (induction events arbitrary: w) (auto simp: deliveries_def one)
  then show ?thesis by (simp add: publish_def Let_def)
qed

text \<open>A program state with a delivery log, for stating what a publish did.\<close>

record ('h, 'e) bus_world =
  bw_handlers :: "'h list"
  bw_log :: "('h \<times> 'e event_envelope) list"

definition bw_slot :: "('h, ('h, 'e) bus_world) handler_slot" where
  "bw_slot = \<lparr>handlers_of = bw_handlers, set_handlers = (\<lambda>hs w. w\<lparr>bw_handlers := hs\<rparr>)\<rparr>"

text \<open>Every handler logs its call; it may also register further handlers (\<open>spawns\<close>).\<close>

definition logging_invoke ::
  "('h \<Rightarrow> 'e event_envelope \<Rightarrow> 'h list) \<Rightarrow> 'h \<Rightarrow> 'e event_envelope \<Rightarrow> ('h, 'e) bus_world \<Rightarrow> ('h, 'e) bus_world" where
  "logging_invoke spawns h env w =
    fold (register bw_slot) (spawns h env) (w\<lparr>bw_log := bw_log w @ [(h, env)]\<rparr>)"

lemma register_bw [simp]:
  "bw_log (register bw_slot h w) = bw_log w"
  "bw_handlers (register bw_slot h w) = bw_handlers w @ [h]"
  by (auto simp: register_def bw_slot_def)

lemma fold_register_bw:
  "bw_log (fold (register bw_slot) hs w) = bw_log w"
  "bw_handlers (fold (register bw_slot) hs w) = bw_handlers w @ hs"
  by (induction hs arbitrary: w) auto

text \<open>
  Publishing never fails and calls every handler that was registered when it started,
  for every envelope in turn and within an envelope in registration order, exactly once.
  Handlers that register further handlers while they run do not change the current
  publication; the new handlers are appended, in order, for the next one.
\<close>

theorem publish_fans_out_in_order:
  "fst (publish bw_slot (logging_invoke spawns) events w) = Ok ()
   \<and> bw_log (snd (publish bw_slot (logging_invoke spawns) events w))
      = bw_log w @ deliveries (bw_handlers w) events
   \<and> bw_handlers (snd (publish bw_slot (logging_invoke spawns) events w))
      = bw_handlers w @ concat (map (\<lambda>(h, env). spawns h env) (deliveries (bw_handlers w) events))"
proof -
  have "bw_log (fold (\<lambda>(h, env). logging_invoke spawns h env) ds w) = bw_log w @ ds
      \<and> bw_handlers (fold (\<lambda>(h, env). logging_invoke spawns h env) ds w)
        = bw_handlers w @ concat (map (\<lambda>(h, env). spawns h env) ds)" for ds
    by (induction ds arbitrary: w) (auto simp: logging_invoke_def fold_register_bw)
  then show ?thesis
    by (simp add: publish_deliveries bw_slot_def [THEN arg_cong [where f = handlers_of], simplified])
qed

end
