(* ===== verification/Merger.thy ===== *)
theory Merger
  imports Mem_Store Event_Bus
begin

text \<open>
  The single-task command merger (\<open>cherry-pit-merger\<close>): \<open>shared.rs\<close>, \<open>merger.rs\<close>, \<open>arm.rs\<close>,
  \<open>command.rs\<close> and \<open>handle.rs\<close>. The task owns the routing index, the sequence tracker, the
  store and the bus, and handles one command at a time to completion, so handling a command
  is one state-passing function and the task is its iteration over the received commands. The
  caller's arm (\<open>MergerArm\<close>) and aggregate are parameters, as in the trait. Error events sent
  to \<open>tracing\<close> when a publication fails are kept in \<open>m_traced\<close>.
\<close>

datatype persist_mode = Create | CreateOrAppend string | AppendStrict string

record ('cmd, 'a, 'e, 'err) merger_arm =
  arm_persist_mode :: "'cmd \<Rightarrow> persist_mode"
  arm_handle :: "'a \<Rightarrow> 'cmd \<Rightarrow> ('err, 'e list) result"
  arm_publish_label :: "'cmd \<Rightarrow> string"
  arm_missing_key_error :: "string \<Rightarrow> 'err"
  arm_from_store_error :: "store_error \<Rightarrow> 'err"

record ('a, 'e) aggregate_type =
  agg_default :: 'a
  agg_apply :: "'e \<Rightarrow> 'a \<Rightarrow> 'a"

record ('s, 'b) merger =
  m_store :: 's
  m_bus :: 'b
  m_index :: "(string, aggregate_id) hash_map"
  m_next_seq :: "(aggregate_id, nat) hash_map"
  m_traced :: "(uuid \<times> string) list"

section \<open>Persist helpers (\<open>shared.rs\<close>)\<close>

definition lookup :: "(string, aggregate_id) hash_map \<Rightarrow> string \<Rightarrow> aggregate_id option" where
  "lookup index key = hm_get index key"

definition stale_index_error :: "aggregate_id \<Rightarrow> store_error" where
  "stale_index_error aid = CorruptData (BoxMessage (''indexed AggregateId '' @ AggregateId_fmt aid
    @ '' has zero envelopes (routing index stale)''))"

definition load_envelopes_or_empty ::
  "('s, 'e) event_store_ops \<Rightarrow> aggregate_id option \<Rightarrow> 's
    \<Rightarrow> (store_error, 'e event_envelope list \<times> nat option) result" where
  "load_envelopes_or_empty ops existing_id s =
    (case existing_id of
      None \<Rightarrow> Ok ([], None)
    | Some aid \<Rightarrow>
        and_then (es_load ops aid s) (\<lambda>envs.
          case last_opt envs of
            None \<Rightarrow> Err (stale_index_error aid)
          | Some l \<Rightarrow> Ok (envs, Some (env_sequence l))))"

text \<open>\<open>if let Some(env) = envs.last() { next_seq.insert(id, env.sequence()) }\<close>\<close>

definition track_last :: "aggregate_id \<Rightarrow> 'e event_envelope list \<Rightarrow> ('s, 'b) merger \<Rightarrow> ('s, 'b) merger" where
  "track_last aid envs m =
    (case last_opt envs of
      None \<Rightarrow> m
    | Some env \<Rightarrow> m\<lparr>m_next_seq := hm_insert aid (env_sequence env) (m_next_seq m)\<rparr>)"

definition create_or_append ::
  "('s, 'e) event_store_ops \<Rightarrow> string \<Rightarrow> aggregate_id option \<Rightarrow> nat option \<Rightarrow> 'e list
    \<Rightarrow> correlation_context \<Rightarrow> ('s, 'b) merger
    \<Rightarrow> (store_error, 'e event_envelope list) result \<times> ('s, 'b) merger" where
  "create_or_append ops key existing_id last_seq new_events ctx m =
    (case (existing_id, last_seq) of
      (None, _) \<Rightarrow>
        (case es_create ops new_events ctx (m_store m) of
          (Inl e, s') \<Rightarrow> (Err e, m\<lparr>m_store := s'\<rparr>)
        | (Inr (assigned_id, envs), s') \<Rightarrow>
            (Ok envs, track_last assigned_id envs
              (m\<lparr>m_store := s', m_index := hm_or_insert key assigned_id (m_index m)\<rparr>)))
    | (Some aid, Some sq) \<Rightarrow>
        (case es_append ops aid sq new_events ctx (m_store m) of
          (Inl e, s') \<Rightarrow> (Err e, m\<lparr>m_store := s'\<rparr>)
        | (Inr envs, s') \<Rightarrow> (Ok envs, track_last aid envs (m\<lparr>m_store := s'\<rparr>)))
    | (Some aid, None) \<Rightarrow>
        (Err (CorruptData (BoxMessage (''indexed AggregateId '' @ AggregateId_fmt aid
          @ '' without last_seq; load_envelopes_or_empty should have surfaced this first''))), m))"

definition append_and_track ::
  "('s, 'e) event_store_ops \<Rightarrow> aggregate_id \<Rightarrow> nat \<Rightarrow> 'e list \<Rightarrow> correlation_context \<Rightarrow> ('s, 'b) merger
    \<Rightarrow> (store_error, 'e event_envelope list) result \<times> ('s, 'b) merger" where
  "append_and_track ops aid last_seq new_events ctx m =
    (case es_append ops aid last_seq new_events ctx (m_store m) of
      (Inl e, s') \<Rightarrow> (Err e, m\<lparr>m_store := s'\<rparr>)
    | (Inr envs, s') \<Rightarrow> (Ok envs, track_last aid envs (m\<lparr>m_store := s'\<rparr>)))"

definition create_fresh ::
  "('s, 'e) event_store_ops \<Rightarrow> string option \<Rightarrow> 'e list \<Rightarrow> correlation_context \<Rightarrow> ('s, 'b) merger
    \<Rightarrow> (store_error, 'e event_envelope list) result \<times> ('s, 'b) merger" where
  "create_fresh ops key new_events ctx m =
    (case es_create ops new_events ctx (m_store m) of
      (Inl e, s') \<Rightarrow> (Err e, m\<lparr>m_store := s'\<rparr>)
    | (Inr (assigned_id, envs), s') \<Rightarrow>
        let m1 = m\<lparr>m_store := s'\<rparr>;
            m2 = (case key of None \<Rightarrow> m1
              | Some k \<Rightarrow> m1\<lparr>m_index := hm_or_insert k assigned_id (m_index m1)\<rparr>) in
        (Ok envs, track_last assigned_id envs m2))"

definition publish_or_trace ::
  "('b, 'e) event_bus_ops \<Rightarrow> 'e event_envelope list \<Rightarrow> string \<Rightarrow> ('s, 'b) merger \<Rightarrow> ('s, 'b) merger" where
  "publish_or_trace bus envs label m =
    (case bus_publish bus envs (m_bus m) of
      (Inr _, b') \<Rightarrow> m\<lparr>m_bus := b'\<rparr>
    | (Inl _, b') \<Rightarrow> m\<lparr>m_bus := b',
        m_traced := m_traced m @ map (\<lambda>env. (env_event_id env, label)) envs\<rparr>)"

section \<open>The task (\<open>merger.rs\<close>)\<close>

definition fold_state :: "('a, 'e) aggregate_type \<Rightarrow> 'e event_envelope list \<Rightarrow> 'a" where
  "fold_state agg envs = fold (\<lambda>env. agg_apply agg (env_payload env)) envs (agg_default agg)"

definition run_create ::
  "('s, 'e) event_store_ops \<Rightarrow> ('b, 'e) event_bus_ops \<Rightarrow> ('a, 'e) aggregate_type
    \<Rightarrow> ('cmd, 'a, 'e, 'err) merger_arm \<Rightarrow> 'cmd \<Rightarrow> correlation_context \<Rightarrow> string \<Rightarrow> ('s, 'b) merger
    \<Rightarrow> ('err, unit) result \<times> ('s, 'b) merger" where
  "run_create ops bus agg arm cmd ctx label m =
    (case arm_handle arm (agg_default agg) cmd of
      Inl e \<Rightarrow> (Err e, m)
    | Inr new_events \<Rightarrow>
        (case create_fresh ops None new_events ctx m of
          (Inl e, m') \<Rightarrow> (Err (arm_from_store_error arm e), m')
        | (Inr envs, m') \<Rightarrow> (Ok (), publish_or_trace bus envs label m')))"

definition run_create_or_append ::
  "('s, 'e) event_store_ops \<Rightarrow> ('b, 'e) event_bus_ops \<Rightarrow> ('a, 'e) aggregate_type
    \<Rightarrow> ('cmd, 'a, 'e, 'err) merger_arm \<Rightarrow> string \<Rightarrow> 'cmd \<Rightarrow> correlation_context \<Rightarrow> string
    \<Rightarrow> ('s, 'b) merger \<Rightarrow> ('err, unit) result \<times> ('s, 'b) merger" where
  "run_create_or_append ops bus agg arm key cmd ctx label m =
    (let existing_id = lookup (m_index m) key in
     case load_envelopes_or_empty ops existing_id (m_store m) of
       Inl e \<Rightarrow> (Err (arm_from_store_error arm e), m)
     | Inr (envelopes, last_seq) \<Rightarrow>
         (case arm_handle arm (fold_state agg envelopes) cmd of
           Inl e \<Rightarrow> (Err e, m)
         | Inr new_events \<Rightarrow>
             (case create_or_append ops key existing_id last_seq new_events ctx m of
               (Inl e, m') \<Rightarrow> (Err (arm_from_store_error arm e), m')
             | (Inr envs, m') \<Rightarrow> (Ok (), publish_or_trace bus envs label m'))))"

definition run_append_strict ::
  "('s, 'e) event_store_ops \<Rightarrow> ('b, 'e) event_bus_ops \<Rightarrow> ('a, 'e) aggregate_type
    \<Rightarrow> ('cmd, 'a, 'e, 'err) merger_arm \<Rightarrow> string \<Rightarrow> 'cmd \<Rightarrow> correlation_context \<Rightarrow> string
    \<Rightarrow> ('s, 'b) merger \<Rightarrow> ('err, unit) result \<times> ('s, 'b) merger" where
  "run_append_strict ops bus agg arm key cmd ctx label m =
    (case lookup (m_index m) key of
      None \<Rightarrow> (Err (arm_missing_key_error arm key), m)
    | Some aid \<Rightarrow>
        (case es_load ops aid (m_store m) of
          Inl e \<Rightarrow> (Err (arm_from_store_error arm e), m)
        | Inr envelopes \<Rightarrow>
            (case last_opt envelopes of
              None \<Rightarrow> (Err (arm_from_store_error arm (stale_index_error aid)), m)
            | Some l \<Rightarrow>
                (case arm_handle arm (fold_state agg envelopes) cmd of
                  Inl e \<Rightarrow> (Err e, m)
                | Inr new_events \<Rightarrow>
                    (case append_and_track ops aid (env_sequence l) new_events ctx m of
                      (Inl e, m') \<Rightarrow> (Err (arm_from_store_error arm e), m')
                    | (Inr envs, m') \<Rightarrow> (Ok (), publish_or_trace bus envs label m'))))))"

definition handle_one ::
  "('s, 'e) event_store_ops \<Rightarrow> ('b, 'e) event_bus_ops \<Rightarrow> ('a, 'e) aggregate_type
    \<Rightarrow> ('cmd, 'a, 'e, 'err) merger_arm \<Rightarrow> 'cmd \<Rightarrow> correlation_context
    \<Rightarrow> ('s, 'b) merger \<Rightarrow> ('err, unit) result \<times> ('s, 'b) merger" where
  "handle_one ops bus agg arm cmd ctx m =
    (let label = arm_publish_label arm cmd in
     case arm_persist_mode arm cmd of
       Create \<Rightarrow> run_create ops bus agg arm cmd ctx label m
     | CreateOrAppend key \<Rightarrow> run_create_or_append ops bus agg arm key cmd ctx label m
     | AppendStrict key \<Rightarrow> run_append_strict ops bus agg arm key cmd ctx label m)"

text \<open>\<open>run\<close>: the commands in the order of the channel; each reply in the same order.\<close>

fun merger_run ::
  "('s, 'e) event_store_ops \<Rightarrow> ('b, 'e) event_bus_ops \<Rightarrow> ('a, 'e) aggregate_type
    \<Rightarrow> ('cmd, 'a, 'e, 'err) merger_arm \<Rightarrow> ('cmd \<times> correlation_context) list \<Rightarrow> ('s, 'b) merger
    \<Rightarrow> ('err, unit) result list \<times> ('s, 'b) merger"
where
  "merger_run ops bus agg arm [] m = ([], m)"
| "merger_run ops bus agg arm ((cmd, ctx) # cmds) m =
    (case handle_one ops bus agg arm cmd ctx m of
      (r, m') \<Rightarrow> (case merger_run ops bus agg arm cmds m' of (rs, m'') \<Rightarrow> (r # rs, m'')))"

text \<open>
  \<open>MergerHandle::dispatch\<close> (\<open>handle.rs\<close>): \<open>accepted\<close> is the result of the channel send, \<open>reply\<close>
  the value of the reply channel, or the text of its receive error.
\<close>

definition dispatch ::
  "('cmd, 'a, 'e, 'err) merger_arm \<Rightarrow> bool \<Rightarrow> (string, ('err, unit) result) result \<Rightarrow> ('err, unit) result" where
  "dispatch arm accepted reply =
    (if \<not> accepted then Err (arm_from_store_error arm (Infrastructure (BoxMessage
       ''MergerHandle::dispatch: merger task channel closed; the merger task has shut down and is no longer accepting commands'')))
     else (case reply of
       Inr result \<Rightarrow> result
     | Inl recv_err \<Rightarrow> Err (arm_from_store_error arm (Indeterminate (BoxForeign recv_err)))))"

section \<open>Invariant and abstraction\<close>

text \<open>
  Every indexed key names a recorded aggregate, no two keys name the same one, and the
  tracker holds the length of the stream it is for.
\<close>

definition merger_inv ::
  "('s \<Rightarrow> bool) \<Rightarrow> ('s \<Rightarrow> aggregate_id \<Rightarrow> 'e event_envelope list) \<Rightarrow> ('s, 'b) merger \<Rightarrow> bool" where
  "merger_inv sinv stream m \<longleftrightarrow> sinv (m_store m)
    \<and> (\<forall>k i. lookup (m_index m) k = Some i \<longrightarrow> stream (m_store m) i \<noteq> [])
    \<and> (\<forall>k k' i. lookup (m_index m) k = Some i \<longrightarrow> lookup (m_index m) k' = Some i \<longrightarrow> k = k')
    \<and> (\<forall>i n. hm_get (m_next_seq m) i = Some n \<longrightarrow> n = length (stream (m_store m) i))"

text \<open>What the merger looks like from outside: a list of domain events for every key.\<close>

definition key_history ::
  "('s \<Rightarrow> aggregate_id \<Rightarrow> 'e event_envelope list) \<Rightarrow> ('s, 'b) merger \<Rightarrow> string \<Rightarrow> 'e list" where
  "key_history stream m k = (case lookup (m_index m) k of
    None \<Rightarrow> [] | Some i \<Rightarrow> map env_payload (stream (m_store m) i))"

definition replay_events :: "('a, 'e) aggregate_type \<Rightarrow> 'e list \<Rightarrow> 'a" where
  "replay_events agg evs = fold (agg_apply agg) evs (agg_default agg)"

definition index_kept :: "('s, 'b) merger \<Rightarrow> ('s, 'b) merger \<Rightarrow> bool" where
  "index_kept m m' \<longleftrightarrow> (\<forall>k i. lookup (m_index m) k = Some i \<longrightarrow> lookup (m_index m') k = Some i)"

text \<open>
  The abstract step: handle the command on the aggregate rebuilt from the key's events; on
  success append the new events to that key, otherwise change nothing.
\<close>

definition keyed_step ::
  "('a, 'e) aggregate_type \<Rightarrow> ('cmd, 'a, 'e, 'err) merger_arm \<Rightarrow> string \<Rightarrow> 'cmd
    \<Rightarrow> (string \<Rightarrow> 'e list) \<Rightarrow> ('err, unit) result \<Rightarrow> (string \<Rightarrow> 'e list) \<Rightarrow> bool" where
  "keyed_step agg arm k cmd h r h' \<longleftrightarrow>
    (case arm_handle arm (replay_events agg (h k)) cmd of
      Inl e \<Rightarrow> r = Err e \<and> h' = h
    | Inr evs \<Rightarrow> r = Ok () \<and> h' = h(k := h k @ evs) \<and> h' k \<noteq> []
        \<or> (\<exists>e. r = Err (arm_from_store_error arm e)) \<and> h' = h)"

definition spec_step ::
  "('a, 'e) aggregate_type \<Rightarrow> ('cmd, 'a, 'e, 'err) merger_arm \<Rightarrow> 'cmd
    \<Rightarrow> (string \<Rightarrow> 'e list) \<Rightarrow> ('err, unit) result \<Rightarrow> (string \<Rightarrow> 'e list) \<Rightarrow> bool" where
  "spec_step agg arm cmd h r h' \<longleftrightarrow>
    (case arm_persist_mode arm cmd of
      Create \<Rightarrow> h' = h
    | CreateOrAppend k \<Rightarrow> keyed_step agg arm k cmd h r h'
    | AppendStrict k \<Rightarrow> if h k = [] then r = Err (arm_missing_key_error arm k) \<and> h' = h
        else keyed_step agg arm k cmd h r h')"

fun spec_run ::
  "('a, 'e) aggregate_type \<Rightarrow> ('cmd, 'a, 'e, 'err) merger_arm \<Rightarrow> 'cmd list
    \<Rightarrow> (string \<Rightarrow> 'e list) \<Rightarrow> ('err, unit) result list \<Rightarrow> (string \<Rightarrow> 'e list) \<Rightarrow> bool"
where
  "spec_run agg arm [] h rs h' \<longleftrightarrow> rs = [] \<and> h' = h"
| "spec_run agg arm (cmd # cmds) h rs h' \<longleftrightarrow>
    (\<exists>r rs' h1. rs = r # rs' \<and> spec_step agg arm cmd h r h1 \<and> spec_run agg arm cmds h1 rs' h')"

lemma fold_state_eq: "fold_state agg envs = replay_events agg (map env_payload envs)"
proof -
  have "fold (\<lambda>env. agg_apply agg (env_payload env)) envs a = fold (agg_apply agg) (map env_payload envs) a"
    for a by (induction envs arbitrary: a) auto
  then show ?thesis by (simp add: fold_state_def replay_events_def)
qed

lemma publish_or_trace_keeps [simp]:
  "m_store (publish_or_trace bus envs label m) = m_store m"
  "m_index (publish_or_trace bus envs label m) = m_index m"
  "m_next_seq (publish_or_trace bus envs label m) = m_next_seq m"
  by (auto simp: publish_or_trace_def split: prod.splits sum.splits)

lemma track_last_keeps [simp]:
  "m_store (track_last i envs m) = m_store m"
  "m_index (track_last i envs m) = m_index m"
  "m_bus (track_last i envs m) = m_bus m"
  by (auto simp: track_last_def split: option.splits)

lemma key_history_cong:
  "m_store m = m_store m' \<Longrightarrow> m_index m = m_index m' \<Longrightarrow> key_history stream m = key_history stream m'"
  by (simp add: key_history_def fun_eq_iff split: option.splits)

lemma key_history_publish [simp]:
  "key_history stream (publish_or_trace bus envs label m) = key_history stream m"
  "key_history stream (track_last i envs m) = key_history stream m"
  by (auto intro: key_history_cong)

lemma merger_inv_publish [simp]:
  "merger_inv sinv stream (publish_or_trace bus envs label m) \<longleftrightarrow> merger_inv sinv stream m"
  by (simp add: merger_inv_def)

lemma index_kept_refl [simp]: "index_kept m m"
  by (simp add: index_kept_def)

lemma index_kept_same [simp]: "m_index m' = m_index m \<Longrightarrow> index_kept m m'"
  by (simp add: index_kept_def)

lemma index_kept_trans: "index_kept a b \<Longrightarrow> index_kept b c \<Longrightarrow> index_kept a c"
  by (simp add: index_kept_def)

lemma key_history_Nil_iff:
  "merger_inv sinv stream m \<Longrightarrow> key_history stream m k = [] \<longleftrightarrow> lookup (m_index m) k = None"
  by (auto simp: key_history_def merger_inv_def split: option.splits)

context responsive_event_store
begin

abbreviation "minv \<equiv> merger_inv inv stream"
abbreviation "hist \<equiv> key_history stream"

text \<open>A failed store call leaves index, histories and tracker as they were.\<close>

lemma merger_store_failed:
  assumes "minv m" "inv s'" "stream s' = stream (m_store m)"
  shows "minv (m\<lparr>m_store := s'\<rparr>)" "hist (m\<lparr>m_store := s'\<rparr>) = hist m"
  using assms by (auto simp: merger_inv_def key_history_def fun_eq_iff split: option.splits)

lemma merger_created:
  assumes m: "minv m" and call: "es_create ops evs ctx (m_store m) = (Inr (i, envs), s')"
    and idx: "ix = m_index m \<or> (lookup (m_index m) k = None \<and> ix = hm_or_insert k i (m_index m))"
  shows "minv (track_last i envs (m\<lparr>m_store := s', m_index := ix\<rparr>))"
proof -
  have s: "inv (m_store m)" using m by (simp add: merger_inv_def)
  note ok = create_ok [OF s call] and l = create_ok_last [OF s call]
  have st: "stream s' j = (if j = i then envs else stream (m_store m) j)" for j using ok by simp
  have new: "lookup (m_index m) k' \<noteq> Some i" for k'
    using m ok by (auto simp: merger_inv_def)
  have last: "last_opt envs = Some (last envs)" using l(1) by (simp add: last_opt_Some)
  have ixD: "lookup (m_index m) k' = Some j \<or> k' = k \<and> j = i" if "lookup ix k' = Some j" for k' j
    using idx that by (auto simp: lookup_def split: if_splits)
  have old: "stream (m_store m) j \<noteq> []" if "lookup (m_index m) k' = Some j" for k' j
    using m that by (simp add: merger_inv_def)
  have inj: "a = b" if "lookup (m_index m) a = Some j" "lookup (m_index m) b = Some j" for a b j
    using m that unfolding merger_inv_def by blast
  have "a = b" if "lookup ix a = Some j" "lookup ix b = Some j" for a b j
    using ixD [OF that(1)] ixD [OF that(2)] inj new by blast
  moreover have "stream s' j \<noteq> []" if "lookup ix k' = Some j" for k' j
    using ixD [OF that] old [of k' j] st l(1) by auto
  moreover have "n = length (stream s' j)"
    if "hm_get (hm_insert i (env_sequence (last envs)) (m_next_seq m)) j = Some n" for j n
    using m that st l(2) unfolding merger_inv_def by (auto split: if_splits)
  ultimately show ?thesis
    using create_inv [OF s call] last unfolding merger_inv_def track_last_def by simp
qed

lemma merger_appended:
  assumes m: "minv m" and call: "es_append ops i n evs ctx (m_store m) = (Inr envs, s')"
  shows "minv (track_last i envs (m\<lparr>m_store := s'\<rparr>))"
    "stream s' = (stream (m_store m))(i := stream (m_store m) i @ envs)"
    "map env_payload envs = evs"
proof -
  have s: "inv (m_store m)" using m by (simp add: merger_inv_def)
  have s': "inv s'" by (rule append_inv [OF s call])
  show st: "stream s' = (stream (m_store m))(i := stream (m_store m) i @ envs)"
    and "map env_payload envs = evs"
    using append_ok [OF s _ call] append_empty [OF s, of i n ctx "Inr envs" s'] call
    by (cases "evs = []"; auto simp: records_def)+
  show "minv (track_last i envs (m\<lparr>m_store := s'\<rparr>))"
  proof (cases "evs = []")
    case True
    then have "envs = []" using append_empty [OF s, of i n ctx "Inr envs" s'] call by simp
    then show ?thesis using m st s' by (simp add: merger_inv_def track_last_def)
  next
    case False
    note l = append_ok_last [OF s False call]
    have "last_opt envs = Some (last envs)" using l(1) by (simp add: last_opt_Some)
    then show ?thesis
      using m st s' l unfolding merger_inv_def track_last_def by (auto split: if_splits)
  qed
qed

lemma hist_created:
  assumes m: "minv m" and call: "es_create ops evs ctx (m_store m) = (Inr (i, envs), s')"
  shows "lookup (m_index m) k = None \<Longrightarrow>
      hist (m\<lparr>m_store := s', m_index := hm_or_insert k i (m_index m)\<rparr>) = (hist m)(k := hist m k @ evs)"
    and "hist (m\<lparr>m_store := s'\<rparr>) = hist m"
proof -
  have s: "inv (m_store m)" using m by (simp add: merger_inv_def)
  note ok = create_ok [OF s call]
  have st: "stream s' j = (if j = i then envs else stream (m_store m) j)" for j using ok by simp
  have pay: "map env_payload envs = evs" using ok by (simp add: records_def)
  have new: "lookup (m_index m) k' \<noteq> Some i" for k'
    using m ok by (auto simp: merger_inv_def)
  show "hist (m\<lparr>m_store := s'\<rparr>) = hist m"
    using new st by (auto simp: key_history_def fun_eq_iff split: option.splits)
  assume none: "lookup (m_index m) k = None"
  have "lookup (hm_or_insert k i (m_index m)) k' = (if k' = k then Some i else lookup (m_index m) k')" for k'
    using none by (simp add: lookup_def)
  then show "hist (m\<lparr>m_store := s', m_index := hm_or_insert k i (m_index m)\<rparr>)
      = (hist m)(k := hist m k @ evs)"
    using new st none pay by (auto simp: key_history_def fun_eq_iff split: option.splits)
qed

lemma hist_appended:
  assumes m: "minv m" and call: "es_append ops i n evs ctx (m_store m) = (Inr envs, s')"
    and k: "lookup (m_index m) k = Some i"
  shows "hist (m\<lparr>m_store := s'\<rparr>) = (hist m)(k := hist m k @ evs)"
proof -
  have uniq: "k' = k" if "lookup (m_index m) k' = Some i" for k'
    using m k that unfolding merger_inv_def by blast
  have st: "stream s' j = (if j = i then stream (m_store m) i @ envs else stream (m_store m) j)" for j
    using merger_appended(2) [OF m call] by simp
  show ?thesis
  proof
    fix k'
    show "hist (m\<lparr>m_store := s'\<rparr>) k' = ((hist m)(k := hist m k @ evs)) k'"
      using k st uniq [of k'] merger_appended(3) [OF m call]
      by (cases "k' = k") (auto simp: key_history_def split: option.split)
  qed
qed

lemma indexed_load:
  assumes "minv m" "lookup (m_index m) k = Some i"
  shows "es_load ops i (m_store m) = Ok (stream (m_store m) i)"
    "last_opt (stream (m_store m) i) = Some (last (stream (m_store m) i))"
    "map env_payload (stream (m_store m) i) = hist m k"
  using assms load_total [of "m_store m" i]
  by (auto simp: merger_inv_def key_history_def last_opt_Some)

lemma run_create_step:
  assumes m: "minv m" and run: "run_create ops bus agg arm cmd ctx label m = (r, m')"
  shows "minv m' \<and> index_kept m m' \<and> hist m' = hist m"
proof -
  have s: "inv (m_store m)" using m by (simp add: merger_inv_def)
  show ?thesis
  proof (cases "arm_handle arm (agg_default agg) cmd")
    case (Inl e)
    with run m show ?thesis by (simp add: run_create_def)
  next
    case (Inr evs)
    obtain rc s' where call: "es_create ops evs ctx (m_store m) = (rc, s')" by fastforce
    show ?thesis
    proof (cases rc)
      case (Inl e)
      with call have "stream s' = stream (m_store m)" "inv s'"
        using create_definite [OF s] create_inv [OF s] by auto
      with Inl run Inr call merger_store_failed [OF m] show ?thesis
        by (auto simp: run_create_def create_fresh_def)
    next
      case (Inr ie)
      obtain i envs where ie: "rc = Inr (i, envs)" using Inr by (cases ie) auto
      have "m' = publish_or_trace bus envs label (track_last i envs (m\<lparr>m_store := s'\<rparr>))"
        using run \<open>arm_handle arm (agg_default agg) cmd = Inr evs\<close> call ie
        by (auto simp: run_create_def create_fresh_def Let_def)
      with merger_created [OF m, of evs ctx i envs s' "m_index m"] hist_created(2) [OF m, of evs ctx i envs s']
        call ie show ?thesis by (cases m) simp
    qed
  qed
qed

lemma run_create_or_append_step:
  assumes m: "minv m" and run: "run_create_or_append ops bus agg arm k cmd ctx label m = (r, m')"
  shows "minv m' \<and> index_kept m m' \<and> keyed_step agg arm k cmd (hist m) r (hist m')"
proof -
  have s: "inv (m_store m)" using m by (simp add: merger_inv_def)
  show ?thesis
  proof (cases "arm_handle arm (replay_events agg (hist m k)) cmd")
    case (Inl e)
    then have "r = Err e" "m' = m"
      using run indexed_load [OF m, of k]
      by (auto simp: run_create_or_append_def load_envelopes_or_empty_def fold_state_eq
          key_history_def Let_def split: option.splits)
    with Inl m show ?thesis by (simp add: keyed_step_def)
  next
    case (Inr evs)
    note handled = Inr
    show ?thesis
    proof (cases "lookup (m_index m) k")
      case None
      then have h0: "hist m k = []" by (simp add: key_history_def)
      obtain rc s' where call: "es_create ops evs ctx (m_store m) = (rc, s')" by fastforce
      have run': "(case rc of Inl e \<Rightarrow> (Err (arm_from_store_error arm e), m\<lparr>m_store := s'\<rparr>)
          | Inr (i, envs) \<Rightarrow> (Ok (), publish_or_trace bus envs label (track_last i envs
              (m\<lparr>m_store := s', m_index := hm_or_insert k i (m_index m)\<rparr>)))) = (r, m')"
        using run handled None call h0
        by (auto simp: run_create_or_append_def load_envelopes_or_empty_def fold_state_eq
            create_or_append_def split: sum.splits prod.splits)
      show ?thesis
      proof (cases rc)
        case (Inl e)
        with call have "stream s' = stream (m_store m)" "inv s'"
          using create_definite [OF s] create_inv [OF s] by auto
        with run' Inl merger_store_failed [OF m] handled show ?thesis
          by (auto simp: keyed_step_def)
      next
        case (Inr ie)
        obtain i envs where ie: "rc = Inr (i, envs)" using Inr by (cases ie) auto
        have "evs \<noteq> []" using create_ok [OF s] call ie by blast
        moreover have "index_kept m (m\<lparr>m_store := s', m_index := hm_or_insert k i (m_index m)\<rparr>)"
          using None by (auto simp: index_kept_def lookup_def)
        ultimately show ?thesis
          using run' ie call None handled merger_created [OF m, of evs ctx i envs s' _ k]
            hist_created(1) [OF m, of evs ctx i envs s' k]
          by (auto simp: keyed_step_def index_kept_def)
      qed
    next
      case (Some i)
      note ld = indexed_load [OF m Some]
      have seq: "env_sequence (last (stream (m_store m) i)) = length (stream (m_store m) i)"
        using load_last_seq [OF s ld(1)] ld(2) by (auto simp: last_opt_Some)
      obtain ra s' where call: "es_append ops i (length (stream (m_store m) i)) evs ctx (m_store m) = (ra, s')"
        by fastforce
      have run': "(case ra of Inl e \<Rightarrow> (Err (arm_from_store_error arm e), m\<lparr>m_store := s'\<rparr>)
          | Inr envs \<Rightarrow> (Ok (), publish_or_trace bus envs label (track_last i envs
              (m\<lparr>m_store := s'\<rparr>)))) = (r, m')"
        using run handled Some call ld seq
        by (auto simp: run_create_or_append_def load_envelopes_or_empty_def fold_state_eq
            create_or_append_def split: sum.splits prod.splits)
      show ?thesis
      proof (cases ra)
        case (Inl e)
        with call have "stream s' = stream (m_store m)" "inv s'"
          using append_definite [OF s] append_inv [OF s] by auto
        with run' Inl merger_store_failed [OF m] handled show ?thesis
          by (auto simp: keyed_step_def)
      next
        case (Inr envs)
        have "hist m k \<noteq> []" using ld(2,3) by (auto simp: last_opt_Some)
        with run' Inr call handled merger_appended(1) [OF m] hist_appended [OF m _ Some] show ?thesis
          by (auto simp: keyed_step_def)
      qed
    qed
  qed
qed

text \<open>On an indexed key a strict append is the append path of create-or-append.\<close>

lemma run_append_strict_eq:
  assumes "minv m"
  shows "run_append_strict ops bus agg arm k cmd ctx label m =
    (if lookup (m_index m) k = None then (Err (arm_missing_key_error arm k), m)
     else run_create_or_append ops bus agg arm k cmd ctx label m)"
proof (cases "lookup (m_index m) k")
  case None
  then show ?thesis by (simp add: run_append_strict_def)
next
  case (Some i)
  with indexed_load [OF assms Some] show ?thesis
    by (cases "arm_handle arm (fold_state agg (stream (m_store m) i)) cmd")
      (simp_all add: run_append_strict_def run_create_or_append_def load_envelopes_or_empty_def
        append_and_track_def create_or_append_def)
qed

lemma handle_one_step:
  assumes m: "minv m" and run: "handle_one ops bus agg arm cmd ctx m = (r, m')"
  shows "minv m' \<and> index_kept m m' \<and> spec_step agg arm cmd (hist m) r (hist m')"
proof (cases "arm_persist_mode arm cmd")
  case Create
  with run run_create_step [OF m, of bus agg arm cmd ctx "arm_publish_label arm cmd" r m']
  show ?thesis by (simp add: handle_one_def spec_step_def)
next
  case (CreateOrAppend k)
  with run run_create_or_append_step [OF m, of bus agg arm k cmd ctx "arm_publish_label arm cmd" r m']
  show ?thesis by (simp add: handle_one_def spec_step_def)
next
  case (AppendStrict k)
  with run run_create_or_append_step [OF m, of bus agg arm k cmd ctx "arm_publish_label arm cmd" r m']
    run_append_strict_eq [OF m, of bus agg arm k cmd ctx "arm_publish_label arm cmd"]
    key_history_Nil_iff [OF m, of k] m
  show ?thesis by (auto simp: handle_one_def spec_step_def split: if_splits)
qed

lemma merger_run_step:
  assumes "minv m" "merger_run ops bus agg arm cmds m = (rs, m')"
  shows "minv m' \<and> index_kept m m' \<and> spec_run agg arm (map fst cmds) (hist m) rs (hist m')"
  using assms
proof (induction cmds arbitrary: m rs)
  case (Cons c cmds)
  obtain cmd ctx where c: "c = (cmd, ctx)" by (cases c)
  obtain r m1 where h: "handle_one ops bus agg arm cmd ctx m = (r, m1)" by fastforce
  obtain rs' where t: "merger_run ops bus agg arm cmds m1 = (rs', m')" and rs: "rs = r # rs'"
    using Cons.prems(2) c h by (auto split: prod.splits)
  have step: "minv m1" "index_kept m m1" "spec_step agg arm cmd (hist m) r (hist m1)"
    using handle_one_step [OF Cons.prems(1) h] by auto
  from Cons.IH [OF step(1) t] step c rs show ?case
    using index_kept_trans [of m m1 m'] by auto
qed simp

end

section \<open>The merger over the in-memory store\<close>

text \<open>
  C2. The merger refines a map from domain keys to event lists. Whatever commands arrive and
  whatever the bus does: each command is handled on the aggregate rebuilt from all events of
  its key; a success appends exactly the handler's events to that key and to no other; a
  rejected command, a missing key of a strict append and every store failure change no key.
  Once a key is indexed it keeps its aggregate, no two keys share one, and there is one reply
  per command, in order.
\<close>

theorem merger_refines_key_map:
  assumes "merger_inv (mem_inv v7) mem_stream m"
    and "merger_run (mem_ops v7 ts) bus agg arm cmds m = (rs, m')"
  shows "merger_inv (mem_inv v7) mem_stream m' \<and> index_kept m m'
    \<and> spec_run agg arm (map fst cmds) (key_history mem_stream m) rs (key_history mem_stream m')"
  by (rule mem.merger_run_step [OF assms])

text \<open>An arm whose commands are \<open>(key, n)\<close>: append the number to the key, reject zero.\<close>

definition number_arm :: "(string \<times> nat, nat, nat, string) merger_arm" where
  "number_arm = \<lparr>arm_persist_mode = (\<lambda>(k, n). CreateOrAppend k),
    arm_handle = (\<lambda>_ (k, n). if n = 0 then Err ''zero'' else Ok [n]),
    arm_publish_label = (\<lambda>_. ''Number''), arm_missing_key_error = (\<lambda>k. k),
    arm_from_store_error = (\<lambda>_. ''store'')\<rparr>"

definition sum_type :: "(nat, nat) aggregate_type" where
  "sum_type = \<lparr>agg_default = 0, agg_apply = (+)\<rparr>"

definition fresh_merger :: "(nat mem_world, nat fake_bus) merger" where
  "fresh_merger = \<lparr>m_store = mem_start 0 0, m_bus = FakeBus_new, m_index = [], m_next_seq = [],
    m_traced = []\<rparr>"

lemma fresh_merger_inv: "merger_inv (mem_inv Suc) mem_stream fresh_merger"
  by (simp add: merger_inv_def fresh_merger_def lookup_def fresh_uuids_Suc)

theorem merger_refines_key_map_witness:
  "\<exists>rs m'. merger_run (mem_ops Suc (\<lambda>_. 0)) fake_bus_ops sum_type number_arm
      [((''a'', 5), CorrelationContext_none), ((''a'', 0), CorrelationContext_none)] fresh_merger
      = (rs, m')
    \<and> merger_inv (mem_inv Suc) mem_stream m'
    \<and> spec_run sum_type number_arm [(''a'', 5), (''a'', 0)] (key_history mem_stream fresh_merger)
        rs (key_history mem_stream m')"
proof -
  obtain rs m' where run: "merger_run (mem_ops Suc (\<lambda>_. 0)) fake_bus_ops sum_type number_arm
      [((''a'', 5), CorrelationContext_none), ((''a'', 0), CorrelationContext_none)] fresh_merger
      = (rs, m')" by fastforce
  from run merger_refines_key_map [OF fresh_merger_inv run, unfolded list.map fst_conv]
  show ?thesis by blast
qed

definition same_persisted :: "('s, 'b) merger \<Rightarrow> ('s, 'c) merger \<Rightarrow> bool" where
  "same_persisted m1 m2 \<longleftrightarrow> m_store m1 = m_store m2 \<and> m_index m1 = m_index m2
    \<and> m_next_seq m1 = m_next_seq m2"

lemma same_persisted_track [simp]:
  "same_persisted m1 m2 \<Longrightarrow> same_persisted (track_last i envs m1) (track_last i envs m2)"
  by (auto simp: same_persisted_def track_last_def split: option.splits)

lemma same_persisted_publish [simp]:
  "same_persisted (publish_or_trace bus1 envs l m1) (publish_or_trace bus2 envs l m2)
    \<longleftrightarrow> same_persisted m1 m2"
  by (simp add: same_persisted_def)

lemma same_persisted_create_fresh:
  assumes "same_persisted m1 m2"
  shows "rel_prod (=) same_persisted (create_fresh ops key evs ctx m1) (create_fresh ops key evs ctx m2)"
proof (cases "es_create ops evs ctx (m_store m2)")
  case (Pair r s')
  with assms show ?thesis
    by (cases r; cases key) (auto simp: create_fresh_def Let_def same_persisted_def track_last_def
        split: option.split)
qed

lemma same_persisted_append:
  assumes "same_persisted m1 m2"
  shows "rel_prod (=) same_persisted (append_and_track ops aid sq evs ctx m1) (append_and_track ops aid sq evs ctx m2)"
proof (cases "es_append ops aid sq evs ctx (m_store m2)")
  case (Pair r s')
  with assms show ?thesis
    by (cases r) (auto simp: append_and_track_def same_persisted_def track_last_def split: option.split)
qed

lemma same_persisted_create_or_append:
  assumes "same_persisted m1 m2"
  shows "rel_prod (=) same_persisted (create_or_append ops k ex ls evs ctx m1)
    (create_or_append ops k ex ls evs ctx m2)"
proof (cases ex)
  case None
  obtain r s' where "es_create ops evs ctx (m_store m2) = (r, s')" by fastforce
  with None assms show ?thesis
    by (cases r) (auto simp: create_or_append_def same_persisted_def track_last_def split: option.split)
next
  case (Some aid)
  then show ?thesis
    using assms same_persisted_append [OF assms, of ops aid _ evs ctx]
    by (cases ls) (simp_all add: create_or_append_def append_and_track_def)
qed

lemma same_persisted_finish:
  assumes "rel_prod (=) same_persisted p1 p2"
  shows "rel_prod (=) same_persisted
    (case p1 of (Inl e, m') \<Rightarrow> (Err (f e), m') | (Inr envs, m') \<Rightarrow> (Ok (), publish_or_trace bus1 envs l m'))
    (case p2 of (Inl e, m') \<Rightarrow> (Err (f e), m') | (Inr envs, m') \<Rightarrow> (Ok (), publish_or_trace bus2 envs l m'))"
  using assms by (cases p1; cases p2; cases "fst p1") auto

lemmas same_persisted_finished =
  same_persisted_create_fresh [THEN same_persisted_finish]
  same_persisted_append [THEN same_persisted_finish]
  same_persisted_create_or_append [THEN same_persisted_finish]

lemma handle_one_same:
  assumes "same_persisted m1 m2"
  shows "rel_prod (=) same_persisted (handle_one ops bus1 agg arm cmd ctx m1)
    (handle_one ops bus2 agg arm cmd ctx m2)"
proof -
  have eqs: "m_store m1 = m_store m2" "m_index m1 = m_index m2"
    using assms by (auto simp: same_persisted_def)
  show ?thesis
    unfolding handle_one_def run_create_def run_create_or_append_def run_append_strict_def Let_def eqs
    by (auto simp: assms intro!: same_persisted_finished split: persist_mode.split sum.split option.split)
qed

text \<open>
  Publication is not part of a command's outcome: two mergers that differ only in their
  bus give the same reply and store the same events, index and tracker, even if one bus
  rejects every publication.
\<close>

theorem publication_never_changes_outcome:
  fixes bus1 :: "('b, 'e) event_bus_ops" and bus2 :: "('c, 'e) event_bus_ops"
  assumes "same_persisted m1 m2"
  shows "fst (handle_one ops bus1 agg arm cmd ctx m1) = fst (handle_one ops bus2 agg arm cmd ctx m2)
    \<and> same_persisted (snd (handle_one ops bus1 agg arm cmd ctx m1))
        (snd (handle_one ops bus2 agg arm cmd ctx m2))"
  using handle_one_same [OF assms, of ops bus1 agg arm cmd ctx bus2] by (simp add: rel_prod_sel)

definition refusing_bus :: "(unit, nat) event_bus_ops" where
  "refusing_bus = \<lparr>bus_publish = (\<lambda>_ b. (Err (BusError (BoxMessage ''down'')), b))\<rparr>"

theorem publication_never_changes_outcome_witness:
  "fst (handle_one (mem_ops Suc (\<lambda>_. 0)) refusing_bus sum_type number_arm (''a'', 5)
      CorrelationContext_none \<lparr>m_store = mem_start 0 0, m_bus = (), m_index = [], m_next_seq = [],
        m_traced = []\<rparr>)
   = fst (handle_one (mem_ops Suc (\<lambda>_. 0)) fake_bus_ops sum_type number_arm (''a'', 5)
      CorrelationContext_none fresh_merger)"
  using publication_never_changes_outcome [of
      "\<lparr>m_store = mem_start 0 0, m_bus = (), m_index = [], m_next_seq = [], m_traced = []\<rparr>"
      fresh_merger "mem_ops Suc (\<lambda>_. 0)" refusing_bus sum_type number_arm "(''a'', 5)"
      CorrelationContext_none fake_bus_ops]
  by (simp add: same_persisted_def fresh_merger_def)

end
