(* ===== verification/Scheduler.thy ===== *)
theory Scheduler
  imports Mem_Store Event_Bus
begin

text \<open>
  Durable scheduling: the scheduler events and their fold (\<open>cherry-pit-core/src/scheduler.rs\<close>)
  and the driver over two event stores and a bus (\<open>cherry-pit-app/src/scheduler.rs\<close>). The
  driver's two stores are separate ports; what the driver relies on of them is the locale
  \<open>scheduler_stores\<close>, interpreted on two in-memory stores. The payload decoder and the event
  type's \<open>scheduled_event_id\<close> are parameters, as in the traits.
\<close>

record schedule_armed =
  armed_schedule_id :: schedule_id
  armed_fire_at :: timestamp
  armed_target_aggregate :: aggregate_id
  armed_caller_event_id :: uuid
  armed_caller_event_type :: string
  armed_payload :: "nat list"
  armed_correlation :: correlation_context

record schedule_fired =
  fired_schedule_id :: schedule_id
  fired_target_aggregate :: aggregate_id
  fired_caller_event_id :: uuid
  fired_caller_event_type :: string
  fired_payload :: "nat list"
  fired_correlation :: correlation_context

definition from_armed :: "schedule_armed \<Rightarrow> schedule_fired" where
  "from_armed a = \<lparr>fired_schedule_id = armed_schedule_id a,
    fired_target_aggregate = armed_target_aggregate a,
    fired_caller_event_id = armed_caller_event_id a,
    fired_caller_event_type = armed_caller_event_type a,
    fired_payload = armed_payload a, fired_correlation = armed_correlation a\<rparr>"

record schedule_cancelled =
  cancelled_schedule_id :: schedule_id

datatype scheduler_event =
    Armed schedule_armed
  | Fired schedule_fired
  | Cancelled schedule_cancelled

fun SchedulerEvent_event_type :: "scheduler_event \<Rightarrow> string" where
  "SchedulerEvent_event_type (Armed _) = ''scheduler.schedule_armed''"
| "SchedulerEvent_event_type (Fired _) = ''scheduler.schedule_fired''"
| "SchedulerEvent_event_type (Cancelled _) = ''scheduler.schedule_cancelled''"

record scheduler_state =
  pending :: "(schedule_id \<times> schedule_armed) list"
  fired :: "(schedule_id \<times> schedule_fired) list"
  cancelled :: "schedule_id set"

definition SchedulerState_default :: scheduler_state where
  "SchedulerState_default = \<lparr>pending = [], fired = [], cancelled = {}\<rparr>"

fun apply_scheduler_event :: "scheduler_event \<Rightarrow> scheduler_state \<Rightarrow> scheduler_state" where
  "apply_scheduler_event (Armed a) st = st\<lparr>cancelled := cancelled st - {armed_schedule_id a},
    pending := bt_insert (armed_schedule_id a) a (pending st)\<rparr>"
| "apply_scheduler_event (Fired f) st = st\<lparr>pending := bt_remove (fired_schedule_id f) (pending st),
    fired := bt_insert (fired_schedule_id f) f (fired st)\<rparr>"
| "apply_scheduler_event (Cancelled c) st =
    st\<lparr>pending := bt_remove (cancelled_schedule_id c) (pending st),
    cancelled := insert (cancelled_schedule_id c) (cancelled st)\<rparr>"

definition from_history :: "scheduler_event event_envelope list \<Rightarrow> scheduler_state" where
  "from_history hist = fold (\<lambda>env. apply_scheduler_event (env_payload env)) hist SchedulerState_default"

definition pending_schedule :: "scheduler_state \<Rightarrow> schedule_id \<Rightarrow> schedule_armed option" where
  "pending_schedule st sid = map_of (pending st) sid"

definition fired_schedule :: "scheduler_state \<Rightarrow> schedule_id \<Rightarrow> schedule_fired option" where
  "fired_schedule st sid = map_of (fired st) sid"

definition is_cancelled :: "scheduler_state \<Rightarrow> schedule_id \<Rightarrow> bool" where
  "is_cancelled st sid \<longleftrightarrow> sid \<in> cancelled st"

definition due_pending :: "scheduler_state \<Rightarrow> timestamp \<Rightarrow> schedule_armed list" where
  "due_pending st now = filter (\<lambda>a. armed_fire_at a \<le> now) (bt_values (pending st))"

record schedule_recovery_report =
  report_fired :: nat
  report_completed :: nat

section \<open>The driver\<close>

datatype schedule_fire_outcome = OutcomeFired | OutcomeTerminal | OutcomeUnknown | OutcomeNotDue

definition outcome_is_terminal :: "schedule_fire_outcome \<Rightarrow> bool" where
  "outcome_is_terminal outcome \<longleftrightarrow> outcome = OutcomeTerminal"

definition outcome_is_unknown :: "schedule_fire_outcome \<Rightarrow> bool" where
  "outcome_is_unknown outcome \<longleftrightarrow> outcome = OutcomeUnknown"

text \<open>The borrowed parts of \<open>DurableScheduler\<close>: immutable ones in \<open>driver\<close>, state in \<open>sched_world\<close>.\<close>

record ('ss, 'ts, 'b, 'e) driver =
  scheduler_ops :: "('ss, scheduler_event) event_store_ops"
  target_ops :: "('ts, 'e) event_store_ops"
  target_bus_ops :: "('b, 'e) event_bus_ops"
  decode :: "schedule_fired \<Rightarrow> (string, 'e) result"
  scheduled_event_id :: "'e \<Rightarrow> uuid"
  uuid_text :: "uuid \<Rightarrow> string"

record ('ss, 'ts, 'b) sched_world =
  scheduler_store :: 'ss
  target_store :: 'ts
  target_bus :: 'b

definition singleton_stream :: aggregate_id where
  "singleton_stream = AggregateId_new 1"

definition append_scheduler ::
  "('ss, 'ts, 'b, 'e) driver \<Rightarrow> scheduler_event \<Rightarrow> correlation_context \<Rightarrow> ('ss, 'ts, 'b) sched_world
    \<Rightarrow> (agent_error, unit) result \<times> ('ss, 'ts, 'b) sched_world" where
  "append_scheduler d event ctx w =
    (case es_load (scheduler_ops d) singleton_stream (scheduler_store w) of
      Inl e \<Rightarrow> (Err (Store e), w)
    | Inr hist \<Rightarrow>
      (case last_opt hist of
        Some l \<Rightarrow>
          (case es_append (scheduler_ops d) singleton_stream (env_sequence l) [event] ctx (scheduler_store w) of
            (Inl e, s') \<Rightarrow> (Err (Store e), w\<lparr>scheduler_store := s'\<rparr>)
          | (Inr _, s') \<Rightarrow> (Ok (), w\<lparr>scheduler_store := s'\<rparr>))
      | None \<Rightarrow>
          (case es_create (scheduler_ops d) [event] ctx (scheduler_store w) of
            (Inl e, s') \<Rightarrow> (Err (Store e), w\<lparr>scheduler_store := s'\<rparr>)
          | (Inr (created, _), s') \<Rightarrow>
              if created \<noteq> singleton_stream
              then (Err (Store (Infrastructure (BoxMessage (''scheduler stream must be ''
                @ AggregateId_fmt singleton_stream @ '', got '' @ AggregateId_fmt created)))),
                w\<lparr>scheduler_store := s'\<rparr>)
              else (Ok (), w\<lparr>scheduler_store := s'\<rparr>))))"

definition arm ::
  "('ss, 'ts, 'b, 'e) driver \<Rightarrow> schedule_armed \<Rightarrow> ('ss, 'ts, 'b) sched_world
    \<Rightarrow> (agent_error, unit) result \<times> ('ss, 'ts, 'b) sched_world" where
  "arm d event w = append_scheduler d (Armed event) (armed_correlation event) w"

definition cancel ::
  "('ss, 'ts, 'b, 'e) driver \<Rightarrow> schedule_cancelled \<Rightarrow> correlation_context \<Rightarrow> ('ss, 'ts, 'b) sched_world
    \<Rightarrow> (agent_error, unit) result \<times> ('ss, 'ts, 'b) sched_world" where
  "cancel d event ctx w = append_scheduler d (Cancelled event) ctx w"

definition complete_fired ::
  "('ss, 'ts, 'b, 'e) driver \<Rightarrow> schedule_fired \<Rightarrow> ('ss, 'ts, 'b) sched_world
    \<Rightarrow> (agent_error, bool) result \<times> ('ss, 'ts, 'b) sched_world" where
  "complete_fired d f w =
    (case es_load (target_ops d) (fired_target_aggregate f) (target_store w) of
      Inl e \<Rightarrow> (Err (Store e), w)
    | Inr hist \<Rightarrow>
      if \<exists>env \<in> set hist. scheduled_event_id d (env_payload env) = fired_caller_event_id f
      then (Ok False, w)
      else
        (case decode d f of
          Inl m \<Rightarrow> (Err (Policy (BoxForeign m)), w)
        | Inr event \<Rightarrow>
          (case last_opt hist of
            None \<Rightarrow> (Err (Store (Infrastructure (BoxMessage (''target aggregate ''
                @ AggregateId_fmt (fired_target_aggregate f) @ '' is empty for schedule ''
                @ uuid_text d (as_uuid (fired_schedule_id f)))))), w)
          | Some l \<Rightarrow>
            (case es_append (target_ops d) (fired_target_aggregate f) (env_sequence l) [event]
                (fired_correlation f) (target_store w) of
              (Inl e, s') \<Rightarrow> (Err (Store e), w\<lparr>target_store := s'\<rparr>)
            | (Inr envs, s') \<Rightarrow>
              (case bus_publish (target_bus_ops d) envs (target_bus w) of
                (Inl e, b') \<Rightarrow> (Err (Bus e), w\<lparr>target_store := s', target_bus := b'\<rparr>)
              | (Inr _, b') \<Rightarrow> (Ok True, w\<lparr>target_store := s', target_bus := b'\<rparr>))))))"

definition fire_schedule ::
  "('ss, 'ts, 'b, 'e) driver \<Rightarrow> schedule_id \<Rightarrow> timestamp \<Rightarrow> ('ss, 'ts, 'b) sched_world
    \<Rightarrow> (agent_error, schedule_fire_outcome) result \<times> ('ss, 'ts, 'b) sched_world" where
  "fire_schedule d sid now w =
    (case es_load (scheduler_ops d) singleton_stream (scheduler_store w) of
      Inl e \<Rightarrow> (Err (Store e), w)
    | Inr hist \<Rightarrow>
      let st = from_history hist in
      if fired_schedule st sid \<noteq> None \<or> is_cancelled st sid then (Ok OutcomeTerminal, w)
      else (case pending_schedule st sid of
        None \<Rightarrow> (Ok OutcomeUnknown, w)
      | Some armed \<Rightarrow>
        if armed_fire_at armed > now then (Ok OutcomeNotDue, w)
        else (case last_opt hist of
          None \<Rightarrow> (Ok OutcomeUnknown, w)
        | Some l \<Rightarrow>
          let f = from_armed armed in
          (case es_append (scheduler_ops d) singleton_stream (env_sequence l) [Fired f]
              (fired_correlation f) (scheduler_store w) of
            (Inl e, s') \<Rightarrow> (Err (Store e), w\<lparr>scheduler_store := s'\<rparr>)
          | (Inr _, s') \<Rightarrow>
            (case complete_fired d f (w\<lparr>scheduler_store := s'\<rparr>) of
              (Inl e, w') \<Rightarrow> (Err e, w')
            | (Inr _, w') \<Rightarrow> (Ok OutcomeFired, w'))))))"

text \<open>The two loops of \<open>recover_due\<close>; each returns at the first error.\<close>

fun complete_all ::
  "('ss, 'ts, 'b, 'e) driver \<Rightarrow> schedule_fired list \<Rightarrow> schedule_recovery_report \<Rightarrow> ('ss, 'ts, 'b) sched_world
    \<Rightarrow> (agent_error, schedule_recovery_report) result \<times> ('ss, 'ts, 'b) sched_world"
where
  "complete_all d [] report w = (Ok report, w)"
| "complete_all d (f # fs) report w =
    (case complete_fired d f w of
      (Inl e, w') \<Rightarrow> (Err e, w')
    | (Inr done_now, w') \<Rightarrow>
        complete_all d fs (if done_now then report\<lparr>report_completed := report_completed report + 1\<rparr>
          else report) w')"

fun fire_all ::
  "('ss, 'ts, 'b, 'e) driver \<Rightarrow> schedule_id list \<Rightarrow> timestamp \<Rightarrow> schedule_recovery_report
    \<Rightarrow> ('ss, 'ts, 'b) sched_world
    \<Rightarrow> (agent_error, schedule_recovery_report) result \<times> ('ss, 'ts, 'b) sched_world"
where
  "fire_all d [] now report w = (Ok report, w)"
| "fire_all d (sid # sids) now report w =
    (case fire_schedule d sid now w of
      (Inl e, w') \<Rightarrow> (Err e, w')
    | (Inr outcome, w') \<Rightarrow>
        fire_all d sids now (if outcome = OutcomeFired
          then report\<lparr>report_fired := report_fired report + 1,
            report_completed := report_completed report + 1\<rparr> else report) w')"

definition recover_due ::
  "('ss, 'ts, 'b, 'e) driver \<Rightarrow> timestamp \<Rightarrow> ('ss, 'ts, 'b) sched_world
    \<Rightarrow> (agent_error, schedule_recovery_report) result \<times> ('ss, 'ts, 'b) sched_world" where
  "recover_due d now w =
    (case es_load (scheduler_ops d) singleton_stream (scheduler_store w) of
      Inl e \<Rightarrow> (Err (Store e), w)
    | Inr hist \<Rightarrow>
      let st = from_history hist in
      (case complete_all d (bt_values (fired st)) \<lparr>report_fired = 0, report_completed = 0\<rparr> w of
        (Inl e, w') \<Rightarrow> (Err e, w')
      | (Inr report, w') \<Rightarrow>
          fire_all d (map armed_schedule_id (due_pending st now)) now report w'))"

text \<open>Completion never counts as firing.\<close>

lemma complete_all_fired:
  "complete_all d fs report w = (Ok report', w') \<Longrightarrow> report_fired report' = report_fired report"
  by (induction d fs report w rule: complete_all.induct) (auto split: prod.splits sum.splits if_splits)

section \<open>The fold\<close>

fun event_schedule :: "scheduler_event \<Rightarrow> schedule_id" where
  "event_schedule (Armed a) = armed_schedule_id a"
| "event_schedule (Fired f) = fired_schedule_id f"
| "event_schedule (Cancelled c) = cancelled_schedule_id c"

fun is_fired_event :: "scheduler_event \<Rightarrow> bool" where
  "is_fired_event (Fired _) = True"
| "is_fired_event _ = False"

text \<open>The last event of a kind about one schedule.\<close>

definition last_about :: "(scheduler_event \<Rightarrow> bool) \<Rightarrow> schedule_id \<Rightarrow> scheduler_event list \<Rightarrow> scheduler_event option" where
  "last_about P sid evs = last_opt (filter (\<lambda>e. P e \<and> event_schedule e = sid) evs)"

lemma last_about_Nil [simp]: "last_about P sid [] = None"
  by (simp add: last_about_def)

lemma last_about_snoc [simp]:
  "last_about P sid (evs @ [e]) = (if P e \<and> event_schedule e = sid then Some e else last_about P sid evs)"
  by (auto simp: last_about_def)

abbreviation state_of :: "scheduler_event list \<Rightarrow> scheduler_state" where
  "state_of evs \<equiv> fold apply_scheduler_event evs SchedulerState_default"

lemma from_history_payloads: "from_history hist = state_of (map env_payload hist)"
proof -
  have "fold (\<lambda>env. apply_scheduler_event (env_payload env)) hist st
      = fold apply_scheduler_event (map env_payload hist) st" for st
    by (induction hist arbitrary: st) auto
  then show ?thesis by (simp add: from_history_def)
qed

lemma pending_state_of:
  "pending_schedule (state_of evs) sid =
    (case last_about (\<lambda>_. True) sid evs of Some (Armed a) \<Rightarrow> Some a | _ \<Rightarrow> None)"
proof (induction evs rule: rev_induct)
  case (snoc e evs)
  then show ?case by (cases e) (auto simp: pending_schedule_def)
qed (simp add: pending_schedule_def SchedulerState_default_def)

lemma fired_state_of:
  "fired_schedule (state_of evs) sid =
    (case last_about is_fired_event sid evs of Some (Fired f) \<Rightarrow> Some f | _ \<Rightarrow> None)"
proof (induction evs rule: rev_induct)
  case (snoc e evs)
  then show ?case by (cases e) (auto simp: fired_schedule_def)
qed (simp add: fired_schedule_def SchedulerState_default_def)

lemma cancelled_state_of:
  "is_cancelled (state_of evs) sid \<longleftrightarrow>
    (case last_about (\<lambda>e. \<not> is_fired_event e) sid evs of Some (Cancelled c) \<Rightarrow> True | _ \<Rightarrow> False)"
proof (induction evs rule: rev_induct)
  case (snoc e evs)
  then show ?case by (cases e) (auto simp: is_cancelled_def)
qed (simp add: is_cancelled_def SchedulerState_default_def)

lemma state_of_wf: "bt_wf (pending (state_of evs)) \<and> bt_wf (fired (state_of evs))"
proof (induction evs rule: rev_induct)
  case (snoc e evs)
  then show ?case by (cases e) auto
qed (simp add: SchedulerState_default_def)

text \<open>A schedule id was fired exactly when the history holds a \<open>Fired\<close> event for it.\<close>

lemma last_about_None: "last_about P sid evs = None \<longleftrightarrow> (\<forall>e \<in> set evs. \<not> (P e \<and> event_schedule e = sid))"
  by (auto simp: last_about_def filter_empty_conv)

lemma last_about_Some: "last_about P sid evs = Some e \<Longrightarrow> e \<in> set evs \<and> P e \<and> event_schedule e = sid"
proof -
  assume "last_about P sid evs = Some e"
  then have "e \<in> set (filter (\<lambda>e. P e \<and> event_schedule e = sid) evs)"
    unfolding last_about_def last_opt_Some using last_in_set by blast
  then show ?thesis by simp
qed

lemma fired_schedule_iff:
  "fired_schedule (state_of evs) sid \<noteq> None \<longleftrightarrow> (\<exists>f. Fired f \<in> set evs \<and> fired_schedule_id f = sid)"
proof (cases "last_about is_fired_event sid evs")
  case None
  from None [unfolded last_about_None] show ?thesis
    by (simp add: fired_state_of None) force
next
  case (Some e)
  from last_about_Some [OF this] obtain f where "e = Fired f" by (cases e) auto
  with Some last_about_Some [OF Some] show ?thesis by (auto simp: fired_state_of)
qed

lemma pending_armed_id: "pending_schedule (state_of evs) sid = Some a \<Longrightarrow> armed_schedule_id a = sid"
  unfolding pending_state_of
  by (auto split: option.splits scheduler_event.splits dest: last_about_Some)

text \<open>
  The replayed scheduler state is determined by the last event about each schedule: it is
  pending with the last arming exactly when the last event about it is that arming, it is
  cancelled exactly when it was cancelled and not armed again since, and the fire record kept
  for it is the last one ever made, which no later arming or cancellation removes.
\<close>

theorem scheduler_state_by_last_event:
  "pending_schedule (from_history hist) sid
      = (case last_about (\<lambda>_. True) sid (map env_payload hist) of Some (Armed a) \<Rightarrow> Some a | _ \<Rightarrow> None)
   \<and> fired_schedule (from_history hist) sid
      = (case last_about is_fired_event sid (map env_payload hist) of Some (Fired f) \<Rightarrow> Some f | _ \<Rightarrow> None)
   \<and> (is_cancelled (from_history hist) sid \<longleftrightarrow>
        (case last_about (\<lambda>e. \<not> is_fired_event e) sid (map env_payload hist) of
          Some (Cancelled c) \<Rightarrow> True | _ \<Rightarrow> False))"
  unfolding from_history_payloads
  by (intro conjI pending_state_of fired_state_of cancelled_state_of)

section \<open>What the driver relies on\<close>

definition world_inv :: "('ss \<Rightarrow> bool) \<Rightarrow> ('ts \<Rightarrow> bool) \<Rightarrow> ('ss, 'ts, 'b) sched_world \<Rightarrow> bool" where
  "world_inv sinv tinv w \<longleftrightarrow> sinv (scheduler_store w) \<and> tinv (target_store w)"

text \<open>The scheduler's facts and the target's events, without their envelopes.\<close>

definition scheduler_facts ::
  "('ss \<Rightarrow> aggregate_id \<Rightarrow> scheduler_event event_envelope list) \<Rightarrow> ('ss, 'ts, 'b) sched_world
    \<Rightarrow> scheduler_event list" where
  "scheduler_facts sstream w = map env_payload (sstream (scheduler_store w) singleton_stream)"

definition target_events ::
  "('ts \<Rightarrow> aggregate_id \<Rightarrow> 'e event_envelope list) \<Rightarrow> ('ss, 'ts, 'b) sched_world \<Rightarrow> aggregate_id \<Rightarrow> 'e list" where
  "target_events tstream w i = map env_payload (tstream (target_store w) i)"

definition completions :: "('e \<Rightarrow> uuid) \<Rightarrow> 'e list \<Rightarrow> uuid \<Rightarrow> nat" where
  "completions event_id evs eid = length (filter (\<lambda>e. event_id e = eid) evs)"

definition fire_count :: "scheduler_event list \<Rightarrow> schedule_id \<Rightarrow> nat" where
  "fire_count evs sid = length (filter (\<lambda>e. is_fired_event e \<and> event_schedule e = sid) evs)"

text \<open>A decoder yields the event that the fire record names (documented on the trait).\<close>

definition faithful_decoder :: "('ss, 'ts, 'b, 'e) driver \<Rightarrow> bool" where
  "faithful_decoder d \<longleftrightarrow>
    (\<forall>f e. decode d f = Ok e \<longrightarrow> scheduled_event_id d e = fired_caller_event_id f)"

text \<open>
  What no operation of the driver breaks: histories only grow, no schedule is fired twice, no
  caller event is recorded twice in a stream.
\<close>

definition grows_once ::
  "('e \<Rightarrow> uuid) \<Rightarrow> scheduler_event list \<Rightarrow> (aggregate_id \<Rightarrow> 'e list)
    \<Rightarrow> scheduler_event list \<Rightarrow> (aggregate_id \<Rightarrow> 'e list) \<Rightarrow> bool" where
  "grows_once event_id fs evs fs' evs' \<longleftrightarrow>
    prefix fs fs' \<and> (\<forall>i. prefix (evs i) (evs' i))
    \<and> (\<forall>sid. fire_count fs sid \<le> 1 \<longrightarrow> fire_count fs' sid \<le> 1)
    \<and> (\<forall>i eid. completions event_id (evs i) eid \<le> 1 \<longrightarrow> completions event_id (evs' i) eid \<le> 1)"

lemma grows_once_refl [simp]: "grows_once event_id fs evs fs evs"
  by (simp add: grows_once_def)

lemma grows_once_trans:
  "grows_once event_id a b c e \<Longrightarrow> grows_once event_id c e f g \<Longrightarrow> grows_once event_id a b f g"
  unfolding grows_once_def by (intro conjI allI; blast intro: prefix_order.trans)

lemma grows_once_fact:
  "\<not> is_fired_event ev \<or> fire_count fs (event_schedule ev) = 0 \<Longrightarrow>
    grows_once event_id fs evs (fs @ [ev]) evs"
  by (auto simp: grows_once_def fire_count_def)

lemma grows_once_event:
  "completions event_id (evs i) (event_id ev) = 0 \<Longrightarrow>
    grows_once event_id fs evs fs (evs(i := evs i @ [ev]))"
  by (auto simp: grows_once_def completions_def)

lemma fire_count_zero: "fire_count fs sid = 0 \<longleftrightarrow> fired_schedule (state_of fs) sid = None"
  using fired_schedule_iff [of fs sid]
  by (force simp: fire_count_def filter_empty_conv elim: is_fired_event.elims)

lemma completions_zero:
  "completions event_id evs eid = 0 \<longleftrightarrow> (\<forall>e \<in> set evs. event_id e \<noteq> eid)"
  by (simp add: completions_def filter_empty_conv)

text \<open>A schedule needs nothing more from recovery at \<open>now\<close>.\<close>

definition settled :: "timestamp \<Rightarrow> scheduler_event list \<Rightarrow> schedule_id \<Rightarrow> bool" where
  "settled now fs sid \<longleftrightarrow>
    (case pending_schedule (state_of fs) sid of
      Some a \<Rightarrow> armed_fire_at a > now \<or> fired_schedule (state_of fs) sid \<noteq> None
    | None \<Rightarrow> True)"

definition completed :: "('e \<Rightarrow> uuid) \<Rightarrow> (aggregate_id \<Rightarrow> 'e list) \<Rightarrow> schedule_fired \<Rightarrow> bool" where
  "completed event_id evs f \<longleftrightarrow>
    (\<exists>e \<in> set (evs (fired_target_aggregate f)). event_id e = fired_caller_event_id f)"

definition all_completed :: "('e \<Rightarrow> uuid) \<Rightarrow> scheduler_event list \<Rightarrow> (aggregate_id \<Rightarrow> 'e list) \<Rightarrow> bool" where
  "all_completed event_id fs evs \<longleftrightarrow>
    (\<forall>sid. case fired_schedule (state_of fs) sid of Some f \<Rightarrow> completed event_id evs f | None \<Rightarrow> True)"

lemma all_completed_fired:
  "all_completed event_id fs evs \<Longrightarrow> completed event_id evs f \<Longrightarrow> all_completed event_id (fs @ [Fired f]) evs"
  by (auto simp: all_completed_def fired_schedule_def)

lemma all_completed_values:
  assumes "\<forall>f \<in> set (bt_values (fired (state_of fs))). completed event_id evs f"
  shows "all_completed event_id fs evs"
proof -
  have "completed event_id evs f" if "fired_schedule (state_of fs) sid = Some f" for sid f
    using assms that [unfolded fired_schedule_def, THEN map_of_SomeD] by (force simp: bt_values_def)
  then show ?thesis by (simp add: all_completed_def split: option.splits)
qed

lemma completed_grows:
  "grows_once event_id fs evs fs' evs' \<Longrightarrow> completed event_id evs f \<Longrightarrow> completed event_id evs' f"
  unfolding grows_once_def completed_def using set_mono_prefix by blast

lemma all_completed_grows:
  "grows_once event_id fs evs fs' evs' \<Longrightarrow> all_completed event_id gs evs \<Longrightarrow> all_completed event_id gs evs'"
  unfolding all_completed_def by (auto split: option.splits dest: completed_grows)

lemma settled_fired: "settled now fs sid \<or> fired_schedule_id f = sid \<Longrightarrow> settled now (fs @ [Fired f]) sid"
  by (auto simp: settled_def pending_schedule_def fired_schedule_def split: option.splits)

lemma pending_not_cancelled: "pending_schedule (state_of fs) sid = Some a \<Longrightarrow> \<not> is_cancelled (state_of fs) sid"
proof (induction fs rule: rev_induct)
  case (snoc e fs)
  then show ?case by (cases e) (auto simp: pending_schedule_def is_cancelled_def split: if_splits)
qed (simp add: pending_schedule_def SchedulerState_default_def)

lemma due_listed:
  assumes "\<not> settled now fs sid"
  shows "sid \<in> set (map armed_schedule_id (due_pending (state_of fs) now))"
proof -
  from assms obtain a where a: "pending_schedule (state_of fs) sid = Some a" "armed_fire_at a \<le> now"
    by (auto simp: settled_def split: option.splits)
  then have "(sid, a) \<in> set (pending (state_of fs))" by (simp add: pending_schedule_def map_of_SomeD)
  then have "a \<in> set (due_pending (state_of fs) now)"
    using a(2) by (force simp: due_pending_def bt_values_def)
  with pending_armed_id [OF a(1)] show ?thesis by force
qed

text \<open>Every schedule on record can be completed: its payload decodes, its target has a history.\<close>

definition completable :: "('ss, 'ts, 'b, 'e) driver \<Rightarrow> (aggregate_id \<Rightarrow> 'e list) \<Rightarrow> schedule_fired \<Rightarrow> bool" where
  "completable d evs f \<longleftrightarrow> is_ok (decode d f) \<and> evs (fired_target_aggregate f) \<noteq> []"

definition ready :: "('ss, 'ts, 'b, 'e) driver \<Rightarrow> scheduler_event list \<Rightarrow> (aggregate_id \<Rightarrow> 'e list) \<Rightarrow> bool" where
  "ready d fs evs \<longleftrightarrow> (\<forall>ev \<in> set fs. case ev of Armed a \<Rightarrow> completable d evs (from_armed a)
    | Fired f \<Rightarrow> completable d evs f | Cancelled c \<Rightarrow> True)"

lemma completable_grows:
  "grows_once event_id fs evs fs' evs' \<Longrightarrow> completable d evs f \<Longrightarrow> completable d evs' f"
  by (auto simp: grows_once_def completable_def) (metis prefix_Nil)

lemma ready_grows: "grows_once event_id fs evs fs' evs' \<Longrightarrow> ready d gs evs \<Longrightarrow> ready d gs evs'"
  unfolding ready_def by (auto split: scheduler_event.splits intro: completable_grows)

lemma ready_pending:
  assumes "ready d fs evs" "pending_schedule (state_of fs) sid = Some a"
  shows "completable d evs (from_armed a)"
proof -
  have "last_about (\<lambda>_. True) sid fs = Some (Armed a)"
    using assms(2) by (auto simp: pending_state_of split: option.splits scheduler_event.splits)
  from last_about_Some [OF this] assms(1) show ?thesis by (force simp: ready_def)
qed

lemma ready_fired:
  assumes "ready d fs evs" "f \<in> set (bt_values (fired (state_of fs)))"
  shows "completable d evs f"
proof -
  from assms(2) obtain sid where "(sid, f) \<in> set (fired (state_of fs))" by (auto simp: bt_values_def)
  then have "fired_schedule (state_of fs) sid = Some f"
    using bt_wf_distinct [OF state_of_wf [THEN conjunct2]] by (simp add: fired_schedule_def map_of_is_SomeI)
  then have "last_about is_fired_event sid fs = Some (Fired f)"
    by (auto simp: fired_state_of split: option.splits scheduler_event.splits)
  from last_about_Some [OF this] assms(1) show ?thesis by (force simp: ready_def)
qed

text \<open>A program: a sequence of calls of the scheduler port, none of them stopping the next.\<close>

datatype sched_call =
  CallArm schedule_armed
| CallCancel schedule_cancelled correlation_context
| CallFire schedule_id timestamp
| CallRecover timestamp

fun sched_call_step :: "('ss, 'ts, 'b, 'e) driver \<Rightarrow> sched_call \<Rightarrow> ('ss, 'ts, 'b) sched_world \<Rightarrow> ('ss, 'ts, 'b) sched_world" where
  "sched_call_step d (CallArm a) w = snd (arm d a w)"
| "sched_call_step d (CallCancel c ctx) w = snd (cancel d c ctx w)"
| "sched_call_step d (CallFire sid now) w = snd (fire_schedule d sid now w)"
| "sched_call_step d (CallRecover now) w = snd (recover_due d now w)"

definition sched_run :: "('ss, 'ts, 'b, 'e) driver \<Rightarrow> sched_call list \<Rightarrow> ('ss, 'ts, 'b) sched_world \<Rightarrow> ('ss, 'ts, 'b) sched_world" where
  "sched_run d calls w = fold (sched_call_step d) calls w"

locale scheduler_stores =
  sched: event_store "scheduler_ops d" sinv sstream + target: event_store "target_ops d" tinv tstream
  for d :: "('ss, 'ts, 'b, 'e) driver"
    and sinv :: "'ss \<Rightarrow> bool"
    and sstream :: "'ss \<Rightarrow> aggregate_id \<Rightarrow> scheduler_event event_envelope list"
    and tinv :: "'ts \<Rightarrow> bool"
    and tstream :: "'ts \<Rightarrow> aggregate_id \<Rightarrow> 'e event_envelope list"
begin

abbreviation "winv \<equiv> world_inv sinv tinv"
abbreviation "facts \<equiv> scheduler_facts sstream"
abbreviation "events_of \<equiv> target_events tstream"

lemma facts_update [simp]:
  "facts (w\<lparr>target_store := t\<rparr>) = facts w" "facts (w\<lparr>target_bus := b\<rparr>) = facts w"
  "events_of (w\<lparr>scheduler_store := s\<rparr>) = events_of w" "events_of (w\<lparr>target_bus := b\<rparr>) = events_of w"
  "winv (w\<lparr>target_bus := b\<rparr>) = winv w"
  by (auto simp: scheduler_facts_def target_events_def world_inv_def fun_eq_iff)

lemma load_facts:
  "winv w \<Longrightarrow> es_load (scheduler_ops d) singleton_stream (scheduler_store w) = Ok hist \<Longrightarrow>
    map env_payload hist = facts w"
  using sched.load_stream by (auto simp: world_inv_def scheduler_facts_def)

lemma load_events:
  "winv w \<Longrightarrow> es_load (target_ops d) i (target_store w) = Ok hist \<Longrightarrow> map env_payload hist = events_of w i"
  using target.load_stream by (auto simp: world_inv_def target_events_def)

lemma sched_append:
  assumes "winv w" "es_append (scheduler_ops d) singleton_stream n [ev] ctx (scheduler_store w) = (r, s')"
  shows "winv (w\<lparr>scheduler_store := s'\<rparr>)"
    "facts (w\<lparr>scheduler_store := s'\<rparr>) = facts w \<or> facts (w\<lparr>scheduler_store := s'\<rparr>) = facts w @ [ev]"
    "is_ok r \<Longrightarrow> facts (w\<lparr>scheduler_store := s'\<rparr>) = facts w @ [ev]"
proof -
  have s: "sinv (scheduler_store w)" using assms(1) by (simp add: world_inv_def)
  show "winv (w\<lparr>scheduler_store := s'\<rparr>)"
    using assms sched.append_inv [OF s assms(2)] by (simp add: world_inv_def)
  have ok: "facts (w\<lparr>scheduler_store := s'\<rparr>) = facts w @ [ev]" if "r = Inr envs" for envs
    using sched.append_ok [OF s _ assms(2) [unfolded that]] by (simp add: scheduler_facts_def records_def)
  then show "is_ok r \<Longrightarrow> facts (w\<lparr>scheduler_store := s'\<rparr>) = facts w @ [ev]"
    by (auto simp: is_ok_iff)
  show "facts (w\<lparr>scheduler_store := s'\<rparr>) = facts w \<or> facts (w\<lparr>scheduler_store := s'\<rparr>) = facts w @ [ev]"
  proof (cases r)
    case (Inl e)
    then have "maybe_appended singleton_stream [ev] ctx (sstream (scheduler_store w)) (sstream s')"
      using sched.append_err [OF s, of singleton_stream n "[ev]" ctx e s'] assms(2)
      by (auto simp: maybe_appended_def split: if_splits)
    then show ?thesis by (auto simp: maybe_appended_def scheduler_facts_def records_def)
  qed (use ok in blast)
qed

lemma target_append:
  assumes "winv w" "es_append (target_ops d) i n [ev] ctx (target_store w) = (r, t')"
  shows "winv (w\<lparr>target_store := t'\<rparr>)"
    "events_of (w\<lparr>target_store := t'\<rparr>) = events_of w
      \<or> events_of (w\<lparr>target_store := t'\<rparr>) = (events_of w)(i := events_of w i @ [ev])"
    "is_ok r \<Longrightarrow> events_of (w\<lparr>target_store := t'\<rparr>) = (events_of w)(i := events_of w i @ [ev])"
proof -
  have t: "tinv (target_store w)" using assms(1) by (simp add: world_inv_def)
  show "winv (w\<lparr>target_store := t'\<rparr>)"
    using assms target.append_inv [OF t assms(2)] by (simp add: world_inv_def)
  have ok: "events_of (w\<lparr>target_store := t'\<rparr>) = (events_of w)(i := events_of w i @ [ev])"
    if "r = Inr envs" for envs
    using target.append_ok [OF t _ assms(2) [unfolded that]]
    by (auto simp: target_events_def records_def fun_eq_iff)
  then show "is_ok r \<Longrightarrow> events_of (w\<lparr>target_store := t'\<rparr>) = (events_of w)(i := events_of w i @ [ev])"
    by (auto simp: is_ok_iff)
  show "events_of (w\<lparr>target_store := t'\<rparr>) = events_of w
      \<or> events_of (w\<lparr>target_store := t'\<rparr>) = (events_of w)(i := events_of w i @ [ev])"
  proof (cases r)
    case (Inl e)
    then have "maybe_appended i [ev] ctx (tstream (target_store w)) (tstream t')"
      using target.append_err [OF t, of i n "[ev]" ctx e t'] assms(2)
      by (auto simp: maybe_appended_def split: if_splits)
    then show ?thesis by (auto simp: maybe_appended_def target_events_def records_def fun_eq_iff)
  qed (use ok in blast)
qed

abbreviation "gstep w w' \<equiv> grows_once (scheduled_event_id d) (facts w) (events_of w) (facts w') (events_of w')"

lemma append_scheduler_step:
  assumes w: "winv w" and ev: "\<not> is_fired_event ev" and call: "append_scheduler d ev ctx w = (r, w')"
  shows "winv w' \<and> gstep w w' \<and> (is_ok r \<longrightarrow> facts w' = facts w @ [ev])"
proof (cases "es_load (scheduler_ops d) singleton_stream (scheduler_store w)")
  case (Inl e)
  with call w show ?thesis by (auto simp: append_scheduler_def)
next
  case (Inr hist)
  have s: "sinv (scheduler_store w)" using w by (simp add: world_inv_def)
  show ?thesis
  proof (cases "last_opt hist")
    case None
    have empty: "facts w = []" using load_facts [OF w Inr] None by simp
    obtain rc s' where c: "es_create (scheduler_ops d) [ev] ctx (scheduler_store w) = (rc, s')" by fastforce
    have w': "w' = w\<lparr>scheduler_store := s'\<rparr>"
      using call Inr None c by (auto simp: append_scheduler_def split: sum.splits if_splits)
    have inv': "winv w'" using w' w sched.create_inv [OF s c] by (simp add: world_inv_def)
    have "facts w' = [] \<or> facts w' = [ev]"
    proof (cases rc)
      case (Inl e)
      then have "maybe_created [ev] ctx (sstream (scheduler_store w)) (sstream s')"
        using sched.create_err [OF s, of "[ev]" ctx e s'] c
        by (auto simp: maybe_created_def split: if_splits)
      with empty w' show ?thesis by (auto simp: maybe_created_def scheduler_facts_def records_def)
    next
      case (Inr ie)
      with sched.create_ok [OF s, of "[ev]" ctx "fst ie" "snd ie" s'] c empty w'
      show ?thesis by (auto simp: scheduler_facts_def records_def)
    qed
    moreover have "facts w' = [ev]" if "is_ok r"
    proof -
      have "\<exists>envs. rc = Inr (singleton_stream, envs)"
        using that call Inr None c by (auto simp: append_scheduler_def split: sum.splits if_splits)
      then obtain envs where "rc = Inr (singleton_stream, envs)" ..
      with sched.create_ok [OF s, of "[ev]" ctx singleton_stream envs s'] c w'
      show ?thesis by (auto simp: scheduler_facts_def records_def)
    qed
    ultimately show ?thesis
      using empty inv' ev w' grows_once_fact [of ev "[]"] by auto
  next
    case (Some l)
    obtain ra s' where a: "es_append (scheduler_ops d) singleton_stream (env_sequence l) [ev] ctx
        (scheduler_store w) = (ra, s')" by fastforce
    have "w' = w\<lparr>scheduler_store := s'\<rparr>" "is_ok r \<longleftrightarrow> is_ok ra"
      using call Inr Some a by (auto simp: append_scheduler_def split: sum.splits)
    with sched_append [OF w a] ev show ?thesis by (auto intro: grows_once_fact)
  qed
qed

lemma complete_fired_step:
  assumes w: "winv w" and dec: "faithful_decoder d" and call: "complete_fired d f w = (r, w')"
  shows "winv w' \<and> gstep w w' \<and> facts w' = facts w \<and>
    (is_ok r \<longrightarrow> completed (scheduled_event_id d) (events_of w') f)"
proof (cases "es_load (target_ops d) (fired_target_aggregate f) (target_store w)")
  case (Inl e)
  with call w show ?thesis by (auto simp: complete_fired_def completed_def)
next
  case (Inr hist)
  let ?i = "fired_target_aggregate f" and ?eid = "fired_caller_event_id f"
  have hist: "map env_payload hist = events_of w ?i" by (rule load_events [OF w Inr])
  then have found: "(\<exists>env \<in> set hist. scheduled_event_id d (env_payload env) = ?eid) \<longleftrightarrow>
      (\<exists>e \<in> set (events_of w ?i). scheduled_event_id d e = ?eid)"
    by (metis (mono_tags, lifting) imageE imageI list.set_map)
  show ?thesis
  proof (cases "\<exists>e \<in> set (events_of w ?i). scheduled_event_id d e = ?eid")
    case True
    with call w Inr found show ?thesis by (auto simp: complete_fired_def completed_def)
  next
    case False
    note absent = False
    show ?thesis
    proof (cases "decode d f")
      case (Inl m)
      with call w Inr found absent \<open>es_load _ _ _ = _\<close> show ?thesis by (auto simp: complete_fired_def completed_def)
    next
      case (Inr ev)
      note decoded = Inr
      have id: "scheduled_event_id d ev = ?eid"
        using dec decoded by (simp add: faithful_decoder_def)
      show ?thesis
      proof (cases "last_opt hist")
        case None
        with call w found absent decoded \<open>es_load _ _ _ = _\<close> show ?thesis
          by (auto simp: complete_fired_def completed_def)
      next
        case (Some l)
        obtain ra t' where a: "es_append (target_ops d) ?i (env_sequence l) [ev] (fired_correlation f)
            (target_store w) = (ra, t')" by fastforce
        note ta = target_append [OF w a]
        have grow: "grows_once (scheduled_event_id d) (facts w) (events_of w) (facts w)
            (events_of (w\<lparr>target_store := t'\<rparr>))"
          using ta(2) absent id grows_once_event [of "scheduled_event_id d" "events_of w" ?i ev "facts w"]
          by (auto simp: completions_zero)
        have w': "winv w' \<and> facts w' = facts w \<and> events_of w' = events_of (w\<lparr>target_store := t'\<rparr>)
            \<and> (is_ok r \<longrightarrow> is_ok ra)"
          using call w found absent decoded Some a ta(1) \<open>es_load _ _ _ = _\<close>
          by (auto simp: complete_fired_def split: sum.splits prod.splits)
        moreover have "ev \<in> set (events_of w' ?i)" if "is_ok r" using w' that ta(3) by simp
        ultimately show ?thesis using grow id by (auto simp: completed_def)
      qed
    qed
  qed
qed

abbreviation "done_in w f \<equiv> completed (scheduled_event_id d) (events_of w) f"

lemma fire_schedule_step:
  assumes w: "winv w" and dec: "faithful_decoder d" and call: "fire_schedule d sid now w = (r, w')"
  shows "winv w' \<and> gstep w w' \<and>
    (\<forall>out. r = Ok out \<longrightarrow> settled now (facts w') sid \<and>
      (if out = OutcomeFired
       then \<exists>a. pending_schedule (state_of (facts w)) sid = Some a \<and> armed_fire_at a \<le> now
          \<and> facts w' = facts w @ [Fired (from_armed a)] \<and> done_in w' (from_armed a)
       else w' = w))"
proof (cases "es_load (scheduler_ops d) singleton_stream (scheduler_store w)")
  case (Inl e)
  with call w show ?thesis by (auto simp: fire_schedule_def)
next
  case (Inr hist)
  note loaded = Inr
  let ?st = "state_of (facts w)"
  have st: "from_history hist = ?st" using load_facts [OF w loaded] by (simp add: from_history_payloads)
  note eqs = fire_schedule_def loaded st Let_def
  consider (terminal) "fired_schedule ?st sid \<noteq> None \<or> is_cancelled ?st sid"
    | (unknown) "fired_schedule ?st sid = None" "\<not> is_cancelled ?st sid" "pending_schedule ?st sid = None"
    | (later) a where "fired_schedule ?st sid = None" "\<not> is_cancelled ?st sid"
        "pending_schedule ?st sid = Some a" "armed_fire_at a > now"
    | (due) a where "fired_schedule ?st sid = None" "\<not> is_cancelled ?st sid"
        "pending_schedule ?st sid = Some a" "armed_fire_at a \<le> now"
    by fastforce
  then show ?thesis
  proof cases
    case terminal
    then have "settled now (facts w) sid"
      using pending_not_cancelled [of "facts w" sid] by (auto simp: settled_def split: option.splits)
    with terminal call w show ?thesis by (auto simp: eqs)
  next
    case unknown
    with call w show ?thesis by (auto simp: eqs settled_def)
  next
    case later
    with call w show ?thesis by (auto simp: eqs settled_def)
  next
    case due
    then have "facts w \<noteq> []" by (auto simp: pending_schedule_def SchedulerState_default_def)
    then obtain l where l: "last_opt hist = Some l" using load_facts [OF w loaded] by (cases hist rule: rev_cases) auto
    let ?f = "from_armed a"
    have sid: "fired_schedule_id ?f = sid" using pending_armed_id [OF due(3)] by (simp add: from_armed_def)
    obtain ra s' where ap: "es_append (scheduler_ops d) singleton_stream (env_sequence l) [Fired ?f]
        (fired_correlation ?f) (scheduler_store w) = (ra, s')" by fastforce
    let ?w1 = "w\<lparr>scheduler_store := s'\<rparr>"
    note sa = sched_append [OF w ap]
    have g1: "gstep w ?w1"
      using sa(2) due(1) sid grows_once_fact [of "Fired ?f" "facts w"] by (auto simp: fire_count_zero)
    show ?thesis
    proof (cases ra)
      case (Inl e)
      with call due l ap sa(1) g1 show ?thesis by (auto simp: eqs)
    next
      case (Inr envs)
      obtain rc w2 where c: "complete_fired d ?f ?w1 = (rc, w2)" by fastforce
      note cf = complete_fired_step [OF sa(1) dec c]
      have w2: "w' = w2" "r = (case rc of Inl e \<Rightarrow> Err e | Inr _ \<Rightarrow> Ok OutcomeFired)"
        using call due l ap Inr c by (auto simp: eqs split: sum.splits)
      have facts2: "facts w2 = facts w @ [Fired ?f]" using cf sa(3) Inr by simp
      have "settled now (facts w2) sid" unfolding facts2 using sid by (intro settled_fired) simp
      moreover have "gstep w w2" using g1 cf by (blast intro: grows_once_trans)
      ultimately show ?thesis using cf facts2 w2 due by (auto split: sum.splits)
    qed
  qed
qed

lemma complete_all_step:
  assumes "winv w" and dec: "faithful_decoder d" and "complete_all d fs report w = (r, w')"
  shows "winv w' \<and> gstep w w' \<and> facts w' = facts w \<and> (is_ok r \<longrightarrow> (\<forall>f \<in> set fs. done_in w' f))"
  using assms(1,3)
proof (induction fs arbitrary: report w)
  case (Cons f fs)
  obtain rc w1 where c: "complete_fired d f w = (rc, w1)" by fastforce
  note step = complete_fired_step [OF Cons.prems(1) dec c]
  show ?case
  proof (cases rc)
    case (Inl e)
    with Cons.prems(2) c step show ?thesis by auto
  next
    case (Inr b)
    then obtain report' where "complete_all d fs report' w1 = (r, w')"
      using Cons.prems(2) c by auto
    with Cons.IH step have "winv w' \<and> gstep w1 w' \<and> facts w' = facts w1
        \<and> (is_ok r \<longrightarrow> (\<forall>f \<in> set fs. done_in w' f))" by blast
    with step Inr show ?thesis by (auto intro: grows_once_trans completed_grows)
  qed
qed simp

abbreviation "all_done w \<equiv> all_completed (scheduled_event_id d) (facts w) (events_of w)"

lemma fire_all_step:
  assumes "winv w" and dec: "faithful_decoder d" and "fire_all d sids now report w = (r, w')"
  shows "winv w' \<and> gstep w w' \<and>
    (\<forall>report'. r = Ok report' \<longrightarrow> all_done w \<longrightarrow> all_done w'
      \<and> (\<forall>sid. settled now (facts w) sid \<or> sid \<in> set sids \<longrightarrow> settled now (facts w') sid)
      \<and> length (facts w') + report_fired report = length (facts w) + report_fired report')"
  using assms(1,3)
proof (induction sids arbitrary: report w)
  case (Cons s sids)
  obtain rf w1 where c: "fire_schedule d s now w = (rf, w1)" by fastforce
  note step = fire_schedule_step [OF Cons.prems(1) dec c]
  show ?case
  proof (cases rf)
    case (Inl e)
    with Cons.prems(2) c step show ?thesis by auto
  next
    case (Inr out)
    define rep where "rep = (if out = OutcomeFired
          then report\<lparr>report_fired := report_fired report + 1,
            report_completed := report_completed report + 1\<rparr> else report)"
    have rest: "fire_all d sids now rep w1 = (r, w')"
      using Cons.prems(2) c Inr by (simp add: rep_def)
    have w1: "winv w1" "gstep w w1" "settled now (facts w1) s" using step Inr by auto
    note IH = Cons.IH [OF w1(1) rest]
    have facts1: "all_done w \<longrightarrow> all_done w1
        \<and> (\<forall>sid. settled now (facts w) sid \<longrightarrow> settled now (facts w1) sid)
        \<and> length (facts w1) + report_fired report = length (facts w) + report_fired rep"
    proof (cases "out = OutcomeFired")
      case True
      then obtain f where f: "facts w1 = facts w @ [Fired f]" "done_in w1 f"
        using step Inr by auto
      show ?thesis
        using f(1) all_completed_fired [OF _ f(2)] all_completed_grows [OF w1(2)] True
        by (auto simp: rep_def settled_fired)
    next
      case False
      with step Inr show ?thesis by (auto simp: rep_def)
    qed
    show ?thesis
    proof (intro conjI allI impI)
      show "winv w'" "gstep w w'" using IH grows_once_trans [OF w1(2)] by auto
    next
      fix report' assume ok: "r = Ok report'" and d: "all_done w"
      then show "all_done w'" using IH facts1 by blast
      show "length (facts w') + report_fired report = length (facts w) + report_fired report'"
        using IH facts1 ok d by fastforce
      fix sid assume "settled now (facts w) sid \<or> sid \<in> set (s # sids)"
      then have "settled now (facts w1) sid \<or> sid \<in> set sids" using facts1 d w1(3) by auto
      then show "settled now (facts w') sid" using IH facts1 ok d by blast
    qed
  qed
qed auto

lemma recover_due_step:
  assumes w: "winv w" and dec: "faithful_decoder d" and call: "recover_due d now w = (r, w')"
  shows "winv w' \<and> gstep w w' \<and>
    (\<forall>report. r = Ok report \<longrightarrow> all_done w' \<and> (\<forall>sid. settled now (facts w') sid)
      \<and> length (facts w') = length (facts w) + report_fired report)"
proof (cases "es_load (scheduler_ops d) singleton_stream (scheduler_store w)")
  case (Inl e)
  with call w show ?thesis by (auto simp: recover_due_def)
next
  case (Inr hist)
  let ?st = "state_of (facts w)" and ?r0 = "\<lparr>report_fired = 0, report_completed = 0\<rparr>"
  have st: "from_history hist = ?st" using load_facts [OF w Inr] by (simp add: from_history_payloads)
  obtain rc w1 where c: "complete_all d (bt_values (fired ?st)) ?r0 w = (rc, w1)" by fastforce
  note first = complete_all_step [OF w dec c]
  show ?thesis
  proof (cases rc)
    case (Inl e)
    with call c first st \<open>es_load _ _ _ = _\<close> show ?thesis by (auto simp: recover_due_def Let_def)
  next
    case (Inr report)
    have rest: "fire_all d (map armed_schedule_id (due_pending ?st now)) now report w1 = (r, w')"
      using call c Inr st \<open>es_load _ _ _ = _\<close> by (simp add: recover_due_def Let_def)
    have w1: "winv w1" "gstep w w1" "facts w1 = facts w" "all_done w1"
      using first Inr all_completed_values by (auto simp: is_ok_iff)
    note second = fire_all_step [OF w1(1) dec rest]
    have "report_fired report = 0"
      using complete_all_fired [of d] c Inr by fastforce
    with second w1 due_listed [of now "facts w"] show ?thesis
      using grows_once_trans [OF w1(2)] by force
  qed
qed

lemma sched_call_step_step:
  assumes "winv w" and dec: "faithful_decoder d"
  shows "winv (sched_call_step d c w) \<and> gstep w (sched_call_step d c w)"
proof (cases c)
  case (CallArm a)
  with append_scheduler_step [OF assms(1), of "Armed a" _ "fst (arm d a w)" "snd (arm d a w)"]
  show ?thesis by (simp add: arm_def)
next
  case (CallCancel a ctx)
  with append_scheduler_step [OF assms(1), of "Cancelled a" _ "fst (cancel d a ctx w)" "snd (cancel d a ctx w)"]
  show ?thesis by (simp add: cancel_def)
next
  case (CallFire sid now)
  with fire_schedule_step [OF assms, of sid now "fst (fire_schedule d sid now w)"] show ?thesis by simp
next
  case (CallRecover now)
  with recover_due_step [OF assms, of now "fst (recover_due d now w)"] show ?thesis by simp
qed

lemma sched_run_step:
  assumes "winv w" and dec: "faithful_decoder d"
  shows "winv (sched_run d cs w) \<and> gstep w (sched_run d cs w)"
  using assms(1)
proof (induction cs arbitrary: w)
  case (Cons c cs)
  note step = sched_call_step_step [OF Cons.prems dec, of c]
  with Cons.IH [of "sched_call_step d c w"] show ?case
    by (auto simp: sched_run_def intro: grows_once_trans)
qed (simp add: sched_run_def)

end

text \<open>Stores without transient failures: then a due schedule does fire.\<close>

locale responsive_scheduler = scheduler_stores d sinv sstream tinv tstream
  + sched: responsive_event_store "scheduler_ops d" sinv sstream sroom
  + target: responsive_event_store "target_ops d" tinv tstream troom
  for d :: "('ss, 'ts, 'b, 'e) driver"
    and sinv :: "'ss \<Rightarrow> bool" and sstream :: "'ss \<Rightarrow> aggregate_id \<Rightarrow> scheduler_event event_envelope list"
    and tinv :: "'ts \<Rightarrow> bool" and tstream :: "'ts \<Rightarrow> aggregate_id \<Rightarrow> 'e event_envelope list"
    and sroom :: "'ss \<Rightarrow> nat \<Rightarrow> bool" and troom :: "'ts \<Rightarrow> nat \<Rightarrow> bool"
begin

lemma complete_fired_ok:
  assumes w: "winv w" and room: "troom (target_store w) (Suc n)" and f: "completable d (events_of w) f"
    and bus: "\<And>envs b. is_ok (fst (bus_publish (target_bus_ops d) envs b))"
  shows "\<exists>b w'. complete_fired d f w = (Ok b, w') \<and> scheduler_store w' = scheduler_store w
    \<and> troom (target_store w') n"
proof -
  let ?i = "fired_target_aggregate f" and ?t = "target_store w"
  have t: "tinv ?t" using w by (simp add: world_inv_def)
  obtain ev where ev: "decode d f = Ok ev" using f by (auto simp: completable_def is_ok_iff)
  have tne: "tstream ?t ?i \<noteq> []" using f by (simp add: completable_def target_events_def)
  obtain envs t' where a: "es_append (target_ops d) ?i (length (tstream ?t ?i)) [ev] (fired_correlation f) ?t
      = (Inr envs, t')" "troom t' n" using target.append_one [OF t room tne] by blast
  obtain b' where b: "bus_publish (target_bus_ops d) envs (target_bus w) = (Ok (), b')"
    using bus [of envs "target_bus w"] by (cases "bus_publish (target_bus_ops d) envs (target_bus w)") (auto simp: is_ok_iff)
  have l: "last_opt (tstream ?t ?i) = Some (last (tstream ?t ?i))" using tne by (simp add: last_opt_Some)
  have sq: "env_sequence (last (tstream ?t ?i)) = length (tstream ?t ?i)"
    using target.load_last_seq [OF t target.load_total [OF t] tne] .
  show ?thesis
    using a b l sq ev room target.room_less
    by (auto simp: complete_fired_def target.load_total [OF t])
qed

lemma fire_schedule_ok:
  assumes w: "winv w" and sroom: "sroom (scheduler_store w) (Suc n)" and troom: "troom (target_store w) (Suc m)"
    and ready: "ready d (facts w) (events_of w)"
    and bus: "\<And>envs b. is_ok (fst (bus_publish (target_bus_ops d) envs b))"
  shows "\<exists>out w'. fire_schedule d sid now w = (Ok out, w')
    \<and> sroom (scheduler_store w') n \<and> troom (target_store w') m"
proof -
  let ?s = "scheduler_store w"
  let ?h = "sstream ?s singleton_stream" and ?st = "state_of (facts w)"
  have s: "sinv ?s" using w by (simp add: world_inv_def)
  have st: "from_history ?h = ?st" by (simp add: from_history_payloads scheduler_facts_def)
  note eqs = fire_schedule_def sched.load_total [OF s] st Let_def
  note less = sched.room_less [OF sroom] target.room_less [OF troom]
  show ?thesis
  proof (cases "pending_schedule ?st sid")
    case None
    with less show ?thesis by (auto simp: eqs)
  next
    case (Some a)
    show ?thesis
    proof (cases "armed_fire_at a > now \<or> fired_schedule ?st sid \<noteq> None")
      case True
      with Some less show ?thesis by (auto simp: eqs)
    next
      case False
      let ?f = "from_armed a"
      have hne: "?h \<noteq> []"
        using Some by (auto simp: scheduler_facts_def pending_schedule_def SchedulerState_default_def)
      then have l: "last_opt ?h = Some (last ?h)" by (simp add: last_opt_Some)
      obtain envs s' where ap: "es_append (scheduler_ops d) singleton_stream (length ?h) [Fired ?f]
          (fired_correlation ?f) ?s = (Inr envs, s')" "sroom s' n"
        using sched.append_one [OF s sroom hne] by blast
      have sq: "env_sequence (last ?h) = length ?h"
        using sched.load_last_seq [OF s sched.load_total [OF s] hne] .
      have w1: "winv (w\<lparr>scheduler_store := s'\<rparr>)" using sched_append(1) [OF w ap(1)] .
      obtain b w' where c: "complete_fired d ?f (w\<lparr>scheduler_store := s'\<rparr>) = (Ok b, w')"
          "scheduler_store w' = s'" "troom (target_store w') m"
        using complete_fired_ok [OF w1, of m ?f] troom ready_pending [OF ready Some] bus by auto
      show ?thesis
        using Some False pending_not_cancelled [OF Some] l ap sq c by (auto simp: eqs)
    qed
  qed
qed

lemma complete_all_ok:
  assumes "winv w" and dec: "faithful_decoder d" and "troom (target_store w) (length fs + n)"
    and "\<forall>f \<in> set fs. completable d (events_of w) f"
    and bus: "\<And>envs b. is_ok (fst (bus_publish (target_bus_ops d) envs b))"
  shows "\<exists>report' w'. complete_all d fs report w = (Ok report', w')
    \<and> scheduler_store w' = scheduler_store w \<and> troom (target_store w') n"
  using assms(1,3,4)
proof (induction fs arbitrary: report w)
  case (Cons f fs)
  obtain b w1 where c: "complete_fired d f w = (Ok b, w1)" "scheduler_store w1 = scheduler_store w"
      "troom (target_store w1) (length fs + n)"
    using complete_fired_ok [OF Cons.prems(1) _ _ bus, of "length fs + n" f] Cons.prems(2,3) by auto
  note step = complete_fired_step [OF Cons.prems(1) dec c(1)]
  then have "\<forall>f \<in> set fs. completable d (events_of w1) f"
    using Cons.prems(3) by (auto intro: completable_grows)
  with Cons.IH [OF conjunct1 [OF step] c(3)] c show ?case by simp
qed simp

lemma fire_schedule_ready:
  assumes w: "winv w" and dec: "faithful_decoder d" and call: "fire_schedule d sid now w = (Ok out, w')"
    and ready: "ready d (facts w) (events_of w)"
  shows "ready d (facts w') (events_of w')"
proof -
  note step = fire_schedule_step [OF w dec call]
  then have old: "ready d (facts w) (events_of w')" using ready by (blast intro: ready_grows)
  show ?thesis
  proof (cases "out = OutcomeFired")
    case True
    then obtain a where "pending_schedule (state_of (facts w)) sid = Some a"
        "facts w' = facts w @ [Fired (from_armed a)]" using step by auto
    with ready_pending [OF old] old show ?thesis by (auto simp: ready_def)
  qed (use step ready in auto)
qed

lemma fire_all_ok:
  assumes "winv w" and dec: "faithful_decoder d" and "sroom (scheduler_store w) (length sids)"
    and "troom (target_store w) (length sids)" and "ready d (facts w) (events_of w)"
    and bus: "\<And>envs b. is_ok (fst (bus_publish (target_bus_ops d) envs b))"
  shows "\<exists>report' w'. fire_all d sids now report w = (Ok report', w')"
  using assms(1,3-5)
proof (induction sids arbitrary: report w)
  case (Cons s sids)
  obtain out w1 where c: "fire_schedule d s now w = (Ok out, w1)"
      "sroom (scheduler_store w1) (length sids)" "troom (target_store w1) (length sids)"
    using fire_schedule_ok [OF Cons.prems(1) _ _ Cons.prems(4) bus, of "length sids" "length sids" s now]
      Cons.prems(2,3) by auto
  have "winv w1" using fire_schedule_step [OF Cons.prems(1) dec c(1)] by blast
  from Cons.IH [OF this c(2,3) fire_schedule_ready [OF Cons.prems(1) dec c(1) Cons.prems(4)]] c(1)
  show ?case by simp
qed simp

lemma recover_due_ok:
  assumes w: "winv w" and dec: "faithful_decoder d" and ready: "ready d (facts w) (events_of w)"
    and sroom: "sroom (scheduler_store w) (length (due_pending (state_of (facts w)) now))"
    and troom: "troom (target_store w)
      (length (fired (state_of (facts w))) + length (due_pending (state_of (facts w)) now))"
    and bus: "\<And>envs b. is_ok (fst (bus_publish (target_bus_ops d) envs b))"
  shows "\<exists>report w'. recover_due d now w = (Ok report, w')"
proof -
  let ?st = "state_of (facts w)"
  let ?r0 = "\<lparr>report_fired = 0, report_completed = 0\<rparr>" and ?due = "map armed_schedule_id (due_pending ?st now)"
  have s: "sinv (scheduler_store w)" using w by (simp add: world_inv_def)
  have st: "from_history (sstream (scheduler_store w) singleton_stream) = ?st"
    by (simp add: from_history_payloads scheduler_facts_def)
  have room: "troom (target_store w) (length (bt_values (fired ?st)) + length ?due)"
    using troom by (simp add: bt_values_def)
  obtain report w1 where c: "complete_all d (bt_values (fired ?st)) ?r0 w = (Ok report, w1)"
      "scheduler_store w1 = scheduler_store w" "troom (target_store w1) (length ?due)"
    using complete_all_ok [OF w dec room _ bus] ready_fired [OF ready] by blast
  note step = complete_all_step [OF w dec c(1)]
  have "ready d (facts w1) (events_of w1)" using step ready by (auto intro: ready_grows)
  with fire_all_ok [OF conjunct1 [OF step] dec, of ?due now report] c sroom bus
  obtain report' w' where "fire_all d ?due now report w1 = (Ok report', w')" by auto
  with c show ?thesis by (simp add: recover_due_def sched.load_total [OF s] st Let_def)
qed

end

section \<open>The driver over two in-memory stores\<close>

definition mem_driver ::
  "(nat \<Rightarrow> uuid) \<Rightarrow> (nat \<Rightarrow> timestamp) \<Rightarrow> ('b, 'e) event_bus_ops \<Rightarrow> (schedule_fired \<Rightarrow> (string, 'e) result)
    \<Rightarrow> ('e \<Rightarrow> uuid) \<Rightarrow> (uuid \<Rightarrow> string) \<Rightarrow> (scheduler_event mem_world, 'e mem_world, 'b, 'e) driver" where
  "mem_driver v7 ts bus decoder event_id render =
    \<lparr>scheduler_ops = mem_ops v7 ts, target_ops = mem_ops v7 ts, target_bus_ops = bus,
      decode = decoder, scheduled_event_id = event_id, uuid_text = render\<rparr>"

lemma mem_driver_simps [simp]:
  "scheduler_ops (mem_driver v7 ts bus decoder event_id render) = mem_ops v7 ts"
  "target_ops (mem_driver v7 ts bus decoder event_id render) = mem_ops v7 ts"
  "target_bus_ops (mem_driver v7 ts bus decoder event_id render) = bus"
  "decode (mem_driver v7 ts bus decoder event_id render) = decoder"
  "scheduled_event_id (mem_driver v7 ts bus decoder event_id render) = event_id"
  "uuid_text (mem_driver v7 ts bus decoder event_id render) = render"
  by (simp_all add: mem_driver_def)

interpretation mem_sched: responsive_scheduler "mem_driver v7 ts bus decoder event_id render"
    "mem_inv v7" mem_stream "mem_inv v7" mem_stream mem_room mem_room
  for v7 ts bus decoder event_id render
  by (intro responsive_scheduler.intro scheduler_stores.intro;
    simp only: mem_driver_simps; rule mem.event_store_axioms mem.responsive_event_store_axioms)

text \<open>
  C3. At most once: for every pair of conforming event stores, every bus and every sequence of
  arm, cancel, fire and recover calls, including writes that fail and writes whose outcome
  stays unknown, no schedule gets a second \<open>Fired\<close> fact and no target stream a second copy of a
  caller event; facts and target events are never lost or reordered.
\<close>

theorem scheduler_at_most_once:
  assumes "scheduler_stores d sinv sstream tinv tstream" and "world_inv sinv tinv w" and "faithful_decoder d"
    and "fire_count (scheduler_facts sstream w) sid \<le> 1"
    and "completions (scheduled_event_id d) (target_events tstream w i) eid \<le> 1"
  shows "fire_count (scheduler_facts sstream (sched_run d calls w)) sid \<le> 1
    \<and> completions (scheduled_event_id d) (target_events tstream (sched_run d calls w) i) eid \<le> 1
    \<and> prefix (scheduler_facts sstream w) (scheduler_facts sstream (sched_run d calls w))
    \<and> prefix (target_events tstream w i) (target_events tstream (sched_run d calls w) i)"
  using scheduler_stores.sched_run_step [OF assms(1-3), of calls] assms(4,5)
  unfolding grows_once_def by blast

text \<open>A target whose events are their own ids, with one event recorded.\<close>

definition sample_driver :: "(scheduler_event mem_world, nat mem_world, nat fake_bus, nat) driver" where
  "sample_driver = mem_driver Suc (\<lambda>_. 0) fake_bus_ops (\<lambda>f. Ok (fired_caller_event_id f)) (\<lambda>e. e) show_nat"

definition sample_armed :: schedule_armed where
  "sample_armed = \<lparr>armed_schedule_id = ScheduleId 3, armed_fire_at = 5, armed_target_aggregate = AggregateId 1,
    armed_caller_event_id = 42, armed_caller_event_type = ''due'', armed_payload = [],
    armed_correlation = CorrelationContext_none\<rparr>"

definition sample_world :: "(scheduler_event mem_world, nat mem_world, nat fake_bus) sched_world" where
  "sample_world = \<lparr>scheduler_store = mem_start 0 0,
    target_store = mem_run Suc (\<lambda>_. 0) [CallCreate [7] CorrelationContext_none] (mem_start 0 0),
    target_bus = FakeBus_new\<rparr>"

definition armed_world :: "(scheduler_event mem_world, nat mem_world, nat fake_bus) sched_world" where
  "armed_world = sample_world\<lparr>scheduler_store :=
    mem_run Suc (\<lambda>_. 0) [CallCreate [Armed sample_armed] CorrelationContext_none] (mem_start 0 0)\<rparr>"

lemma sample_facts:
  "scheduler_facts mem_stream sample_world = []"
  "target_events mem_stream sample_world (AggregateId 1) = [7]"
  "scheduler_facts mem_stream armed_world = [Armed sample_armed]"
  "target_events mem_stream armed_world (AggregateId 1) = [7]"
  by (simp_all add: scheduler_facts_def target_events_def sample_world_def armed_world_def mem_run_def
      mem_eval singleton_stream_def AggregateId_new_def)

lemma sample_inv:
  "world_inv (mem_inv Suc) (mem_inv Suc) sample_world" "world_inv (mem_inv Suc) (mem_inv Suc) armed_world"
  by (auto simp: world_inv_def sample_world_def armed_world_def
      intro!: mem_run_inv mem_inv_start fresh_uuids_Suc)

lemma sample_faithful: "faithful_decoder sample_driver"
  by (simp add: faithful_decoder_def sample_driver_def)

theorem scheduler_at_most_once_witness:
  "fire_count (scheduler_facts mem_stream (sched_run sample_driver
      [CallArm sample_armed, CallFire (ScheduleId 3) 10, CallFire (ScheduleId 3) 10, CallRecover 10]
      sample_world)) (ScheduleId 3) \<le> 1
   \<and> completions (scheduled_event_id sample_driver) (target_events mem_stream (sched_run sample_driver
      [CallArm sample_armed, CallFire (ScheduleId 3) 10, CallFire (ScheduleId 3) 10, CallRecover 10]
      sample_world) (AggregateId 1)) 42 \<le> 1"
proof -
  have stores: "scheduler_stores sample_driver (mem_inv Suc) mem_stream (mem_inv Suc) mem_stream"
    unfolding sample_driver_def by (rule mem_sched.scheduler_stores_axioms)
  have start: "fire_count (scheduler_facts mem_stream sample_world) (ScheduleId 3) \<le> 1"
      "completions (scheduled_event_id sample_driver) (target_events mem_stream sample_world (AggregateId 1)) 42 \<le> 1"
    by (simp_all only: sample_facts) (simp_all add: fire_count_def completions_def)
  show ?thesis
    using scheduler_at_most_once [OF stores sample_inv(1) sample_faithful start] by blast
qed

text \<open>
  C13. Recovery, over any two stores that keep the port's contract and any bus. Whatever it returns, no
  fact and no target event is lost or reordered. When it returns a report, the caller event of every
  fire record is in its target stream, no armed schedule that was never fired is due any more, and
  the report counts exactly the \<open>Fired\<close> facts added. It does return a report, from any state a crash
  can leave, on stores that answer and have room for one event per due schedule and per fire record,
  with a bus that accepts, when the payloads of all recorded schedules decode and none of their
  targets is empty.
\<close>

theorem recover_due_completes:
  assumes "scheduler_stores d sinv sstream tinv tstream" "world_inv sinv tinv w" "faithful_decoder d"
    and "recover_due d now w = (r, w')"
    and "fs = scheduler_facts sstream w" "evs = target_events tstream w"
  shows "prefix fs (scheduler_facts sstream w') \<and> (\<forall>i. prefix (evs i) (target_events tstream w' i))
    \<and> (\<forall>report. r = Ok report \<longrightarrow>
        all_completed (scheduled_event_id d) (scheduler_facts sstream w') (target_events tstream w')
        \<and> (\<forall>sid. settled now (scheduler_facts sstream w') sid)
        \<and> length (scheduler_facts sstream w') = length fs + report_fired report)
    \<and> (responsive_scheduler d sinv sstream tinv tstream sroom troom \<and> ready d fs evs
        \<and> sroom (scheduler_store w) (length (due_pending (state_of fs) now))
        \<and> troom (target_store w) (length (fired (state_of fs)) + length (due_pending (state_of fs) now))
        \<and> (\<forall>envs b. is_ok (fst (bus_publish (target_bus_ops d) envs b)))
        \<longrightarrow> (\<exists>report. r = Ok report))"
proof -
  note step = scheduler_stores.recover_due_step [OF assms(1-4)]
  have "\<exists>report. r = Ok report"
    if "responsive_scheduler d sinv sstream tinv tstream sroom troom" "ready d fs evs"
      "sroom (scheduler_store w) (length (due_pending (state_of fs) now))"
      "troom (target_store w) (length (fired (state_of fs)) + length (due_pending (state_of fs) now))"
      "\<forall>envs b. is_ok (fst (bus_publish (target_bus_ops d) envs b))"
    using responsive_scheduler.recover_due_ok [OF that(1) assms(2,3) that(2-4) [unfolded assms(5,6)]] that(5) assms(4) by auto
  then show ?thesis using step unfolding assms(5,6) grows_once_def by blast
qed

theorem recover_due_completes_witness:
  "\<exists>report w'. recover_due sample_driver 10 armed_world = (Ok report, w')
    \<and> all_completed (\<lambda>e. e) (scheduler_facts mem_stream w') (target_events mem_stream w')
    \<and> (\<forall>sid. settled 10 (scheduler_facts mem_stream w') sid)
    \<and> length (scheduler_facts mem_stream w') = 1 + report_fired report"
proof -
  let ?fs = "[Armed sample_armed]" and ?evs = "target_events mem_stream armed_world"
  have stores: "scheduler_stores sample_driver (mem_inv Suc) mem_stream (mem_inv Suc) mem_stream"
      "responsive_scheduler sample_driver (mem_inv Suc) mem_stream (mem_inv Suc) mem_stream mem_room mem_room"
    unfolding sample_driver_def by (rule mem_sched.scheduler_stores_axioms mem_sched.responsive_scheduler_axioms)+
  obtain r w' where call: "recover_due sample_driver 10 armed_world = (r, w')" by fastforce
  have "ready sample_driver ?fs ?evs"
    by (simp add: ready_def completable_def sample_driver_def from_armed_def sample_armed_def
        sample_facts(4) [unfolded One_nat_def])
  moreover have "mem_room (scheduler_store armed_world) 1" "mem_room (target_store armed_world) 1"
    by (auto simp: mem_room_def armed_world_def sample_world_def mem_run_def mem_eval u64_max_def)
  moreover have "length (due_pending (state_of ?fs) 10) = 1" "fired (state_of ?fs) = []"
    by (simp_all add: due_pending_def SchedulerState_default_def sample_armed_def bt_values_def)
  moreover have "\<forall>envs b. is_ok (fst (bus_publish (target_bus_ops sample_driver) envs b))"
      "scheduled_event_id sample_driver = (\<lambda>e. e)"
    by (simp_all add: sample_driver_def fake_bus_ops_def FakeBus_publish_def)
  moreover note main = recover_due_completes [OF stores(1) sample_inv(2) sample_faithful call sample_facts(3) [symmetric] refl,
      of mem_room mem_room]
  ultimately obtain report where "r = Ok report" using stores(2) by force
  then show ?thesis using call main \<open>scheduled_event_id sample_driver = (\<lambda>e. e)\<close> by auto
qed

text \<open>
  The outcome of \<open>fire_schedule\<close> on every branch. A schedule that was fired or cancelled is
  terminal, one that was never armed unknown, one armed for later not due, and none of these
  changes anything. A due one is fired: exactly its fire record is added and its caller event
  is in the target stream. In particular a fired schedule that is armed again stays terminal.
\<close>

theorem fire_schedule_outcomes:
  fixes w :: "(scheduler_event mem_world, 'e mem_world, 'b) sched_world"
  defines "st \<equiv> state_of (scheduler_facts mem_stream w)"
  assumes "world_inv (mem_inv v7) (mem_inv v7) w"
    and "faithful_decoder (mem_driver v7 ts bus decoder event_id render)"
    and "ready (mem_driver v7 ts bus decoder event_id render) (scheduler_facts mem_stream w) (target_events mem_stream w)"
    and "mem_room (scheduler_store w) 1" and "mem_room (target_store w) 1"
    and "\<And>envs b. is_ok (fst (bus_publish bus envs b))"
  shows "if fired_schedule st sid \<noteq> None \<or> is_cancelled st sid
    then fire_schedule (mem_driver v7 ts bus decoder event_id render) sid now w = (Ok OutcomeTerminal, w)
    else case pending_schedule st sid of
      None \<Rightarrow> fire_schedule (mem_driver v7 ts bus decoder event_id render) sid now w = (Ok OutcomeUnknown, w)
    | Some a \<Rightarrow>
      if armed_fire_at a > now
      then fire_schedule (mem_driver v7 ts bus decoder event_id render) sid now w = (Ok OutcomeNotDue, w)
      else \<exists>w'. fire_schedule (mem_driver v7 ts bus decoder event_id render) sid now w = (Ok OutcomeFired, w')
        \<and> scheduler_facts mem_stream w' = scheduler_facts mem_stream w @ [Fired (from_armed a)]
        \<and> completed event_id (target_events mem_stream w') (from_armed a)"
proof -
  let ?d = "mem_driver v7 ts bus decoder event_id render"
  have st: "from_history (mem_stream (scheduler_store w) singleton_stream) = st"
    by (simp add: from_history_payloads scheduler_facts_def st_def)
  have load: "es_load (mem_ops v7 ts) singleton_stream (scheduler_store w)
      = Ok (mem_stream (scheduler_store w) singleton_stream)"
    using assms(2) by (intro mem.load_total) (simp add: world_inv_def)
  note eqs = fire_schedule_def load st Let_def
  obtain out w' where call: "fire_schedule ?d sid now w = (Ok out, w')"
    using mem_sched.fire_schedule_ok [OF assms(2) _ _ assms(4), of 0 0 sid now] assms(5-7) by auto
  note step = mem_sched.fire_schedule_step [OF assms(2,3) call]
  have due: "out = OutcomeFired" if "fired_schedule st sid = None" "\<not> is_cancelled st sid"
      "pending_schedule st sid = Some a" "armed_fire_at a \<le> now" for a
  proof -
    have "mem_stream (scheduler_store w) singleton_stream \<noteq> []"
      using that(3) by (auto simp: st_def scheduler_facts_def pending_schedule_def SchedulerState_default_def)
    then obtain l where "last_opt (mem_stream (scheduler_store w) singleton_stream) = Some l"
      by (simp add: last_opt_Some)
    with call that show ?thesis by (auto simp: eqs split: prod.splits sum.splits)
  qed
  have other: "fired_schedule st sid \<noteq> None \<or> is_cancelled st sid
        \<Longrightarrow> fire_schedule ?d sid now w = (Ok OutcomeTerminal, w)"
      "fired_schedule st sid = None \<Longrightarrow> \<not> is_cancelled st sid \<Longrightarrow> pending_schedule st sid = None
        \<Longrightarrow> fire_schedule ?d sid now w = (Ok OutcomeUnknown, w)"
      "fired_schedule st sid = None \<Longrightarrow> \<not> is_cancelled st sid \<Longrightarrow> pending_schedule st sid = Some a
        \<Longrightarrow> armed_fire_at a > now \<Longrightarrow> fire_schedule ?d sid now w = (Ok OutcomeNotDue, w)" for a
    by (simp_all add: eqs)
  have "\<exists>w'. fire_schedule ?d sid now w = (Ok OutcomeFired, w')
      \<and> scheduler_facts mem_stream w' = scheduler_facts mem_stream w @ [Fired (from_armed a)]
      \<and> completed event_id (target_events mem_stream w') (from_armed a)"
    if "fired_schedule st sid = None" "\<not> is_cancelled st sid" "pending_schedule st sid = Some a"
      "armed_fire_at a \<le> now" for a
    using due [OF that] call step that(3) by (auto simp: st_def)
  with other show ?thesis by (auto split: option.split)
qed

text \<open>A schedule armed for time 5 is fired at time 10.\<close>

theorem fire_schedule_outcomes_witness:
  "\<exists>w'. fire_schedule sample_driver (ScheduleId 3) 10 armed_world = (Ok OutcomeFired, w')
    \<and> scheduler_facts mem_stream w' = [Armed sample_armed, Fired (from_armed sample_armed)]
    \<and> completed (\<lambda>e. e) (target_events mem_stream w') (from_armed sample_armed)"
proof -
  have "ready sample_driver [Armed sample_armed] (target_events mem_stream armed_world)"
    by (simp add: ready_def completable_def sample_driver_def from_armed_def sample_armed_def
        sample_facts(4) [unfolded One_nat_def])
  moreover have "mem_room (scheduler_store armed_world) 1" "mem_room (target_store armed_world) 1"
    by (auto simp: mem_room_def armed_world_def sample_world_def mem_run_def mem_eval u64_max_def)
  moreover have "pending_schedule (state_of [Armed sample_armed]) (ScheduleId 3) = Some sample_armed"
      "fired_schedule (state_of [Armed sample_armed]) (ScheduleId 3) = None"
      "\<not> is_cancelled (state_of [Armed sample_armed]) (ScheduleId 3)" "\<not> 10 < armed_fire_at sample_armed"
    by (simp_all add: pending_schedule_def fired_schedule_def is_cancelled_def SchedulerState_default_def
        sample_armed_def)
  moreover have "is_ok (fst (bus_publish fake_bus_ops envs b))" for envs and b :: "nat fake_bus"
    by (simp add: fake_bus_ops_def FakeBus_publish_def)
  ultimately show ?thesis
    using fire_schedule_outcomes [of Suc armed_world "\<lambda>_. 0" fake_bus_ops "\<lambda>f. Ok (fired_caller_event_id f)"
        "\<lambda>e. e" show_nat "ScheduleId 3" 10] sample_inv(2) sample_faithful
    unfolding sample_facts sample_driver_def by simp
qed

end
