(* ===== verification/Channel.thy ===== *)
theory Channel
  imports Prelude
begin

text \<open>
  The bounded tokio channel, which the application and the work queue both use and neither
  defines: its operations are a parameter, and what the code relies on is the predicate
  \<open>mpsc_contract\<close>. A bounded list satisfies it.
\<close>

datatype try_send_error = Full | Closed

record ('c, 'm) channel_ops =
  try_send :: "'m \<Rightarrow> 'c \<Rightarrow> (try_send_error, unit) result \<times> 'c"
  try_recv :: "'c \<Rightarrow> ('m \<times> 'c) option"
  close_receiver :: "'c \<Rightarrow> 'c"

text \<open>
  The documented behaviour of a bounded tokio channel: FIFO, \<open>Full\<close> only at capacity, \<open>Closed\<close>
  only after the receiver is gone, whose messages are dropped with it.
\<close>

definition mpsc_contract ::
  "('c, 'm) channel_ops \<Rightarrow> ('c \<Rightarrow> 'm list) \<Rightarrow> nat \<Rightarrow> ('c \<Rightarrow> bool) \<Rightarrow> bool" where
  "mpsc_contract ch queued capacity closed \<longleftrightarrow>
    (\<forall>m c. case try_send ch m c of
        (Inr _, c') \<Rightarrow> \<not> closed c \<and> length (queued c) < capacity \<and> queued c' = queued c @ [m] \<and> \<not> closed c'
      | (Inl Full, c') \<Rightarrow> \<not> closed c \<and> capacity \<le> length (queued c) \<and> queued c' = queued c \<and> \<not> closed c'
      | (Inl Closed, c') \<Rightarrow> closed c \<and> queued c' = queued c \<and> closed c')
    \<and> (\<forall>c. case try_recv ch c of
        None \<Rightarrow> queued c = []
      | Some (m, c') \<Rightarrow> queued c = m # queued c' \<and> (closed c' \<longleftrightarrow> closed c))
    \<and> (\<forall>c. closed (close_receiver ch c) \<and> queued (close_receiver ch c) = [])"

lemma send_cases:
  assumes "mpsc_contract ch queued capacity closed" "try_send ch m c = (r, c')"
  obtains (sent) "r = Ok ()" "\<not> closed c" "\<not> closed c'" "length (queued c) < capacity"
      "queued c' = queued c @ [m]"
    | (full) "r = Err Full" "\<not> closed c" "\<not> closed c'" "capacity \<le> length (queued c)" "queued c' = queued c"
    | (gone) "r = Err Closed" "closed c" "closed c'" "queued c' = queued c"
proof -
  have "case try_send ch m c of
        (Inr _, c') \<Rightarrow> \<not> closed c \<and> length (queued c) < capacity \<and> queued c' = queued c @ [m] \<and> \<not> closed c'
      | (Inl Full, c') \<Rightarrow> \<not> closed c \<and> capacity \<le> length (queued c) \<and> queued c' = queued c \<and> \<not> closed c'
      | (Inl Closed, c') \<Rightarrow> closed c \<and> queued c' = queued c \<and> closed c'"
    using assms(1) [unfolded mpsc_contract_def] by (elim conjE) (erule allE, erule allE)
  with assms(2) that show thesis by (auto split: sum.splits try_send_error.splits)
qed

lemma recv_cases:
  assumes "mpsc_contract ch queued capacity closed"
  shows "try_recv ch c = Some (m, c') \<Longrightarrow> queued c = m # queued c' \<and> (closed c' \<longleftrightarrow> closed c)"
    and "try_recv ch c = None \<Longrightarrow> queued c = []"
proof -
  have "case try_recv ch c of None \<Rightarrow> queued c = []
      | Some (m, c') \<Rightarrow> queued c = m # queued c' \<and> (closed c' \<longleftrightarrow> closed c)"
    using assms unfolding mpsc_contract_def by blast
  then show "try_recv ch c = Some (m, c') \<Longrightarrow> queued c = m # queued c' \<and> (closed c' \<longleftrightarrow> closed c)"
    "try_recv ch c = None \<Longrightarrow> queued c = []" by auto
qed

section \<open>A bounded list\<close>

record 'm list_channel =
  items :: "'m list"
  receiver_gone :: bool

definition list_channel_ops :: "nat \<Rightarrow> ('m list_channel, 'm) channel_ops" where
  "list_channel_ops capacity = \<lparr>
    try_send = (\<lambda>m c. if receiver_gone c then (Err Closed, c)
      else if length (items c) < capacity then (Ok (), c\<lparr>items := items c @ [m]\<rparr>) else (Err Full, c)),
    try_recv = (\<lambda>c. case items c of [] \<Rightarrow> None | m # ms \<Rightarrow> Some (m, c\<lparr>items := ms\<rparr>)),
    close_receiver = (\<lambda>c. c\<lparr>items := [], receiver_gone := True\<rparr>)\<rparr>"

lemma list_channel_contract: "mpsc_contract (list_channel_ops capacity) items capacity receiver_gone"
  by (auto simp: mpsc_contract_def list_channel_ops_def split: list.splits)

end
