(* ===== verification/App_Dispatch.thy ===== *)
theory App_Dispatch
  imports Core_Event Channel "HOL-Library.Sublist"
begin

text \<open>
  Policy dispatch of the application layer: the dead-letter record and sink
  (\<open>cherry-pit-app/src/dead_letter.rs\<close>), the per-envelope dispatcher
  (\<open>cherry-pit-app/src/dispatch.rs\<close>), and the bounded hand-over from the bus callback to the
  single consumer task (\<open>cherry-pit-app/src/app.rs\<close>). The gateway, the sink and the policies
  are parameters, as they are generic parameters of \<open>App\<close>; so is the tokio channel, whose
  documented behaviour is the predicate \<open>mpsc_contract\<close> of \<open>Channel\<close>. Futures run to completion at their
  \<open>await\<close>; the concurrency of publishers and consumer is the step relation \<open>app_step\<close>.
\<close>

section \<open>Dead letters\<close>

record dead_letter_record =
  dl_event_id :: uuid
  dl_correlation_id :: "uuid option"
  dl_causation_id :: "uuid option"
  dl_error_category :: error_category
  dl_output_type :: string
  dl_policy_identity :: string
  dl_error_message :: string

definition DeadLetterRecord_new ::
  "uuid \<Rightarrow> uuid option \<Rightarrow> uuid option \<Rightarrow> error_category \<Rightarrow> string \<Rightarrow> string \<Rightarrow> string \<Rightarrow> dead_letter_record" where
  "DeadLetterRecord_new event_id corr caus category output_type policy_identity message =
    \<lparr>dl_event_id = event_id, dl_correlation_id = corr, dl_causation_id = caus,
      dl_error_category = category, dl_output_type = output_type,
      dl_policy_identity = policy_identity, dl_error_message = message\<rparr>"

record 'd dead_letter_sink =
  sink_record :: "dead_letter_record \<Rightarrow> 'd \<Rightarrow> (boxed_error, unit) result \<times> 'd"

text \<open>The default sink never fails; its state is the list of emitted events.\<close>

definition TracingDeadLetterSink :: "dead_letter_record list dead_letter_sink" where
  "TracingDeadLetterSink = \<lparr>sink_record = (\<lambda>r log. (Ok (), log @ [r]))\<rparr>"

section \<open>The dispatcher\<close>

definition correlation_for :: "uuid option \<Rightarrow> uuid \<Rightarrow> correlation_context" where
  "correlation_for corr event_id =
    (case corr of Some c \<Rightarrow> CorrelationContext_new c event_id
      | None \<Rightarrow> CorrelationContext_new event_id event_id)"

text \<open>A registered policy with its output type erased, as in \<open>ErasedPolicyDispatcher\<close>.\<close>

record ('e, 'g) policy_adapter =
  policy_identity :: string
  output_type :: string
  adapter_dispatch :: "'e event_envelope \<Rightarrow> correlation_context \<Rightarrow> 'g \<Rightarrow> (agent_error, unit) result \<times> 'g"

fun dispatch_outputs ::
  "('o \<Rightarrow> correlation_context \<Rightarrow> 'g \<Rightarrow> (agent_error, unit) result \<times> 'g) \<Rightarrow> correlation_context
    \<Rightarrow> 'o list \<Rightarrow> 'g \<Rightarrow> (agent_error, unit) result \<times> 'g"
where
  "dispatch_outputs f ctx [] g = (Ok (), g)"
| "dispatch_outputs f ctx (out # outs) g =
    (case f out ctx g of
      (Inl e, g') \<Rightarrow> (Err e, g')
    | (Inr _, g') \<Rightarrow> dispatch_outputs f ctx outs g')"

definition make_adapter ::
  "('e event_envelope \<Rightarrow> 'o list) \<Rightarrow> ('o \<Rightarrow> correlation_context \<Rightarrow> 'g \<Rightarrow> (agent_error, unit) result \<times> 'g)
    \<Rightarrow> string \<Rightarrow> string \<Rightarrow> ('e, 'g) policy_adapter" where
  "make_adapter react f identity out_type =
    \<lparr>policy_identity = identity, output_type = out_type,
      adapter_dispatch = (\<lambda>env ctx g. dispatch_outputs f ctx (react env) g)\<rparr>"

text \<open>Gateway and sink are shared through \<open>Arc\<close>; their states are threaded.\<close>

record ('g, 'd) dispatch_world =
  dw_gateway :: 'g
  dw_sink :: 'd

definition route_failure ::
  "(uuid \<Rightarrow> string) \<Rightarrow> 'd dead_letter_sink \<Rightarrow> uuid \<Rightarrow> uuid option \<Rightarrow> uuid option \<Rightarrow> string \<Rightarrow> string
    \<Rightarrow> agent_error \<Rightarrow> ('g, 'd) dispatch_world \<Rightarrow> (agent_error, unit) result \<times> ('g, 'd) dispatch_world" where
  "route_failure show_uuid sink event_id corr caus identity out_type err w =
    (case AgentError_category err of
      Retryable \<Rightarrow> (Err err, w)
    | ReconciliationRequired \<Rightarrow> (Err err, w)
    | Terminal \<Rightarrow>
        (Ok (), w\<lparr>dw_sink := snd (sink_record sink
          \<lparr>dl_event_id = event_id, dl_correlation_id = corr, dl_causation_id = caus,
            dl_error_category = AgentError_category err, dl_output_type = out_type,
            dl_policy_identity = identity, dl_error_message = AgentError_fmt show_uuid err\<rparr>
          (dw_sink w))\<rparr>))"

fun dispatch_loop ::
  "(uuid \<Rightarrow> string) \<Rightarrow> 'd dead_letter_sink \<Rightarrow> ('e, 'g) policy_adapter list \<Rightarrow> 'e event_envelope
    \<Rightarrow> correlation_context \<Rightarrow> ('g, 'd) dispatch_world
    \<Rightarrow> (agent_error, unit) result \<times> ('g, 'd) dispatch_world"
where
  "dispatch_loop show_uuid sink [] env ctx w = (Ok (), w)"
| "dispatch_loop show_uuid sink (a # adapters) env ctx w =
    (case adapter_dispatch a env ctx (dw_gateway w) of
      (Inr _, g) \<Rightarrow> dispatch_loop show_uuid sink adapters env ctx (w\<lparr>dw_gateway := g\<rparr>)
    | (Inl err, g) \<Rightarrow>
        (case route_failure show_uuid sink (env_event_id env) (env_correlation_id env)
            (env_causation_id env) (policy_identity a) (output_type a) err (w\<lparr>dw_gateway := g\<rparr>) of
          (Inl e, w') \<Rightarrow> (Err e, w')
        | (Inr _, w') \<Rightarrow> dispatch_loop show_uuid sink adapters env ctx w'))"

definition dispatch_one ::
  "(uuid \<Rightarrow> string) \<Rightarrow> 'd dead_letter_sink \<Rightarrow> ('e, 'g) policy_adapter list \<Rightarrow> 'e event_envelope
    \<Rightarrow> ('g, 'd) dispatch_world \<Rightarrow> (agent_error, unit) result \<times> ('g, 'd) dispatch_world" where
  "dispatch_one show_uuid sink adapters env w =
    dispatch_loop show_uuid sink adapters env
      (correlation_for (env_correlation_id env) (env_event_id env)) w"

section \<open>The consumer task\<close>

text \<open>
  The envelopes are those the channel yields until it is closed and empty. A retryable failure
  is logged and the loop goes on.
\<close>

fun run_dispatch_consumer ::
  "(uuid \<Rightarrow> string) \<Rightarrow> 'd dead_letter_sink \<Rightarrow> ('e, 'g) policy_adapter list \<Rightarrow> 'e event_envelope list
    \<Rightarrow> ('g, 'd) dispatch_world \<Rightarrow> (agent_error, unit) result \<times> ('g, 'd) dispatch_world"
where
  "run_dispatch_consumer show_uuid sink adapters [] w = (Ok (), w)"
| "run_dispatch_consumer show_uuid sink adapters (env # envs) w =
    (case dispatch_one show_uuid sink adapters env w of
      (Inl err, w') \<Rightarrow>
        if AgentError_category err = ReconciliationRequired then (Err err, w')
        else run_dispatch_consumer show_uuid sink adapters envs w'
    | (Inr _, w') \<Rightarrow> run_dispatch_consumer show_uuid sink adapters envs w')"

text \<open>What the bus callback does with an envelope, and what it logs.\<close>

datatype enqueue_log = Enqueued | WarnedFull | DebugClosed

definition enqueue_or_log ::
  "('c, 'e event_envelope) channel_ops \<Rightarrow> 'e event_envelope \<Rightarrow> 'c \<Rightarrow> enqueue_log \<times> 'c" where
  "enqueue_or_log ch env c =
    (case try_send ch env c of
      (Inr _, c') \<Rightarrow> (Enqueued, c')
    | (Inl Full, c') \<Rightarrow> (WarnedFull, c')
    | (Inl Closed, c') \<Rightarrow> (DebugClosed, c'))"

section \<open>The application\<close>

definition DEFAULT_DISPATCH_BUFFER_CAPACITY :: nat where
  "DEFAULT_DISPATCH_BUFFER_CAPACITY = 1024"

record ('g, 's, 'b, 'p, 'd, 'e) app_parts =
  app_gateway :: 'g
  app_store :: 's
  app_bus :: 'b
  app_projections :: 'p
  app_dead_letter :: 'd
  app_policies :: "('e, 'g) policy_adapter list"
  app_capacity :: nat

definition App_new :: "'g \<Rightarrow> 's \<Rightarrow> 'b \<Rightarrow> 'p \<Rightarrow> 'd \<Rightarrow> ('g, 's, 'b, 'p, 'd, 'e) app_parts" where
  "App_new gateway store bus projections dead_letter =
    \<lparr>app_gateway = gateway, app_store = store, app_bus = bus, app_projections = projections,
      app_dead_letter = dead_letter, app_policies = [], app_capacity = DEFAULT_DISPATCH_BUFFER_CAPACITY\<rparr>"

text \<open>None is the panic on a zero capacity.\<close>

definition with_dispatch_buffer_capacity ::
  "nat \<Rightarrow> ('g, 's, 'b, 'p, 'd, 'e) app_parts \<Rightarrow> ('g, 's, 'b, 'p, 'd, 'e) app_parts option" where
  "with_dispatch_buffer_capacity capacity a = (if capacity > 0 then Some (a\<lparr>app_capacity := capacity\<rparr>) else None)"

definition register_policy ::
  "('e event_envelope \<Rightarrow> 'o list) \<Rightarrow> ('o \<Rightarrow> correlation_context \<Rightarrow> 'g \<Rightarrow> (agent_error, unit) result \<times> 'g)
    \<Rightarrow> string \<Rightarrow> string \<Rightarrow> ('g, 's, 'b, 'p, 'd, 'e) app_parts \<Rightarrow> ('g, 's, 'b, 'p, 'd, 'e) app_parts" where
  "register_policy react f identity out_type a =
    a\<lparr>app_policies := app_policies a @ [make_adapter react f identity out_type]\<rparr>"

definition policy_count :: "('g, 's, 'b, 'p, 'd, 'e) app_parts \<Rightarrow> nat" where
  "policy_count a = length (app_policies a)"

text \<open>What \<open>run\<close> makes of the joined consumer task; a join error leaves completion unknown.\<close>

definition run_result :: "(string, (agent_error, unit) result) result \<Rightarrow> (agent_error, unit) result" where
  "run_result joined =
    (case joined of Inl e \<Rightarrow> Err (Store (Indeterminate (BoxForeign e))) | Inr r \<Rightarrow> r)"

section \<open>Routing of failures\<close>

text \<open>
  The reference: run the policies in registration order on the gateway alone, collecting the
  terminal failures, up to the first failure that is not terminal.
\<close>

fun policy_failures ::
  "('e, 'g) policy_adapter list \<Rightarrow> 'e event_envelope \<Rightarrow> correlation_context \<Rightarrow> 'g
    \<Rightarrow> (('e, 'g) policy_adapter \<times> agent_error) list \<times> agent_error option \<times> 'g"
where
  "policy_failures [] env ctx g = ([], None, g)"
| "policy_failures (a # adapters) env ctx g =
    (case adapter_dispatch a env ctx g of
      (Inr _, g') \<Rightarrow> policy_failures adapters env ctx g'
    | (Inl err, g') \<Rightarrow>
        if AgentError_category err = Terminal
        then (case policy_failures adapters env ctx g' of (fs, stop, g'') \<Rightarrow> ((a, err) # fs, stop, g''))
        else ([], Some err, g'))"

definition dead_letter_for ::
  "(uuid \<Rightarrow> string) \<Rightarrow> 'e event_envelope \<Rightarrow> ('e, 'g) policy_adapter \<times> agent_error \<Rightarrow> dead_letter_record" where
  "dead_letter_for show_uuid env failure =
    DeadLetterRecord_new (env_event_id env) (env_correlation_id env) (env_causation_id env) Terminal
      (output_type (fst failure)) (policy_identity (fst failure)) (AgentError_fmt show_uuid (snd failure))"

lemma route_failure_terminal:
  "AgentError_category err = Terminal \<Longrightarrow>
    route_failure show_uuid sink (env_event_id env) (env_correlation_id env) (env_causation_id env)
      (policy_identity a) (output_type a) err w
    = (Ok (), w\<lparr>dw_sink := snd (sink_record sink (dead_letter_for show_uuid env (a, err)) (dw_sink w))\<rparr>)"
  by (simp add: route_failure_def dead_letter_for_def DeadLetterRecord_new_def)

lemma route_failure_stop:
  "AgentError_category err \<noteq> Terminal \<Longrightarrow>
    route_failure show_uuid sink event_id corr caus identity out_type err w = (Err err, w)"
  by (cases "AgentError_category err") (simp_all add: route_failure_def)

lemma dispatch_loop_failures:
  "policy_failures adapters env ctx (dw_gateway w) = (fs, stop, g) \<Longrightarrow>
    dispatch_loop show_uuid sink adapters env ctx w
      = (case stop of None \<Rightarrow> Ok () | Some e \<Rightarrow> Err e,
        \<lparr>dw_gateway = g, dw_sink =
          fold (\<lambda>f d. snd (sink_record sink (dead_letter_for show_uuid env f) d)) fs (dw_sink w)\<rparr>)"
proof (induction adapters arbitrary: w fs)
  case (Cons a adapters)
  obtain r g' where run: "adapter_dispatch a env ctx (dw_gateway w) = (r, g')" by fastforce
  obtain fs' stop' g'' where rest: "policy_failures adapters env ctx g' = (fs', stop', g'')"
    using prod_cases3 by blast
  show ?case
  proof (cases r)
    case (Inr u)
    with Cons.IH [of "w\<lparr>dw_gateway := g'\<rparr>"] Cons.prems run show ?thesis by simp
  next
    case (Inl err)
    show ?thesis
    proof (cases "AgentError_category err = Terminal")
      case True
      then have "fs = (a, err) # fs'" "stop = stop'" "g = g''" using Cons.prems run Inl rest by auto
      with Cons.IH [of "w\<lparr>dw_gateway := g', dw_sink := _\<rparr>"] True run Inl rest
      show ?thesis by (simp add: route_failure_terminal)
    next
      case False
      with Cons.prems run Inl show ?thesis by (auto simp: route_failure_stop)
    qed
  qed
qed simp

lemma policy_failures_kinds:
  "policy_failures adapters env ctx g = (fs, stop, g') \<Longrightarrow>
    (\<forall>(a, e) \<in> set fs. a \<in> set adapters \<and> AgentError_category e = Terminal)
    \<and> (case stop of None \<Rightarrow> True | Some e \<Rightarrow> AgentError_category e \<noteq> Terminal)"
proof (induction adapters arbitrary: fs g)
  case (Cons a adapters)
  obtain r h where run: "adapter_dispatch a env ctx g = (r, h)" by fastforce
  obtain fs' stop' g'' where rest: "policy_failures adapters env ctx h = (fs', stop', g'')"
    using prod_cases3 by blast
  show ?case
    using Cons.IH [of h] Cons.prems run rest
    by (cases r) (fastforce split: if_splits option.splits)+
qed simp

text \<open>
  C18. Dispatch of an envelope: the policies run in registration order, all under the one
  correlation context derived from the envelope, on the gateway each left behind. Each terminal
  failure is recorded exactly once in the dead-letter sink, with the ids of the envelope and the
  names of its policy, and does not stop the next policy, whether the sink accepts it or not; the
  first failure that is not terminal stops the dispatch, is returned and is not dead-lettered.
\<close>

theorem dispatch_one_routes:
  assumes "policy_failures adapters env (correlation_for (env_correlation_id env) (env_event_id env)) g
    = (fs, stop, g')"
  shows "dispatch_one show_uuid sink adapters env \<lparr>dw_gateway = g, dw_sink = d\<rparr>
      = (case stop of None \<Rightarrow> Ok () | Some e \<Rightarrow> Err e,
        \<lparr>dw_gateway = g', dw_sink =
          fold (\<lambda>f d. snd (sink_record sink (dead_letter_for show_uuid env f) d)) fs d\<rparr>)
    \<and> (\<forall>(a, e) \<in> set fs. a \<in> set adapters \<and> AgentError_category e = Terminal)
    \<and> (case stop of None \<Rightarrow> True | Some e \<Rightarrow> AgentError_category e \<noteq> Terminal)"
  using dispatch_loop_failures [of adapters env _ "\<lparr>dw_gateway = g, dw_sink = d\<rparr>"] assms
    policy_failures_kinds [OF assms]
  by (simp add: dispatch_one_def)

text \<open>A policy that counts, then one that fails for good, then one the bus refuses.\<close>

definition sample_policies :: "(unit, nat) policy_adapter list" where
  "sample_policies =
    [make_adapter (\<lambda>_. [1, 2]) (\<lambda>n _ g. (Ok (), g + n)) ''count'' ''N'',
     make_adapter (\<lambda>_. [()]) (\<lambda>_ _ g. (Err (Policy (BoxMessage ''no'')), g)) ''deny'' ''U'',
     make_adapter (\<lambda>_. [()]) (\<lambda>_ _ g. (Err (Bus (BusError (BoxMessage ''busy''))), g)) ''send'' ''U'']"

theorem dispatch_one_routes_witness:
  "\<exists>dead. dispatch_one show_nat TracingDeadLetterSink sample_policies (sample_env 7 1 1)
      \<lparr>dw_gateway = 0, dw_sink = []\<rparr>
      = (Err (Bus (BusError (BoxMessage ''busy''))), \<lparr>dw_gateway = 3, dw_sink = [dead]\<rparr>)
    \<and> dl_policy_identity dead = ''deny'' \<and> dl_error_category dead = Terminal"
proof -
  let ?env = "sample_env 7 1 1"
  have run: "policy_failures sample_policies ?env (correlation_for (env_correlation_id ?env) (env_event_id ?env)) 0
    = ([(sample_policies ! 1, Policy (BoxMessage ''no''))], Some (Bus (BusError (BoxMessage ''busy''))), 3)"
    by (simp add: sample_policies_def make_adapter_def BusError_category_def)
  show ?thesis
    using dispatch_one_routes [OF run, of show_nat TracingDeadLetterSink "[]"]
    by (simp add: TracingDeadLetterSink_def dead_letter_for_def DeadLetterRecord_new_def
        sample_policies_def make_adapter_def)
qed

section \<open>Publishers and consumer interleaved\<close>

text \<open>
  The state of a running application. \<open>published\<close>, \<open>accepted\<close> and \<open>received\<close> record what went
  into the callback, into the channel and out of it; they do not influence a step.
\<close>

record ('c, 'g, 'd, 'e) app_state =
  chan :: 'c
  world :: "('g, 'd) dispatch_world"
  senders_dropped :: bool
  consumer_exit :: "(agent_error, unit) result option"
  published :: "'e event_envelope list"
  accepted :: "'e event_envelope list"
  received :: "'e event_envelope list"

definition app_started :: "'c \<Rightarrow> ('g, 'd) dispatch_world \<Rightarrow> ('c, 'g, 'd, 'e) app_state" where
  "app_started c w = \<lparr>chan = c, world = w, senders_dropped = False, consumer_exit = None,
    published = [], accepted = [], received = []\<rparr>"

text \<open>
  The steps of \<open>App::run\<close>: the bus callback, one round of the consumer, the shutdown that drops
  the bus with its senders, and the end of the consumer on a closed and drained channel.
\<close>

inductive app_step ::
  "('c, 'e event_envelope) channel_ops \<Rightarrow> (uuid \<Rightarrow> string) \<Rightarrow> 'd dead_letter_sink
    \<Rightarrow> ('e, 'g) policy_adapter list \<Rightarrow> ('c, 'g, 'd, 'e) app_state \<Rightarrow> ('c, 'g, 'd, 'e) app_state \<Rightarrow> bool"
  for ch show_uuid sink adapters
where
  callback: "\<not> senders_dropped s \<Longrightarrow> enqueue_or_log ch env (chan s) = (logged, c') \<Longrightarrow>
    app_step ch show_uuid sink adapters s
      (s\<lparr>chan := c', published := published s @ [env],
        accepted := (if logged = Enqueued then accepted s @ [env] else accepted s)\<rparr>)"
| consume_on: "consumer_exit s = None \<Longrightarrow> try_recv ch (chan s) = Some (env, c') \<Longrightarrow>
    dispatch_one show_uuid sink adapters env (world s) = (r, w') \<Longrightarrow>
    (case r of Inr _ \<Rightarrow> True | Inl e \<Rightarrow> AgentError_category e \<noteq> ReconciliationRequired) \<Longrightarrow>
    app_step ch show_uuid sink adapters s
      (s\<lparr>chan := c', world := w', received := received s @ [env]\<rparr>)"
| consume_stop: "consumer_exit s = None \<Longrightarrow> try_recv ch (chan s) = Some (env, c') \<Longrightarrow>
    dispatch_one show_uuid sink adapters env (world s) = (Inl e, w') \<Longrightarrow>
    AgentError_category e = ReconciliationRequired \<Longrightarrow>
    app_step ch show_uuid sink adapters s
      (s\<lparr>chan := close_receiver ch c', world := w', received := received s @ [env],
        consumer_exit := Some (Err e)\<rparr>)"
| shutdown: "app_step ch show_uuid sink adapters s (s\<lparr>senders_dropped := True\<rparr>)"
| drained: "consumer_exit s = None \<Longrightarrow> senders_dropped s \<Longrightarrow> try_recv ch (chan s) = None \<Longrightarrow>
    app_step ch show_uuid sink adapters s (s\<lparr>consumer_exit := Some (Ok ())\<rparr>)"

definition app_inv ::
  "(uuid \<Rightarrow> string) \<Rightarrow> 'd dead_letter_sink \<Rightarrow> ('e, 'g) policy_adapter list \<Rightarrow> ('c \<Rightarrow> 'e event_envelope list)
    \<Rightarrow> nat \<Rightarrow> ('c \<Rightarrow> bool) \<Rightarrow> ('g, 'd) dispatch_world \<Rightarrow> ('c, 'g, 'd, 'e) app_state \<Rightarrow> bool" where
  "app_inv show_uuid sink adapters queued capacity closed w0 s \<longleftrightarrow>
    subseq (accepted s) (published s) \<and> prefix (received s) (accepted s)
    \<and> run_dispatch_consumer show_uuid sink adapters (received s) w0
        = (case consumer_exit s of Some (Inl e) \<Rightarrow> Err e | _ \<Rightarrow> Ok (), world s)
    \<and> (case consumer_exit s of
        None \<Rightarrow> accepted s = received s @ queued (chan s)
      | Some (Inr _) \<Rightarrow> accepted s = received s \<and> senders_dropped s
      | Some (Inl e) \<Rightarrow> AgentError_category e = ReconciliationRequired)
    \<and> (closed (chan s) \<longrightarrow> (\<exists>e. consumer_exit s = Some (Inl e)))
    \<and> (length (published s) \<le> capacity \<and> (\<nexists>e. consumer_exit s = Some (Inl e)) \<longrightarrow> accepted s = published s)"

lemma run_dispatch_consumer_snoc:
  "run_dispatch_consumer show_uuid sink adapters envs w0 = (Ok (), w) \<Longrightarrow>
    run_dispatch_consumer show_uuid sink adapters (envs @ [env]) w0
      = run_dispatch_consumer show_uuid sink adapters [env] w"
  by (induction envs arbitrary: w0) (auto split: prod.splits sum.splits if_splits)

lemma enqueue_cases:
  assumes "mpsc_contract ch queued capacity closed" "enqueue_or_log ch env c = (logged, c')"
  obtains (sent) "logged = Enqueued" "\<not> closed c" "\<not> closed c'" "length (queued c) < capacity"
      "queued c' = queued c @ [env]"
    | (full) "logged \<noteq> Enqueued" "\<not> closed c" "\<not> closed c'" "capacity \<le> length (queued c)" "queued c' = queued c"
    | (gone) "logged \<noteq> Enqueued" "closed c" "closed c'" "queued c' = queued c"
proof -
  obtain r c'' where t: "try_send ch env c = (r, c'')" by fastforce
  from assms(1) t show thesis
    by (cases rule: send_cases) (use assms(2) t that in \<open>auto simp: enqueue_or_log_def\<close>)
qed

lemma app_inv_step:
  assumes ch: "mpsc_contract ch queued capacity closed"
    and step: "app_step ch show_uuid sink adapters s s'"
    and inv: "app_inv show_uuid sink adapters queued capacity closed w0 s"
  shows "app_inv show_uuid sink adapters queued capacity closed w0 s'"
  using step
proof cases
  case (callback env logged c')
  have room: "length (queued (chan s)) \<le> length (published s)" if "consumer_exit s = None"
    using inv that by (auto simp: app_inv_def dest: list_emb_length)
  from ch callback(3) show ?thesis
  proof (cases rule: enqueue_cases)
    case sent
    with inv callback show ?thesis
      by (auto simp: app_inv_def split: option.splits sum.splits)
  next
    case full
    with inv callback room show ?thesis
      by (auto simp: app_inv_def split: option.splits sum.splits)
  next
    case gone
    with inv callback show ?thesis
      by (auto simp: app_inv_def)
  qed
next
  case (consume_on env c' r w')
  with inv recv_cases(1) [OF ch consume_on(3)] show ?thesis
    by (auto simp: app_inv_def run_dispatch_consumer_snoc split: sum.splits)
next
  case (consume_stop env c' e w')
  with inv recv_cases(1) [OF ch consume_stop(3)] show ?thesis
    by (auto simp: app_inv_def run_dispatch_consumer_snoc)
next
  case shutdown
  with inv show ?thesis by (simp add: app_inv_def split: option.splits sum.splits)
next
  case drained
  with inv recv_cases(2) [OF ch drained(4)] show ?thesis by (auto simp: app_inv_def)
qed

lemma app_inv_reachable:
  assumes ch: "mpsc_contract ch queued capacity closed" and "queued c = []" "\<not> closed c"
    and "(app_step ch show_uuid sink adapters)\<^sup>*\<^sup>* (app_started c w0) s"
  shows "app_inv show_uuid sink adapters queued capacity closed w0 s"
  using assms(4)
proof (induction rule: rtranclp_induct)
  case base
  with assms(2,3) show ?case by (simp add: app_inv_def app_started_def)
next
  case (step s s')
  then show ?case using app_inv_step [OF ch] by blast
qed

text \<open>
  C6. Publication order survives the hand-over. However publications, consumer rounds and the
  shutdown interleave: the consumer receives a prefix of the accepted envelopes, which are a
  subsequence of the published ones, and gateway and sink are what the sequential consumer makes
  of that prefix. A consumer that ends normally has drained everything accepted; one that ends
  with an error ends with an unknown outcome. As long as no more envelopes are published than
  the capacity and no outcome is unknown, none is dropped.
\<close>

theorem dispatch_in_publication_order:
  assumes "mpsc_contract ch queued capacity closed" and "queued c = []" and "\<not> closed c"
    and "(app_step ch show_uuid sink adapters)\<^sup>*\<^sup>* (app_started c w0) s"
  shows "prefix (received s) (accepted s) \<and> subseq (accepted s) (published s)
    \<and> run_dispatch_consumer show_uuid sink adapters (received s) w0
        = (case consumer_exit s of Some (Inl e) \<Rightarrow> Err e | _ \<Rightarrow> Ok (), world s)
    \<and> (case consumer_exit s of
        None \<Rightarrow> accepted s = received s @ queued (chan s)
      | Some (Inr _) \<Rightarrow> accepted s = received s \<and> senders_dropped s
      | Some (Inl e) \<Rightarrow> AgentError_category e = ReconciliationRequired)
    \<and> (length (published s) \<le> capacity \<and> (\<nexists>e. consumer_exit s = Some (Inl e)) \<longrightarrow> accepted s = published s)"
  using app_inv_reachable [OF assms] unfolding app_inv_def by blast

text \<open>A list with capacity 2 behaves as the channel; one envelope is published and drained.\<close>

theorem dispatch_in_publication_order_witness:
  "\<exists>s. (app_step (list_channel_ops 2) show_nat TracingDeadLetterSink (take 1 sample_policies))\<^sup>*\<^sup>*
      (app_started \<lparr>items = [], receiver_gone = False\<rparr> \<lparr>dw_gateway = 0, dw_sink = []\<rparr>) s
    \<and> consumer_exit s = Some (Ok ()) \<and> received s = [sample_env 7 1 1] \<and> accepted s = [sample_env 7 1 1]
    \<and> run_dispatch_consumer show_nat TracingDeadLetterSink (take 1 sample_policies) [sample_env 7 1 1]
        \<lparr>dw_gateway = 0, dw_sink = []\<rparr> = (Ok (), world s)
    \<and> dw_gateway (world s) = 3"
proof -
  let ?step = "app_step (list_channel_ops 2) show_nat TracingDeadLetterSink (take 1 sample_policies)"
  let ?e = "sample_env 7 1 1" and ?c = "\<lparr>items = [], receiver_gone = False\<rparr>"
  let ?s0 = "app_started ?c \<lparr>dw_gateway = 0, dw_sink = []\<rparr>"
  let ?s1 = "?s0\<lparr>chan := ?c\<lparr>items := [?e]\<rparr>, published := [?e], accepted := [?e]\<rparr>"
  let ?s2 = "?s1\<lparr>senders_dropped := True\<rparr>"
  let ?s3 = "?s2\<lparr>chan := ?c, world := \<lparr>dw_gateway = 3, dw_sink = []\<rparr>, received := [?e]\<rparr>"
  let ?s4 = "?s3\<lparr>consumer_exit := Some (Ok ())\<rparr>"
  have s01: "?step ?s0 ?s1"
    using app_step.callback [of ?s0 "list_channel_ops 2" ?e Enqueued "?c\<lparr>items := [?e]\<rparr>"]
    by (simp add: app_started_def enqueue_or_log_def list_channel_ops_def)
  have s12: "?step ?s1 ?s2" by (rule app_step.shutdown)
  have s23: "?step ?s2 ?s3"
    using app_step.consume_on [of ?s2 "list_channel_ops 2" ?e ?c show_nat TracingDeadLetterSink
        "take 1 sample_policies" "Ok ()" "\<lparr>dw_gateway = 3, dw_sink = []\<rparr>"]
    by (simp add: app_started_def list_channel_ops_def dispatch_one_def sample_policies_def make_adapter_def)
  have s34: "?step ?s3 ?s4"
    by (rule app_step.drained) (simp_all add: app_started_def list_channel_ops_def)
  have run: "?step\<^sup>*\<^sup>* ?s0 ?s4"
    by (rule converse_rtranclp_into_rtranclp, rule s01, rule converse_rtranclp_into_rtranclp, rule s12,
      rule converse_rtranclp_into_rtranclp, rule s23, rule r_into_rtranclp, rule s34)
  have "run_dispatch_consumer show_nat TracingDeadLetterSink (take 1 sample_policies) [?e]
      \<lparr>dw_gateway = 0, dw_sink = []\<rparr> = (Ok (), world ?s4)"
    using dispatch_in_publication_order [OF list_channel_contract _ _ run] by (simp add: app_started_def)
  with run show ?thesis by (intro exI [of _ ?s4]) (simp add: app_started_def)
qed

end
