(* ===== verification/Rate_Limit.thy ===== *)
theory Rate_Limit
  imports Prelude
begin

text \<open>
  The rate-limit observer of the work queue (\<open>cherry-pit-wq/src/rate_limit.rs\<close>). Counters are
  words of the width the atomics have, sentinels included. The warnings \<open>observe\<close> emits are kept
  as the list of the remaining counts they report. Calls are taken one at a time: every field is
  an atomic of its own and the source promises no more than that to racing observers.
\<close>

definition REMAINING_UNKNOWN :: "32 word" where
  "REMAINING_UNKNOWN = - 1"

record rate_limit_observation =
  obs_limit :: "32 word option"
  obs_remaining :: "32 word option"
  obs_reset :: "64 word option"

definition RateLimitObservation_new :: rate_limit_observation where
  "RateLimitObservation_new = \<lparr>obs_limit = None, obs_remaining = None, obs_reset = None\<rparr>"

definition with_limit :: "32 word \<Rightarrow> rate_limit_observation \<Rightarrow> rate_limit_observation" where
  "with_limit l obs = obs\<lparr>obs_limit := Some l\<rparr>"

definition with_remaining :: "32 word \<Rightarrow> rate_limit_observation \<Rightarrow> rate_limit_observation" where
  "with_remaining r obs = obs\<lparr>obs_remaining := Some r\<rparr>"

definition with_reset :: "64 word \<Rightarrow> rate_limit_observation \<Rightarrow> rate_limit_observation" where
  "with_reset r obs = obs\<lparr>obs_reset := Some r\<rparr>"

datatype quota_window_state = Observed | Rolled

record rate_limit_state =
  rl_limit :: "32 word"
  rl_remaining :: "32 word"
  rl_reset :: "64 word"
  warned_near_limit :: bool
  window_rolled :: bool
  halt_threshold :: "32 word"
  warn_threshold :: "32 word"
  warnings :: "32 word list"

definition RateLimitState_default :: rate_limit_state where
  "RateLimitState_default = \<lparr>rl_limit = 0, rl_remaining = REMAINING_UNKNOWN, rl_reset = 0,
    warned_near_limit = False, window_rolled = False, halt_threshold = 0, warn_threshold = 0,
    warnings = []\<rparr>"

definition with_thresholds :: "32 word \<Rightarrow> 32 word \<Rightarrow> rate_limit_state" where
  "with_thresholds halt warn =
    RateLimitState_default\<lparr>halt_threshold := halt, warn_threshold := warn\<rparr>"

definition observe_remaining :: "32 word \<Rightarrow> rate_limit_state \<Rightarrow> rate_limit_state" where
  "observe_remaining r s =
    (let s1 = s\<lparr>rl_remaining := r, window_rolled := False\<rparr> in
     if warn_threshold s1 > 0 \<and> r < warn_threshold s1
     then (if warned_near_limit s1 then s1
       else s1\<lparr>warned_near_limit := True, warnings := warnings s1 @ [r]\<rparr>)
     else s1\<lparr>warned_near_limit := False\<rparr>)"

definition observe :: "rate_limit_observation \<Rightarrow> rate_limit_state \<Rightarrow> rate_limit_state" where
  "observe obs s =
    (let s1 = (case obs_limit obs of Some l \<Rightarrow> s\<lparr>rl_limit := l\<rparr> | None \<Rightarrow> s);
         s2 = (case obs_remaining obs of Some r \<Rightarrow> observe_remaining r s1 | None \<Rightarrow> s1)
     in case obs_reset obs of Some t \<Rightarrow> s2\<lparr>rl_reset := t\<rparr> | None \<Rightarrow> s2)"

definition load_limit :: "rate_limit_state \<Rightarrow> 32 word option" where
  "load_limit s = (if rl_limit s = 0 then None else Some (rl_limit s))"

definition load_remaining :: "rate_limit_state \<Rightarrow> 32 word option" where
  "load_remaining s = (if rl_remaining s = REMAINING_UNKNOWN then None else Some (rl_remaining s))"

definition load_reset :: "rate_limit_state \<Rightarrow> 64 word option" where
  "load_reset s = (if rl_reset s = 0 then None else Some (rl_reset s))"

definition note_window_rolled :: "rate_limit_state \<Rightarrow> rate_limit_state" where
  "note_window_rolled s = s\<lparr>window_rolled := True\<rparr>"

definition quota_window :: "rate_limit_state \<Rightarrow> quota_window_state" where
  "quota_window s = (if window_rolled s then Rolled else Observed)"

definition is_near_limit :: "rate_limit_state \<Rightarrow> bool" where
  "is_near_limit s \<longleftrightarrow> (if warn_threshold s = 0 then False
    else case load_remaining s of Some r \<Rightarrow> r < warn_threshold s | None \<Rightarrow> False)"

definition should_halt :: "rate_limit_state \<Rightarrow> bool" where
  "should_halt s \<longleftrightarrow> (if halt_threshold s = 0 then False
    else if window_rolled s then False
    else case load_remaining s of Some r \<Rightarrow> r < halt_threshold s | None \<Rightarrow> False)"

section \<open>Sequences of calls\<close>

datatype rate_call = CallObserve rate_limit_observation | CallRolled

fun rate_step :: "rate_call \<Rightarrow> rate_limit_state \<Rightarrow> rate_limit_state" where
  "rate_step (CallObserve obs) s = observe obs s"
| "rate_step CallRolled s = note_window_rolled s"

definition rate_run :: "rate_call list \<Rightarrow> rate_limit_state \<Rightarrow> rate_limit_state" where
  "rate_run calls s = fold rate_step calls s"

text \<open>The readings in a sequence of calls, and whether the window rolled after the last of them.\<close>

fun readings :: "rate_call list \<Rightarrow> 32 word list" where
  "readings [] = []"
| "readings (CallObserve obs # cs) =
    (case obs_remaining obs of Some r \<Rightarrow> r # readings cs | None \<Rightarrow> readings cs)"
| "readings (CallRolled # cs) = readings cs"

fun rolled_since :: "bool \<Rightarrow> rate_call list \<Rightarrow> bool" where
  "rolled_since b [] = b"
| "rolled_since b (CallObserve obs # cs) =
    rolled_since (if obs_remaining obs = None then b else False) cs"
| "rolled_since b (CallRolled # cs) = rolled_since True cs"

text \<open>The readings that start a run of readings below the threshold.\<close>

fun dips :: "32 word \<Rightarrow> bool \<Rightarrow> 32 word list \<Rightarrow> 32 word list" where
  "dips t below [] = []"
| "dips t below (r # rs) =
    (if t > 0 \<and> r < t then (if below then dips t True rs else r # dips t True rs)
     else dips t False rs)"

fun last_or :: "'a \<Rightarrow> 'a list \<Rightarrow> 'a" where
  "last_or d [] = d"
| "last_or d (x # xs) = last_or x xs"

lemma observe_fields:
  "halt_threshold (observe obs s) = halt_threshold s"
  "warn_threshold (observe obs s) = warn_threshold s"
  "rl_remaining (observe obs s) = (case obs_remaining obs of Some r \<Rightarrow> r | None \<Rightarrow> rl_remaining s)"
  "window_rolled (observe obs s) = (if obs_remaining obs = None then window_rolled s else False)"
  by (auto simp: observe_def observe_remaining_def Let_def split: option.splits)

lemma rate_run_Cons [simp]: "rate_run (c # cs) s = rate_run cs (rate_step c s)"
  by (simp add: rate_run_def)

lemma rate_run_fields:
  "halt_threshold (rate_run cs s) = halt_threshold s"
  "rl_remaining (rate_run cs s) = last_or (rl_remaining s) (readings cs)"
  "window_rolled (rate_run cs s) = rolled_since (window_rolled s) cs"
proof (induction cs arbitrary: s)
  case (Cons c cs)
  {
    case 1
    then show ?case using Cons by (cases c) (auto simp: observe_fields note_window_rolled_def)
  next
    case 2
    then show ?case using Cons
      by (cases c) (auto simp: observe_fields note_window_rolled_def split: option.splits)
  next
    case 3
    then show ?case using Cons
      by (cases c) (auto simp: observe_fields note_window_rolled_def split: option.splits)
  }
qed (simp_all add: rate_run_def)

lemma rate_run_warnings:
  "warnings (rate_run cs s) = warnings s @ dips (warn_threshold s) (warned_near_limit s) (readings cs)"
proof (induction cs arbitrary: s)
  case (Cons c cs)
  then show ?case
    by (cases c) (auto simp: note_window_rolled_def observe_def observe_remaining_def Let_def
        split: option.splits)
qed (simp add: rate_run_def)

text \<open>
  The hard gate after any sequence of observations and window rolls, from any thresholds:
  it halts exactly when halting is configured, the last reading of the remaining count is known
  and below the threshold, and the window has not rolled since that reading. The reading itself
  is never replaced by a roll.
\<close>

theorem should_halt_by_last_reading:
  "(should_halt (rate_run calls (with_thresholds halt warn)) \<longleftrightarrow>
      halt > 0 \<and> \<not> rolled_since False calls
      \<and> last_or REMAINING_UNKNOWN (readings calls) \<noteq> REMAINING_UNKNOWN
      \<and> last_or REMAINING_UNKNOWN (readings calls) < halt)
   \<and> rl_remaining (rate_run calls (with_thresholds halt warn)) = last_or REMAINING_UNKNOWN (readings calls)"
  by (auto simp: should_halt_def load_remaining_def rate_run_fields with_thresholds_def
      RateLimitState_default_def word_neq_0_conv)

text \<open>
  Warnings: one is emitted for each run of consecutive readings below the warning
  threshold, carrying the first reading of that run, and none while the threshold is zero.
\<close>

theorem one_warning_per_dip:
  "warnings (rate_run calls (with_thresholds halt warn)) = dips warn False (readings calls)"
  by (simp add: rate_run_warnings with_thresholds_def RateLimitState_default_def)

end
