(* ===== verification/Token_Bucket.thy ===== *)
theory Token_Bucket
  imports Prelude
begin

text \<open>
  The clock-driven token bucket of the work queue (\<open>cherry-pit-wq/src/token_bucket.rs\<close>) and the
  admission vocabulary it shares with the other regulators (\<open>cherry-pit-wq/src/regulator.rs\<close>).
  Instants are nanoseconds as \<open>int\<close>, durations nanoseconds as \<open>nat\<close>; every 64- and 128-bit
  bound of the source is written out. The compare-and-swap loop of \<open>try_debit_one\<close> is split at
  its atomic accesses, so that several workers can be interleaved.
\<close>

datatype admission = Admitted | AdmitCancelled

datatype settle_outcome = Charged | Free

type_synonym instant = int

definition MILLI_PER_TOKEN :: nat where
  "MILLI_PER_TOKEN = 1000"

definition u128_max :: nat where
  "u128_max = 2 ^ 128 - 1"

definition nanos_per_sec :: nat where
  "nanos_per_sec = 1000000000"

definition saturating_mul :: "nat \<Rightarrow> nat \<Rightarrow> nat \<Rightarrow> nat" where
  "saturating_mul bound a b = min bound (a * b)"

text \<open>\<open>u64::try_from(_).unwrap_or(u64::MAX)\<close>.\<close>

definition clamp_u64 :: "nat \<Rightarrow> nat" where
  "clamp_u64 n = min u64_max n"

text \<open>\<open>Instant::checked_sub\<close>; \<open>earliest\<close> is the earliest instant the platform represents.\<close>

definition instant_checked_sub :: "instant \<Rightarrow> instant \<Rightarrow> nat \<Rightarrow> instant option" where
  "instant_checked_sub earliest t d = (if t - int d < earliest then None else Some (t - int d))"

definition saturating_duration_since :: "instant \<Rightarrow> instant \<Rightarrow> nat" where
  "saturating_duration_since later earlier = nat (later - earlier)"

definition backdated_start_for_full_bucket :: "instant \<Rightarrow> instant \<Rightarrow> nat \<Rightarrow> nat \<Rightarrow> instant" where
  "backdated_start_for_full_bucket earliest now capacity_milli refill_milli_per_sec =
    (let fill_nanos = capacity_milli * nanos_per_sec div refill_milli_per_sec in
     case instant_checked_sub earliest now (clamp_u64 fill_nanos) of Some t \<Rightarrow> t | None \<Rightarrow> now)"

record token_bucket =
  tb_start :: instant
  capacity_milli :: nat
  refill_milli_per_sec :: nat
  consumed_milli :: nat

text \<open>None is the panic on a zero capacity or a zero rate.\<close>

definition TokenBucketRegulator_new :: "instant \<Rightarrow> instant \<Rightarrow> nat \<Rightarrow> nat \<Rightarrow> token_bucket option" where
  "TokenBucketRegulator_new earliest now capacity_tokens refill_tokens_per_sec =
    (if capacity_tokens = 0 \<or> refill_tokens_per_sec = 0 then None else
     let cap = saturating_mul u64_max capacity_tokens MILLI_PER_TOKEN;
         rate = saturating_mul u64_max refill_tokens_per_sec MILLI_PER_TOKEN
     in Some \<lparr>tb_start = backdated_start_for_full_bucket earliest now cap rate,
       capacity_milli = cap, refill_milli_per_sec = rate, consumed_milli = 0\<rparr>)"

definition uncapped_generated_milli_at :: "token_bucket \<Rightarrow> instant \<Rightarrow> nat" where
  "uncapped_generated_milli_at tb now =
    saturating_mul u128_max (saturating_duration_since now (tb_start tb)) (refill_milli_per_sec tb)
      div nanos_per_sec"

text \<open>
  One round of the loop between the load of \<open>consumed_milli\<close> and the exchange: install a new
  value, give up with \<open>Duration::MAX\<close>, or wait.
\<close>

datatype debit_plan = Exchange nat | Overflow | WaitFor nat

definition plan_debit :: "token_bucket \<Rightarrow> instant \<Rightarrow> nat \<Rightarrow> debit_plan" where
  "plan_debit tb now consumed =
    (let generated = uncapped_generated_milli_at tb now;
         effective_consumed = max consumed (generated - capacity_milli tb);
         available = generated - effective_consumed
     in if available \<ge> MILLI_PER_TOKEN
        then (if effective_consumed + MILLI_PER_TOKEN \<le> u64_max
          then Exchange (effective_consumed + MILLI_PER_TOKEN) else Overflow)
        else WaitFor (clamp_u64
          (((MILLI_PER_TOKEN - available) * nanos_per_sec + (refill_milli_per_sec tb - 1))
            div refill_milli_per_sec tb)))"

text \<open>A debit that no other worker disturbs; \<open>None\<close> is \<open>Duration::MAX\<close>.\<close>

definition try_debit_one ::
  "token_bucket \<Rightarrow> instant \<Rightarrow> (nat option, unit) result \<times> token_bucket" where
  "try_debit_one tb now =
    (case plan_debit tb now (consumed_milli tb) of
      Exchange next_consumed \<Rightarrow> (Ok (), tb\<lparr>consumed_milli := next_consumed\<rparr>)
    | Overflow \<Rightarrow> (Err None, tb)
    | WaitFor ns \<Rightarrow> (Err (Some ns), tb))"

text \<open>
  \<open>admit\<close> against the clock readings its rounds make and, for each wait, whether the
  cancellation comes first; no result while it still waits after the last round.
\<close>

fun bucket_admit :: "(instant \<times> bool) list \<Rightarrow> token_bucket \<Rightarrow> admission option \<times> token_bucket" where
  "bucket_admit [] tb = (None, tb)"
| "bucket_admit ((now, cancelled) # rounds) tb =
    (case try_debit_one tb now of
      (Inr _, tb') \<Rightarrow> (Some Admitted, tb')
    | (Inl _, tb') \<Rightarrow> if cancelled then (Some AdmitCancelled, tb') else bucket_admit rounds tb')"

section \<open>Interleaved workers\<close>

text \<open>
  Each worker reads the clock, loads the counter, and exchanges it if it is unchanged; the weak
  exchange may also fail for no reason, and a failed exchange starts a new round. \<open>debits\<close> counts
  the successful exchanges.
\<close>

datatype debit_pc = AtClock | AtLoad instant | AtExchange nat nat

record bucket_run =
  bucket :: token_bucket
  debit_pcs :: "nat \<Rightarrow> debit_pc"
  debits :: nat

datatype bucket_action = ReadClock nat instant | LoadConsumed nat | ExchangeConsumed nat | ExchangeFails nat

fun bucket_step :: "bucket_action \<Rightarrow> bucket_run \<Rightarrow> bucket_run option" where
  "bucket_step (ReadClock w now) r =
    (case debit_pcs r w of AtClock \<Rightarrow> Some (r\<lparr>debit_pcs := (debit_pcs r)(w := AtLoad now)\<rparr>) | _ \<Rightarrow> None)"
| "bucket_step (LoadConsumed w) r =
    (case debit_pcs r w of
      AtLoad now \<Rightarrow>
        (case plan_debit (bucket r) now (consumed_milli (bucket r)) of
          Exchange next_consumed \<Rightarrow>
            Some (r\<lparr>debit_pcs := (debit_pcs r)(w := AtExchange (consumed_milli (bucket r)) next_consumed)\<rparr>)
        | _ \<Rightarrow> Some (r\<lparr>debit_pcs := (debit_pcs r)(w := AtClock)\<rparr>))
    | _ \<Rightarrow> None)"
| "bucket_step (ExchangeConsumed w) r =
    (case debit_pcs r w of
      AtExchange seen next_consumed \<Rightarrow>
        if consumed_milli (bucket r) = seen
        then Some (r\<lparr>bucket := (bucket r)\<lparr>consumed_milli := next_consumed\<rparr>,
          debit_pcs := (debit_pcs r)(w := AtClock), debits := debits r + 1\<rparr>)
        else Some (r\<lparr>debit_pcs := (debit_pcs r)(w := AtClock)\<rparr>)
    | _ \<Rightarrow> None)"
| "bucket_step (ExchangeFails w) r =
    (case debit_pcs r w of
      AtExchange _ _ \<Rightarrow> Some (r\<lparr>debit_pcs := (debit_pcs r)(w := AtClock)\<rparr>) | _ \<Rightarrow> None)"

fun bucket_exec :: "bucket_action list \<Rightarrow> bucket_run \<Rightarrow> bucket_run option" where
  "bucket_exec [] r = Some r"
| "bucket_exec (a # acts) r = (case bucket_step a r of None \<Rightarrow> None | Some r' \<Rightarrow> bucket_exec acts r')"

definition idle_run :: "token_bucket \<Rightarrow> bucket_run" where
  "idle_run tb = \<lparr>bucket = tb, debit_pcs = (\<lambda>_. AtClock), debits = 0\<rparr>"

text \<open>All clock readings of a sequence of actions lie in a window.\<close>

fun reads_in :: "instant \<Rightarrow> instant \<Rightarrow> bucket_action \<Rightarrow> bool" where
  "reads_in t1 t2 (ReadClock w now) \<longleftrightarrow> t1 \<le> now \<and> now \<le> t2"
| "reads_in t1 t2 _ \<longleftrightarrow> True"

abbreviation gen :: "token_bucket \<Rightarrow> instant \<Rightarrow> nat" where
  "gen \<equiv> uncapped_generated_milli_at"

lemma gen_mono: "t1 \<le> t2 \<Longrightarrow> gen tb t1 \<le> gen tb t2"
proof -
  assume "t1 \<le> t2"
  then have "nat (t1 - tb_start tb) * refill_milli_per_sec tb \<le> nat (t2 - tb_start tb) * refill_milli_per_sec tb"
    by (intro mult_le_mono1 nat_mono) simp
  then show ?thesis
    unfolding uncapped_generated_milli_at_def saturating_mul_def saturating_duration_since_def
    by (intro div_le_mono min.mono) auto
qed

lemma gen_consumed [simp]: "gen (tb\<lparr>consumed_milli := c\<rparr>) = gen tb"
  by (simp add: uncapped_generated_milli_at_def fun_eq_iff)

lemma plan_debit_consumed [simp]: "plan_debit (tb\<lparr>consumed_milli := c\<rparr>) = plan_debit tb"
  by (simp add: plan_debit_def Let_def fun_eq_iff)

lemma plan_debit_Exchange:
  assumes "plan_debit tb now c = Exchange n"
  shows "n = max c (gen tb now - capacity_milli tb) + MILLI_PER_TOKEN" "n \<le> gen tb now" "n \<le> u64_max"
  using assms by (auto simp: plan_debit_def Let_def MILLI_PER_TOKEN_def split: if_splits)

definition run_inv :: "token_bucket \<Rightarrow> instant \<Rightarrow> instant \<Rightarrow> bucket_run \<Rightarrow> bool" where
  "run_inv tb t1 t2 r \<longleftrightarrow>
    bucket r = tb\<lparr>consumed_milli := consumed_milli (bucket r)\<rparr>
    \<and> (if debits r = 0 then consumed_milli (bucket r) = consumed_milli tb
       else (gen tb t1 - capacity_milli tb) + debits r * MILLI_PER_TOKEN \<le> consumed_milli (bucket r)
         \<and> consumed_milli tb + debits r * MILLI_PER_TOKEN \<le> consumed_milli (bucket r)
         \<and> consumed_milli (bucket r) \<le> gen tb t2)
    \<and> (\<forall>w. case debit_pcs r w of AtClock \<Rightarrow> True | AtLoad now \<Rightarrow> t1 \<le> now \<and> now \<le> t2
        | AtExchange seen n \<Rightarrow> \<exists>now. t1 \<le> now \<and> now \<le> t2 \<and> plan_debit tb now seen = Exchange n)"

lemma run_inv_pc: "run_inv tb t1 t2 r \<Longrightarrow> debit_pcs r w = AtLoad now \<Longrightarrow> t1 \<le> now \<and> now \<le> t2"
  unfolding run_inv_def by (elim conjE) (drule spec [of _ w], simp)

lemma run_inv_exchange:
  "run_inv tb t1 t2 r \<Longrightarrow> debit_pcs r w = AtExchange seen n \<Longrightarrow>
    \<exists>now. t1 \<le> now \<and> now \<le> t2 \<and> plan_debit tb now seen = Exchange n"
  unfolding run_inv_def by (elim conjE) (drule spec [of _ w], simp)

lemma run_inv_bucket: "run_inv tb t1 t2 r \<Longrightarrow> plan_debit (bucket r) = plan_debit tb"
proof -
  assume "run_inv tb t1 t2 r"
  then obtain c where "bucket r = tb\<lparr>consumed_milli := c\<rparr>" unfolding run_inv_def by blast
  then show ?thesis by simp
qed

lemma run_inv_set_pc:
  "run_inv tb t1 t2 r \<Longrightarrow> (case p of AtClock \<Rightarrow> True | AtLoad now \<Rightarrow> t1 \<le> now \<and> now \<le> t2
        | AtExchange seen n \<Rightarrow> \<exists>now. t1 \<le> now \<and> now \<le> t2 \<and> plan_debit tb now seen = Exchange n)
    \<Longrightarrow> run_inv tb t1 t2 (r\<lparr>debit_pcs := (debit_pcs r)(w := p)\<rparr>)"
  by (simp add: run_inv_def)

lemma token_bucket_upd:
  "tb' = tb\<lparr>consumed_milli := c\<rparr> \<Longrightarrow> tb'\<lparr>consumed_milli := n\<rparr> = tb\<lparr>consumed_milli := n\<rparr>"
  by simp

lemma run_inv_debit:
  assumes inv: "run_inv tb t1 t2 r" and now: "t1 \<le> now" "now \<le> t2"
    and plan: "plan_debit tb now (consumed_milli (bucket r)) = Exchange n"
  shows "run_inv tb t1 t2 (r\<lparr>bucket := (bucket r)\<lparr>consumed_milli := n\<rparr>,
    debit_pcs := (debit_pcs r)(w := AtClock), debits := debits r + 1\<rparr>)"
proof -
  note n = plan_debit_Exchange [OF plan]
  have low: "gen tb t1 - capacity_milli tb \<le> gen tb now - capacity_milli tb" and "n \<le> gen tb t2"
    using gen_mono [OF now(1), of tb] gen_mono [OF now(2), of tb] n(2) by linarith+
  moreover have "(bucket r)\<lparr>consumed_milli := n\<rparr> = tb\<lparr>consumed_milli := n\<rparr>"
    using inv unfolding run_inv_def by (blast intro: token_bucket_upd)
  moreover have "gen tb t1 - capacity_milli tb + debits r * MILLI_PER_TOKEN
        \<le> max (consumed_milli (bucket r)) (gen tb now - capacity_milli tb)"
      "consumed_milli tb + debits r * MILLI_PER_TOKEN
        \<le> max (consumed_milli (bucket r)) (gen tb now - capacity_milli tb)"
    using inv low by (cases "debits r = 0"; auto simp: run_inv_def)+
  ultimately show ?thesis using inv n(1) by (simp add: run_inv_def)
qed

lemma run_inv_step:
  assumes inv: "run_inv tb t1 t2 r" and act: "reads_in t1 t2 a" and step: "bucket_step a r = Some r'"
  shows "run_inv tb t1 t2 r'"
proof (cases a)
  case (ReadClock w now)
  with act step inv show ?thesis
    by (auto split: debit_pc.splits intro: run_inv_set_pc)
next
  case (LoadConsumed w)
  with step obtain now where now: "debit_pcs r w = AtLoad now" by (auto split: debit_pc.splits)
  note window = run_inv_pc [OF inv now]
  show ?thesis
  proof (cases "plan_debit tb now (consumed_milli (bucket r))")
    case (Exchange n)
    then have "r' = r\<lparr>debit_pcs := (debit_pcs r)(w := AtExchange (consumed_milli (bucket r)) n)\<rparr>"
      using step LoadConsumed now by (simp add: run_inv_bucket [OF inv])
    with window Exchange inv show ?thesis by (auto intro!: run_inv_set_pc)
  next
    case Overflow
    with step LoadConsumed now inv show ?thesis
      by (auto simp: run_inv_bucket [OF inv] intro: run_inv_set_pc)
  next
    case (WaitFor ns)
    with step LoadConsumed now inv show ?thesis
      by (auto simp: run_inv_bucket [OF inv] intro: run_inv_set_pc)
  qed
next
  case (ExchangeConsumed w)
  with step obtain seen n where pc: "debit_pcs r w = AtExchange seen n" by (auto split: debit_pc.splits)
  from run_inv_exchange [OF inv pc] obtain now where now: "t1 \<le> now" "now \<le> t2"
    and plan: "plan_debit tb now seen = Exchange n" by blast
  show ?thesis
  proof (cases "consumed_milli (bucket r) = seen")
    case True
    then have "r' = r\<lparr>bucket := (bucket r)\<lparr>consumed_milli := n\<rparr>,
        debit_pcs := (debit_pcs r)(w := AtClock), debits := debits r + 1\<rparr>"
      using step ExchangeConsumed pc by simp
    with run_inv_debit [OF inv now, of n w] plan True show ?thesis by simp
  next
    case False
    with step ExchangeConsumed pc inv show ?thesis by (auto intro: run_inv_set_pc)
  qed
next
  case (ExchangeFails w)
  with step inv show ?thesis by (auto split: debit_pc.splits intro: run_inv_set_pc)
qed

lemma run_inv_exec:
  "run_inv tb t1 t2 r \<Longrightarrow> \<forall>a \<in> set acts. reads_in t1 t2 a \<Longrightarrow> bucket_exec acts r = Some r' \<Longrightarrow>
    run_inv tb t1 t2 r'"
proof (induction acts arbitrary: r)
  case (Cons a acts)
  from Cons.prems(3) obtain r1 where r1: "bucket_step a r = Some r1" "bucket_exec acts r1 = Some r'"
    by (auto split: option.splits)
  with Cons.IH [OF run_inv_step [OF Cons.prems(1) _ r1(1)]] Cons.prems(2) show ?case by simp
qed simp

text \<open>Generation over a window is the elapsed time at the refill rate, up to rounding.\<close>

lemma gen_window:
  assumes "t1 \<le> t2"
  shows "gen tb t2 \<le> gen tb t1 + nat (t2 - t1) * refill_milli_per_sec tb div nanos_per_sec + 1"
proof -
  let ?r = "refill_milli_per_sec tb" and ?e1 = "nat (t1 - tb_start tb)" and ?e2 = "nat (t2 - tb_start tb)"
  let ?d = "nat (t2 - t1)" and ?N = nanos_per_sec
  have "?e2 \<le> ?e1 + ?d" using assms by linarith
  then have "?e2 * ?r \<le> ?e1 * ?r + ?d * ?r" by (metis add_mult_distrib mult_le_mono1)
  then have "min u128_max (?e2 * ?r) \<le> min u128_max (?e1 * ?r) + ?d * ?r" by linarith
  then have "gen tb t2 \<le> (min u128_max (?e1 * ?r) + ?d * ?r) div ?N"
    unfolding uncapped_generated_milli_at_def saturating_mul_def saturating_duration_since_def
    by (rule div_le_mono)
  also have "\<dots> \<le> min u128_max (?e1 * ?r) div ?N + ?d * ?r div ?N + 1"
    by (simp add: nanos_per_sec_def)
  finally show ?thesis
    by (simp add: uncapped_generated_milli_at_def saturating_mul_def saturating_duration_since_def)
qed

text \<open>
  C7. The rate bound, for any number of workers and any interleaving of their clock reads,
  loads and exchanges, from any state of the bucket: if all clock readings fall in a window, the
  tokens debited in it are at most the capacity plus the refill of that window, up to one
  thousandth of a token of rounding.
\<close>

theorem token_bucket_rate_bound:
  assumes "bucket_exec acts (idle_run tb) = Some r" and "\<forall>a \<in> set acts. reads_in t1 t2 a" and "t1 \<le> t2"
  shows "debits r * MILLI_PER_TOKEN
    \<le> capacity_milli tb + nat (t2 - t1) * refill_milli_per_sec tb div nanos_per_sec + 1"
proof -
  have "run_inv tb t1 t2 (idle_run tb)" by (simp add: run_inv_def idle_run_def)
  from run_inv_exec [OF this assms(2,1)]
  have "debits r = 0 \<or> gen tb t1 - capacity_milli tb + debits r * MILLI_PER_TOKEN \<le> gen tb t2"
    by (auto simp: run_inv_def split: if_splits)
  with gen_window [OF assms(3), of tb] show ?thesis by auto
qed

definition sample_bucket :: token_bucket where
  "sample_bucket = \<lparr>tb_start = 0, capacity_milli = 1000, refill_milli_per_sec = 1000, consumed_milli = 0\<rparr>"

text \<open>Two workers load the same counter; the second exchange finds it changed and fails.\<close>

theorem token_bucket_rate_bound_witness:
  "\<exists>r. bucket_exec [ReadClock 1 1000000000, ReadClock 2 1000000000, LoadConsumed 1, LoadConsumed 2,
      ExchangeConsumed 1, ExchangeConsumed 2] (idle_run sample_bucket) = Some r
    \<and> debits r = 1 \<and> debits r * MILLI_PER_TOKEN \<le> 1000 + 0 + 1"
proof -
  let ?acts = "[ReadClock 1 1000000000, ReadClock 2 1000000000, LoadConsumed 1, LoadConsumed 2,
      ExchangeConsumed 1, ExchangeConsumed 2]"
  have plan: "plan_debit sample_bucket 1000000000 0 = Exchange 1000"
    by (simp add: plan_debit_def sample_bucket_def uncapped_generated_milli_at_def saturating_mul_def
        saturating_duration_since_def MILLI_PER_TOKEN_def nanos_per_sec_def u128_max_def u64_max_def)
  obtain r where r: "bucket_exec ?acts (idle_run sample_bucket) = Some r" "debits r = 1"
    using plan by (auto simp: idle_run_def sample_bucket_def)
  have "debits r * MILLI_PER_TOKEN \<le> capacity_milli sample_bucket
      + nat (1000000000 - 1000000000) * refill_milli_per_sec sample_bucket div nanos_per_sec + 1"
    by (rule token_bucket_rate_bound [OF r(1)]) auto
  with r show ?thesis by (auto simp: sample_bucket_def)
qed

section \<open>Waiting\<close>

lemma ceiling_suffices: "0 < r \<Longrightarrow> m \<le> (m + (r - 1)) div r * (r::nat)"
proof -
  assume "0 < r"
  then have "m + (r - 1) < (m + (r - 1)) div r * r + r"
    using div_mult_mod_eq [of "m + (r - 1)" r] mod_less_divisor [of r "m + (r - 1)"] by linarith
  then show ?thesis using \<open>0 < r\<close> by linarith
qed

lemma clamp_u64_id: "n < u64_max \<Longrightarrow> clamp_u64 n = n"
  by (simp add: clamp_u64_def)

lemma ceiling_le: "0 < r \<Longrightarrow> (m + (r - 1)) div r \<le> (m::nat)"
proof -
  assume r: "0 < r"
  then have "m \<le> m * r" by simp
  with r have "m + (r - 1) < (m + 1) * r" unfolding add_mult_distrib by linarith
  then have "(m + (r - 1)) div r < m + 1" by (rule less_mult_imp_div_less)
  then show ?thesis by linarith
qed

text \<open>If the later count fits in 64 bits, the product of time and rate did not saturate.\<close>

lemma gen_unsaturated:
  assumes "gen tb t \<le> u64_max"
  shows "gen tb t = nat (t - tb_start tb) * refill_milli_per_sec tb div nanos_per_sec"
proof -
  have "u64_max < u128_max div nanos_per_sec" by (simp add: u64_max_def u128_max_def nanos_per_sec_def)
  with assms have "\<not> u128_max \<le> nat (t - tb_start tb) * refill_milli_per_sec tb"
    unfolding uncapped_generated_milli_at_def saturating_mul_def saturating_duration_since_def
    by (metis leD min.absorb1)
  then show ?thesis
    by (simp add: uncapped_generated_milli_at_def saturating_mul_def saturating_duration_since_def min_absorb2)
qed

lemma gen_after_wait:
  assumes late: "gen tb later \<le> u64_max" and t: "now + int ns \<le> later" "tb_start tb \<le> now"
    and enough: "d * nanos_per_sec \<le> ns * refill_milli_per_sec tb"
  shows "gen tb now + d \<le> gen tb later"
proof -
  let ?r = "refill_milli_per_sec tb" and ?e = "nat (now - tb_start tb)" and ?e' = "nat (later - tb_start tb)"
  have "gen tb now \<le> u64_max" using gen_mono [of now later tb] late t by linarith
  then have now: "gen tb now = ?e * ?r div nanos_per_sec" by (rule gen_unsaturated)
  have "?e + ns \<le> ?e'" using t by linarith
  then have "?e * ?r + ns * ?r \<le> ?e' * ?r" by (metis add_mult_distrib mult_le_mono1)
  then have "?e * ?r + d * nanos_per_sec \<le> ?e' * ?r" using enough by linarith
  then have "(?e * ?r + d * nanos_per_sec) div nanos_per_sec \<le> ?e' * ?r div nanos_per_sec"
    by (rule div_le_mono)
  then show ?thesis unfolding now gen_unsaturated [OF late] by (simp add: nanos_per_sec_def)
qed

text \<open>
  The wait a refused debit returns is enough: a bucket that holds at least one token, asked
  again after that wait with no other debit in between, grants the token, as long as the counter
  has room in 64 bits. The wait itself is never clamped.
\<close>

theorem bucket_wait_suffices:
  assumes "MILLI_PER_TOKEN \<le> capacity_milli tb" and "0 < refill_milli_per_sec tb"
    and "consumed_milli tb \<le> uncapped_generated_milli_at tb now" and "tb_start tb \<le> now"
    and "try_debit_one tb now = (Err (Some ns), tb')"
    and "now + int ns \<le> later" and "uncapped_generated_milli_at tb later \<le> u64_max"
  shows "tb' = tb \<and> ns < u64_max \<and> fst (try_debit_one tb later) = Ok ()"
proof -
  let ?r = "refill_milli_per_sec tb" and ?c = "consumed_milli tb" and ?cap = "capacity_milli tb"
  let ?avail = "gen tb now - max ?c (gen tb now - ?cap)"
  let ?m = "(MILLI_PER_TOKEN - ?avail) * nanos_per_sec"
  have plan: "plan_debit tb now ?c = WaitFor ns" "tb' = tb"
    using assms(5) by (auto simp: try_debit_one_def split: debit_plan.splits)
  then have short: "?avail < MILLI_PER_TOKEN" and ns: "ns = clamp_u64 ((?m + (?r - 1)) div ?r)"
    by (auto simp: plan_debit_def Let_def split: if_splits)
  have "(?m + (?r - 1)) div ?r \<le> ?m" by (rule ceiling_le [OF assms(2)])
  moreover have "?m \<le> 1000 * nanos_per_sec" by (simp add: MILLI_PER_TOKEN_def)
  ultimately have bound: "(?m + (?r - 1)) div ?r < u64_max"
    by (simp add: nanos_per_sec_def u64_max_def)
  then have ns': "ns = (?m + (?r - 1)) div ?r" "ns < u64_max" 
    unfolding ns by (simp_all only: clamp_u64_id)
  have "gen tb now + (MILLI_PER_TOKEN - ?avail) \<le> gen tb later"
    using gen_after_wait [OF assms(7,6,4)] ceiling_suffices [OF assms(2)] ns'(1) by blast
  then have "MILLI_PER_TOKEN \<le> gen tb later - max ?c (gen tb later - ?cap)"
    using short assms(1,3) by linarith
  moreover from this have "max ?c (gen tb later - ?cap) + MILLI_PER_TOKEN \<le> u64_max"
    using assms(7) unfolding MILLI_PER_TOKEN_def by linarith
  ultimately have "plan_debit tb later ?c = Exchange (max ?c (gen tb later - ?cap) + MILLI_PER_TOKEN)"
    by (simp add: plan_debit_def Let_def)
  with plan ns'(2) show ?thesis by (simp add: try_debit_one_def)
qed

lemmas bucket_eval = plan_debit_def uncapped_generated_milli_at_def saturating_mul_def
  saturating_duration_since_def clamp_u64_def MILLI_PER_TOKEN_def nanos_per_sec_def u128_max_def
  u64_max_def Let_def

text \<open>Half a token is there after half a second; the other half needs another half second.\<close>

theorem bucket_wait_suffices_witness:
  "try_debit_one sample_bucket 500000000 = (Err (Some 500000000), sample_bucket)
    \<and> fst (try_debit_one sample_bucket 1000000000) = Ok ()"
proof -
  have refused: "try_debit_one sample_bucket 500000000 = (Err (Some 500000000), sample_bucket)"
    by (simp add: try_debit_one_def sample_bucket_def bucket_eval)
  have "fst (try_debit_one sample_bucket 1000000000) = Ok ()"
    by (rule bucket_wait_suffices [OF _ _ _ _ refused, THEN conjunct2, THEN conjunct2])
      (simp_all add: sample_bucket_def bucket_eval)
  with refused show ?thesis by simp
qed

text \<open>
  A fresh bucket need not be full: the start is backdated by a rounded-down fill time, so
  with capacity 1 and 3 tokens per second the first debit at the instant of construction is
  refused and told to wait 333334 nanoseconds.
\<close>

theorem fresh_bucket_refuses_first_debit:
  assumes "earliest \<le> now - 333333333"
  shows "\<exists>tb. TokenBucketRegulator_new earliest now 1 3 = Some tb
    \<and> try_debit_one tb now = (Err (Some 333334), tb)"
proof -
  have "instant_checked_sub earliest now 333333333 = Some (now - 333333333)"
    using assms by (simp add: instant_checked_sub_def)
  then have "TokenBucketRegulator_new earliest now 1 3 = Some \<lparr>tb_start = now - 333333333,
      capacity_milli = 1000, refill_milli_per_sec = 3000, consumed_milli = 0\<rparr>"
    by (simp add: TokenBucketRegulator_new_def backdated_start_for_full_bucket_def bucket_eval)
  then show ?thesis by (simp add: try_debit_one_def bucket_eval)
qed

theorem fresh_bucket_refuses_first_debit_witness:
  "\<exists>tb. TokenBucketRegulator_new 0 1000000000 1 3 = Some tb
    \<and> try_debit_one tb 1000000000 = (Err (Some 333334), tb)"
  by (rule fresh_bucket_refuses_first_debit) simp

end
