(* ===== verification/Backoff.thy ===== *)
theory Backoff
  imports Token_Bucket
begin

text \<open>
  The pause-until-instant regulator (\<open>cherry-pit-wq/src/backoff.rs\<close>). The armed offset only ever
  moves through \<open>fetch_max\<close>, a single atomic operation, so calls of racing workers are a sequence.
\<close>

record backoff_regulator =
  origin :: instant
  resume_at_nanos :: nat

definition BackoffRegulator_new :: "instant \<Rightarrow> backoff_regulator" where
  "BackoffRegulator_new now = \<lparr>origin = now, resume_at_nanos = 0\<rparr>"

definition set_backoff :: "instant \<Rightarrow> backoff_regulator \<Rightarrow> backoff_regulator" where
  "set_backoff until b =
    b\<lparr>resume_at_nanos := max (resume_at_nanos b) (clamp_u64 (saturating_duration_since until (origin b)))\<rparr>"

definition resume_at :: "backoff_regulator \<Rightarrow> instant option" where
  "resume_at b = (if resume_at_nanos b = 0 then None else Some (origin b + int (resume_at_nanos b)))"

text \<open>
  \<open>admit\<close> among the calls of other tasks: one loop round per \<open>CheckAt\<close>, with the clock it reads
  and whether the cancellation ends the sleep that follows.
\<close>

datatype backoff_event = Arm instant | CheckAt instant bool

fun backoff_admit :: "backoff_event list \<Rightarrow> backoff_regulator \<Rightarrow> (admission \<times> instant) option" where
  "backoff_admit [] b = None"
| "backoff_admit (Arm until # es) b = backoff_admit es (set_backoff until b)"
| "backoff_admit (CheckAt now cancelled # es) b =
    (case resume_at b of
      None \<Rightarrow> Some (Admitted, now)
    | Some until \<Rightarrow>
        if now \<ge> until then Some (Admitted, now)
        else if cancelled then Some (AdmitCancelled, now) else backoff_admit es b)"

text \<open>The instants armed so far, among the events before a round.\<close>

fun armed_in :: "backoff_event list \<Rightarrow> instant list" where
  "armed_in [] = []"
| "armed_in (Arm until # es) = until # armed_in es"
| "armed_in (CheckAt now cancelled # es) = armed_in es"

definition passed :: "instant \<Rightarrow> instant \<Rightarrow> instant \<Rightarrow> bool" where
  "passed org now until \<longleftrightarrow> until \<le> org \<or> org + int (clamp_u64 (nat (until - org))) \<le> now"

definition clear_at :: "backoff_regulator \<Rightarrow> instant \<Rightarrow> bool" where
  "clear_at b now \<longleftrightarrow> (case resume_at b of None \<Rightarrow> True | Some until \<Rightarrow> until \<le> now)"

lemma clear_at_set: "clear_at (set_backoff until b) now \<longleftrightarrow> clear_at b now \<and> passed (origin b) now until"
proof -
  have "clamp_u64 (nat (until - origin b)) = 0 \<longleftrightarrow> until \<le> origin b"
    by (auto simp: clamp_u64_def u64_max_def min_def)
  then show ?thesis
    by (auto simp: clear_at_def passed_def resume_at_def set_backoff_def saturating_duration_since_def
        max_def split: option.splits if_splits)
qed

lemma origin_set [simp]: "origin (set_backoff until b) = origin b"
  by (simp add: set_backoff_def)

lemma backoff_admit_check:
  "backoff_admit (CheckAt now c # es) b =
    (if clear_at b now then Some (Admitted, now)
     else if c then Some (AdmitCancelled, now) else backoff_admit es b)"
  by (auto simp: clear_at_def split: option.splits)

lemma backoff_admit_round:
  assumes "backoff_admit es b = Some (out, now)"
  shows "\<exists>pre c post. es = pre @ CheckAt now c # post
    \<and> (if out = Admitted then clear_at b now \<and> (\<forall>u \<in> set (armed_in pre). passed (origin b) now u)
       else c \<and> \<not> (clear_at b now \<and> (\<forall>u \<in> set (armed_in pre). passed (origin b) now u)))"
  using assms
proof (induction es arbitrary: b)
  case (Cons e es)
  show ?case
  proof (cases e)
    case (Arm u)
    with Cons.prems have "backoff_admit es (set_backoff u b) = Some (out, now)" by simp
    from Cons.IH [OF this, unfolded origin_set] obtain pre c post where
      "es = pre @ CheckAt now c # post"
      "if out = Admitted then clear_at (set_backoff u b) now \<and> (\<forall>u \<in> set (armed_in pre). passed (origin b) now u)
       else c \<and> \<not> (clear_at (set_backoff u b) now \<and> (\<forall>u \<in> set (armed_in pre). passed (origin b) now u))"
      by blast
    with Arm show ?thesis
      by (intro exI [of _ "e # pre"] exI [of _ c] exI [of _ post]) (auto simp: clear_at_set split: if_splits)
  next
    case (CheckAt t c)
    show ?thesis
    proof (cases "clear_at b t \<or> c")
      case True
      with Cons.prems CheckAt have "t = now" "out = (if clear_at b t then Admitted else AdmitCancelled)"
        unfolding CheckAt backoff_admit_check by (auto split: if_splits)
      with CheckAt True show ?thesis
        by (intro exI [of _ "[]"] exI [of _ c] exI [of _ es]) (auto split: if_splits)
    next
      case False
      with Cons.prems CheckAt have "backoff_admit es b = Some (out, now)"
        unfolding CheckAt backoff_admit_check by simp
      from Cons.IH [OF this] obtain pre c' post where
        "es = pre @ CheckAt now c' # post"
        "if out = Admitted then clear_at b now \<and> (\<forall>u \<in> set (armed_in pre). passed (origin b) now u)
         else c' \<and> \<not> (clear_at b now \<and> (\<forall>u \<in> set (armed_in pre). passed (origin b) now u))" by blast
      with CheckAt show ?thesis
        by (intro exI [of _ "e # pre"] exI [of _ c'] exI [of _ post]) auto
    qed
  qed
qed simp

text \<open>
  A server-imposed wait is never shortened: whatever instants other tasks arm and in which
  order, \<open>admit\<close> on a new regulator grants only at a clock reading that has passed every instant
  armed before it, and gives up only at a cancelled sleep while one of them is still ahead.
\<close>

theorem backoff_never_admits_early:
  assumes "backoff_admit es (BackoffRegulator_new start) = Some (out, now)"
  shows "\<exists>pre c post. es = pre @ CheckAt now c # post
    \<and> (if out = Admitted then \<forall>u \<in> set (armed_in pre). passed start now u
       else c \<and> (\<exists>u \<in> set (armed_in pre). \<not> passed start now u))"
proof -
  have new: "clear_at (BackoffRegulator_new start) now \<longleftrightarrow> True" "origin (BackoffRegulator_new start) = start"
    by (simp_all add: BackoffRegulator_new_def clear_at_def resume_at_def)
  from backoff_admit_round [OF assms, unfolded new] show ?thesis
    by (cases "out = Admitted") auto
qed

theorem backoff_never_admits_early_witness:
  "backoff_admit [Arm 50, CheckAt 20 False, Arm 30, CheckAt 60 False] (BackoffRegulator_new 0)
      = Some (Admitted, 60)
    \<and> (\<exists>pre c post. [Arm 50, CheckAt 20 False, Arm 30, CheckAt 60 False] = pre @ CheckAt 60 c # post
        \<and> (\<forall>u \<in> set (armed_in pre). passed 0 60 u))"
proof -
  have run: "backoff_admit [Arm 50, CheckAt 20 False, Arm 30, CheckAt 60 False] (BackoffRegulator_new 0)
      = Some (Admitted, 60)"
    by (simp add: BackoffRegulator_new_def set_backoff_def resume_at_def saturating_duration_since_def
        clamp_u64_def u64_max_def)
  from backoff_never_admits_early [OF run] run show ?thesis by simp
qed

end
