(* ===== verification/Budget.thy ===== *)
theory Budget
  imports Prelude
begin

text \<open>
  The call budget gate (\<open>cherry-pit-wq/src/budget.rs\<close>). \<open>acquire\<close> and \<open>refund\<close> are lock-free, so
  the model has one step per atomic access: every worker has a program counter that says which
  access comes next and what it has read so far, and any worker may move at any time. Waking
  through \<open>Notify::notify_waiters\<close> reaches exactly the waiters registered at that moment.
  Counters are \<open>nat\<close> below their 64-bit bound; \<open>total_calls\<close> wraps.
\<close>

section \<open>The gate\<close>

datatype replenished = Ceiling nat | ReplenishCancelled | Unavailable

record epoch_usage_reading =
  usage_calls_made :: nat
  usage_epoch_limit :: nat

text \<open>Where a worker stands; the arguments are the values it holds in local variables.\<close>

datatype budget_pc =
    Idle
  | LoadLimit
  | LoadCalls nat
  | ExchangeCalls nat nat
  | CountCall
  | Elect nat
  | Recheck nat
  | Pause
  | AwaitReplenish bool
  | StoreLimit nat
  | StoreCalls
  | DropGuard bool
  | NotifyWaiters bool
  | Register nat
  | CheckRegistered nat bool
  | Parked bool
  | Returned bool
  | RefundLoad
  | RefundExchange nat

text \<open>
  The gate with its workers. The attached notify and policy are booleans: what the policy
  answers is the environment's choice. The last five fields only record what happened: permits
  granted and refunded in the current epoch and in all, and the number of epoch resets.
\<close>

record budget_gate =
  calls :: nat
  total_calls :: nat
  limit :: nat
  resetting :: bool
  pause_notify :: bool
  pauses :: nat
  replenish_policy :: bool
  pcs :: "nat \<Rightarrow> budget_pc"
  granted :: nat
  refunded :: nat
  epochs :: nat
  all_granted :: nat
  all_refunded :: nat

text \<open>None is the panic on a zero limit.\<close>

definition BudgetGate_new :: "nat \<Rightarrow> budget_gate option" where
  "BudgetGate_new l =
    (if l = 0 then None else Some \<lparr>calls = 0, total_calls = 0, limit = l, resetting = False,
      pause_notify = False, pauses = 0, replenish_policy = False, pcs = (\<lambda>_. Idle),
      granted = 0, refunded = 0, epochs = 0, all_granted = 0, all_refunded = 0\<rparr>)"

definition set_pause_notify :: "budget_gate \<Rightarrow> budget_gate" where
  "set_pause_notify g = g\<lparr>pause_notify := True\<rparr>"

definition set_replenish_policy :: "budget_gate \<Rightarrow> budget_gate" where
  "set_replenish_policy g = g\<lparr>replenish_policy := True\<rparr>"

definition set_epoch_limit :: "nat \<Rightarrow> budget_gate \<Rightarrow> budget_gate option" where
  "set_epoch_limit l g = (if l = 0 then None else Some (g\<lparr>limit := l\<rparr>))"

definition calls_made :: "budget_gate \<Rightarrow> nat" where
  "calls_made g = calls g"

definition epoch_usage :: "budget_gate \<Rightarrow> epoch_usage_reading" where
  "epoch_usage g = \<lparr>usage_calls_made = calls g, usage_epoch_limit = limit g\<rparr>"

definition total_calls_made :: "budget_gate \<Rightarrow> nat" where
  "total_calls_made g = total_calls g"

abbreviation goto :: "nat \<Rightarrow> budget_pc \<Rightarrow> budget_gate \<Rightarrow> budget_gate" where
  "goto w p g \<equiv> g\<lparr>pcs := (pcs g)(w := p)\<rparr>"

text \<open>\<open>notify_waiters\<close>: every registered waiter is notified.\<close>

fun notified :: "budget_pc \<Rightarrow> budget_pc" where
  "notified (CheckRegistered l _) = CheckRegistered l True"
| "notified (Parked _) = Parked True"
| "notified p = p"

definition notify_waiters :: "budget_gate \<Rightarrow> budget_gate" where
  "notify_waiters g = g\<lparr>pcs := (\<lambda>w. notified (pcs g w))\<rparr>"

section \<open>Steps\<close>

text \<open>The two accesses of \<open>refund\<close>.\<close>

fun refund_load :: "nat \<Rightarrow> budget_gate \<Rightarrow> budget_gate" where
  "refund_load w g = goto w (if calls g = 0 then Idle else RefundExchange (calls g)) g"

fun refund_exchange :: "nat \<Rightarrow> nat \<Rightarrow> budget_gate \<Rightarrow> budget_gate" where
  "refund_exchange w current g =
    (if calls g = current
     then goto w Idle (g\<lparr>calls := current - 1, refunded := refunded g + 1,
        all_refunded := all_refunded g + 1\<rparr>)
     else goto w RefundLoad g)"

text \<open>The next access of a worker, where it does not depend on the environment.\<close>

fun advance :: "nat \<Rightarrow> budget_pc \<Rightarrow> budget_gate \<Rightarrow> budget_gate option" where
  "advance w LoadLimit g = Some (goto w (LoadCalls (limit g)) g)"
| "advance w (LoadCalls l) g =
    Some (goto w (if calls g < l then ExchangeCalls l (calls g) else Elect l) g)"
| "advance w (ExchangeCalls l current) g =
    Some (if calls g = current
      then goto w CountCall (g\<lparr>calls := current + 1, granted := granted g + 1,
        all_granted := all_granted g + 1\<rparr>)
      else goto w LoadLimit g)"
| "advance w CountCall g =
    Some (goto w (Returned True) (g\<lparr>total_calls := (total_calls g + 1) mod 2 ^ 64\<rparr>))"
| "advance w (Elect l) g =
    Some (if resetting g then goto w (Register l) g else goto w (Recheck l) (g\<lparr>resetting := True\<rparr>))"
| "advance w (Recheck l) g = Some (goto w (if calls g < l then DropGuard True else Pause) g)"
| "advance w Pause g =
    Some (goto w (AwaitReplenish (replenish_policy g))
      (if pause_notify g then g\<lparr>pauses := pauses g + 1\<rparr> else g))"
| "advance w (StoreLimit ceiling) g = Some (goto w StoreCalls (g\<lparr>limit := ceiling\<rparr>))"
| "advance w StoreCalls g = Some (goto w (DropGuard True) (g\<lparr>calls := 0, granted := 0, refunded := 0,
    epochs := epochs g + 1\<rparr>))"
| "advance w (DropGuard reopened) g = Some (goto w (NotifyWaiters reopened) (g\<lparr>resetting := False\<rparr>))"
| "advance w (NotifyWaiters reopened) g =
    Some (goto w (if reopened then LoadLimit else Returned False) (notify_waiters g))"
| "advance w (Register l) g = Some (goto w (CheckRegistered l False) g)"
| "advance w (CheckRegistered l woken) g = Some (goto w (if calls g < l then LoadLimit else Parked woken) g)"
| "advance w (Parked True) g = Some (goto w LoadLimit g)"
| "advance w RefundLoad g = Some (refund_load w g)"
| "advance w (RefundExchange current) g = Some (refund_exchange w current g)"
| "advance w _ g = None"

text \<open>
  What may happen: a worker advances; a weak exchange fails for no reason; the cooldown sleep
  ends; the policy answers; a cancellation reaches a wait; a call of \<open>acquire\<close>, \<open>refund\<close> or
  \<open>set_epoch_limit\<close> begins.
\<close>

datatype budget_action =
    Advance nat
  | SpuriousFailure nat
  | SleepEnds nat
  | PolicyAnswers nat replenished
  | CancelFires nat
  | CallAcquire nat
  | CallRefund nat
  | CallSetLimit nat

fun budget_step :: "budget_action \<Rightarrow> budget_gate \<Rightarrow> budget_gate option" where
  "budget_step (Advance w) g = advance w (pcs g w) g"
| "budget_step (SpuriousFailure w) g =
    (case pcs g w of
      ExchangeCalls _ _ \<Rightarrow> Some (goto w LoadLimit g)
    | RefundExchange _ \<Rightarrow> Some (goto w RefundLoad g)
    | _ \<Rightarrow> None)"
| "budget_step (SleepEnds w) g =
    (case pcs g w of AwaitReplenish False \<Rightarrow> Some (goto w StoreCalls g) | _ \<Rightarrow> None)"
| "budget_step (PolicyAnswers w answer) g =
    (case pcs g w of
      AwaitReplenish True \<Rightarrow>
        (case answer of
          Ceiling c \<Rightarrow> if c = 0 then None else Some (goto w (StoreLimit c) g)
        | ReplenishCancelled \<Rightarrow> Some (goto w (DropGuard False) g)
        | Unavailable \<Rightarrow> Some (goto w (DropGuard False) g))
    | _ \<Rightarrow> None)"
| "budget_step (CancelFires w) g =
    (case pcs g w of
      AwaitReplenish False \<Rightarrow> Some (goto w (DropGuard False) g)
    | Parked _ \<Rightarrow> Some (goto w (Returned False) g)
    | _ \<Rightarrow> None)"
| "budget_step (CallAcquire w) g =
    (case pcs g w of
      Idle \<Rightarrow> Some (goto w LoadLimit g)
    | Returned _ \<Rightarrow> Some (goto w LoadLimit g)
    | _ \<Rightarrow> None)"
| "budget_step (CallRefund w) g =
    (case pcs g w of Returned True \<Rightarrow> Some (goto w RefundLoad g) | _ \<Rightarrow> None)"
| "budget_step (CallSetLimit l) g = set_epoch_limit l g"

fun budget_exec :: "budget_action list \<Rightarrow> budget_gate \<Rightarrow> budget_gate option" where
  "budget_exec [] g = Some g"
| "budget_exec (a # acts) g = (case budget_step a g of None \<Rightarrow> None | Some g' \<Rightarrow> budget_exec acts g')"

lemma budget_exec_append:
  "budget_exec (as @ bs) g = (case budget_exec as g of None \<Rightarrow> None | Some g' \<Rightarrow> budget_exec bs g')"
  by (induction as arbitrary: g) (auto split: option.splits)

section \<open>One resetter, bounded calls\<close>

text \<open>The elected worker holds the guard from its exchange of \<open>resetting\<close> to the drop.\<close>

fun elected :: "budget_pc \<Rightarrow> bool" where
  "elected (Recheck _) = True"
| "elected Pause = True"
| "elected (AwaitReplenish _) = True"
| "elected (StoreLimit _) = True"
| "elected StoreCalls = True"
| "elected (DropGuard _) = True"
| "elected _ = False"

definition one_elected :: "(nat \<Rightarrow> budget_pc) \<Rightarrow> bool \<Rightarrow> bool" where
  "one_elected P flag \<longleftrightarrow> (\<forall>w w'. elected (P w) \<and> elected (P w') \<longrightarrow> w = w')
    \<and> (flag \<longleftrightarrow> (\<exists>w. elected (P w)))"

lemma one_elected_keep: "one_elected P flag \<Longrightarrow> elected p = elected (P w) \<Longrightarrow> one_elected (P(w := p)) flag"
  by (auto simp: one_elected_def)

lemma one_elected_take: "one_elected P False \<Longrightarrow> elected p \<Longrightarrow> one_elected (P(w := p)) True"
  by (auto simp: one_elected_def)

lemma one_elected_release:
  "one_elected P flag \<Longrightarrow> elected (P w) \<Longrightarrow> \<not> elected p \<Longrightarrow> one_elected (P(w := p)) False"
  by (auto simp: one_elected_def)

lemma elected_notified [simp]: "elected (notified p) = elected p"
  by (cases p) simp_all

lemma one_elected_notify: "one_elected (\<lambda>w. notified (P w)) flag = one_elected P flag"
  by (simp add: one_elected_def)

text \<open>What a worker has read stays within the bound on limits.\<close>

fun pc_bounded :: "nat \<Rightarrow> budget_pc \<Rightarrow> bool" where
  "pc_bounded m (LoadCalls l) \<longleftrightarrow> l \<le> m"
| "pc_bounded m (ExchangeCalls l c) \<longleftrightarrow> l \<le> m \<and> c < l"
| "pc_bounded m (StoreLimit c) \<longleftrightarrow> c \<le> m"
| "pc_bounded m (RefundExchange c) \<longleftrightarrow> 0 < c"
| "pc_bounded m _ \<longleftrightarrow> True"

lemma pc_bounded_notified [simp]: "pc_bounded m (notified p) = pc_bounded m p"
  by (cases p) simp_all

definition counts_ok :: "nat \<Rightarrow> budget_gate \<Rightarrow> bool" where
  "counts_ok m g \<longleftrightarrow> limit g \<le> m \<and> calls g \<le> m \<and> calls g + refunded g = granted g
    \<and> all_granted g + refunded g \<le> m * epochs g + all_refunded g + granted g
    \<and> (\<forall>w. pc_bounded m (pcs g w))"

lemma advance_elected:
  assumes "advance w (pcs g w) g = Some g'" "one_elected (pcs g) (resetting g)"
  shows "one_elected (pcs g') (resetting g')"
proof (cases "pcs g w")
  case (Elect l)
  show ?thesis
  proof (cases "resetting g")
    case True
    with assms Elect show ?thesis by (auto simp del: fun_upd_apply intro!: one_elected_keep)
  next
    case False
    with assms Elect show ?thesis by (auto simp del: fun_upd_apply intro!: one_elected_take)
  qed
next
  case (DropGuard b)
  with assms show ?thesis by (auto simp del: fun_upd_apply intro!: one_elected_release)
next
  case (NotifyWaiters b)
  have "one_elected (\<lambda>w. notified (pcs g w)) (resetting g)" using assms(2) by (simp add: one_elected_notify)
  then have "one_elected ((\<lambda>w. notified (pcs g w))(w := if b then LoadLimit else Returned False)) (resetting g)"
    by (rule one_elected_keep) (simp add: NotifyWaiters)
  with assms(1) NotifyWaiters show ?thesis by (auto simp: notify_waiters_def simp del: fun_upd_apply)
next
  case (Parked b)
  with assms show ?thesis by (cases b) (auto simp del: fun_upd_apply intro!: one_elected_keep)
qed (use assms in \<open>auto simp del: fun_upd_apply split: if_splits intro!: one_elected_keep\<close>)

lemma budget_step_elected:
  assumes "budget_step a g = Some g'" "one_elected (pcs g) (resetting g)"
  shows "one_elected (pcs g') (resetting g')"
  using assms
proof (cases a)
  case (Advance w)
  with assms show ?thesis by (auto intro: advance_elected)
qed (auto simp del: fun_upd_apply simp: set_epoch_limit_def split: budget_pc.splits bool.splits replenished.splits
    if_splits intro!: one_elected_keep)

lemma advance_counts:
  assumes "advance w (pcs g w) g = Some g'" "counts_ok m g"
  shows "counts_ok m g'"
proof -
  have pc: "pc_bounded m (pcs g w)" using assms(2) by (simp add: counts_ok_def)
  show ?thesis
  proof (cases "pcs g w")
    case (NotifyWaiters b)
    with assms show ?thesis by (auto simp: counts_ok_def notify_waiters_def)
  next
    case (Parked b)
    with assms show ?thesis by (cases b) (auto simp: counts_ok_def)
  qed (use assms pc in \<open>auto simp: counts_ok_def split: if_splits\<close>)
qed

text \<open>The limits an action brings in.\<close>

fun action_limit :: "budget_action \<Rightarrow> nat" where
  "action_limit (CallSetLimit l) = l"
| "action_limit (PolicyAnswers w (Ceiling c)) = c"
| "action_limit _ = 0"

lemma budget_step_counts:
  assumes "budget_step a g = Some g'" "counts_ok m g" "action_limit a \<le> m"
  shows "counts_ok m g'"
  using assms
proof (cases a)
  case (Advance w)
  with assms show ?thesis by (auto intro: advance_counts)
next
  case (PolicyAnswers w r)
  with assms show ?thesis
    by (cases r) (auto simp: counts_ok_def split: budget_pc.splits bool.splits if_splits)
qed (auto simp: counts_ok_def set_epoch_limit_def split: budget_pc.splits bool.splits if_splits)

text \<open>An epoch is opened by the end of a cooldown or by a ceiling from the policy.\<close>

fun opens_epoch :: "budget_action \<Rightarrow> bool" where
  "opens_epoch (SleepEnds w) = True"
| "opens_epoch (PolicyAnswers w (Ceiling c)) = True"
| "opens_epoch _ = False"

fun storing :: "budget_pc \<Rightarrow> bool" where
  "storing (StoreLimit _) = True"
| "storing StoreCalls = True"
| "storing _ = False"

lemma storing_elected: "storing p \<Longrightarrow> elected p"
  by (cases p) simp_all

lemma storing_notified [simp]: "storing (notified p) = storing p"
  by (cases p) simp_all

definition epochs_ok :: "nat \<Rightarrow> budget_gate \<Rightarrow> bool" where
  "epochs_ok k g \<longleftrightarrow> epochs g \<le> k \<and> ((\<exists>w. storing (pcs g w)) \<longrightarrow> epochs g < k)"

lemma epochs_ok_keep:
  "epochs_ok k g \<Longrightarrow> epochs g' = epochs g \<Longrightarrow> (\<And>w. storing (pcs g' w) \<Longrightarrow> \<exists>w'. storing (pcs g w')) \<Longrightarrow> epochs_ok k g'"
  unfolding epochs_ok_def by metis

lemma advance_epochs:
  assumes "advance w (pcs g w) g = Some g'" "one_elected (pcs g) (resetting g)" "epochs_ok k g"
  shows "epochs_ok k g'"
proof (cases "pcs g w")
  case StoreCalls
  have "\<not> storing (pcs g v)" if "v \<noteq> w" for v
    using assms(2) that StoreCalls storing_elected [of "pcs g v"] by (fastforce simp: one_elected_def)
  moreover have "epochs g < k"
    using assms(3) StoreCalls unfolding epochs_ok_def by (metis storing.simps(2))
  ultimately show ?thesis using assms(1) StoreCalls by (auto simp: epochs_ok_def split: if_splits)
next
  case (StoreLimit c)
  then have "\<exists>w'. storing (pcs g w')" by (intro exI [of _ w]) simp
  moreover have "epochs g' = epochs g" using assms(1) StoreLimit by auto
  ultimately show ?thesis by (intro epochs_ok_keep [OF assms(3)])
next
  case (Parked b)
  with assms show ?thesis by (cases b) (auto intro!: epochs_ok_keep [of k g] split: if_splits)
qed (use assms in \<open>auto simp: notify_waiters_def intro!: epochs_ok_keep [of k g] split: if_splits\<close>)

lemma budget_step_epochs:
  assumes "budget_step a g = Some g'" "one_elected (pcs g) (resetting g)" "epochs_ok k g"
  shows "epochs_ok (if opens_epoch a then Suc k else k) g'"
proof (cases a)
  case (Advance w)
  with assms show ?thesis by (auto intro: advance_epochs)
next
  case (SleepEnds w)
  with assms show ?thesis by (auto simp: epochs_ok_def split: budget_pc.splits bool.splits)
next
  case (PolicyAnswers w r)
  show ?thesis
  proof (cases r)
    case (Ceiling c)
    with PolicyAnswers assms show ?thesis
      by (auto simp: epochs_ok_def split: budget_pc.splits bool.splits if_splits)
  qed (use PolicyAnswers assms in \<open>auto split: budget_pc.splits bool.splits if_splits intro!: epochs_ok_keep [of k g]\<close>)
qed (use assms in \<open>auto simp: set_epoch_limit_def split: budget_pc.splits bool.splits if_splits intro!: epochs_ok_keep [of k g]\<close>)

definition gate_inv :: "nat \<Rightarrow> nat \<Rightarrow> budget_gate \<Rightarrow> bool" where
  "gate_inv m k g \<longleftrightarrow> one_elected (pcs g) (resetting g) \<and> counts_ok m g \<and> epochs_ok k g"

lemma gate_inv_exec:
  "gate_inv m k g \<Longrightarrow> \<forall>a \<in> set acts. action_limit a \<le> m \<Longrightarrow> budget_exec acts g = Some g' \<Longrightarrow>
    gate_inv m (k + length (filter opens_epoch acts)) g'"
proof (induction acts arbitrary: g k)
  case (Cons a acts)
  from Cons.prems(3) obtain g1 where g1: "budget_step a g = Some g1" "budget_exec acts g1 = Some g'"
    by (auto split: option.splits)
  have "gate_inv m (if opens_epoch a then Suc k else k) g1"
    using Cons.prems(1,2) budget_step_elected [OF g1(1)] budget_step_counts [OF g1(1)]
      budget_step_epochs [OF g1(1)] by (auto simp: gate_inv_def)
  from Cons.IH [OF this _ g1(2)] Cons.prems(2) show ?case by (auto split: if_splits)
qed simp

text \<open>A new gate, with or without a policy and a pause notify attached.\<close>

definition attached :: "bool \<Rightarrow> bool \<Rightarrow> budget_gate \<Rightarrow> budget_gate" where
  "attached policy pause g =
    (let g1 = (if policy then set_replenish_policy g else g) in if pause then set_pause_notify g1 else g1)"

lemma gate_inv_new:
  "BudgetGate_new l = Some g \<Longrightarrow> l \<le> m \<Longrightarrow> gate_inv m 0 (attached policy pause g)"
  by (auto simp: BudgetGate_new_def gate_inv_def one_elected_def counts_ok_def epochs_ok_def attached_def
      set_replenish_policy_def set_pause_notify_def split: if_splits)

text \<open>
  Limit 1: worker 1 takes the permit; worker 2 is elected while worker 3 loses the election but
  has not registered yet; worker 2 opens the next epoch and takes its only permit; then worker 3
  registers, finds no permit and parks.
\<close>

definition lost_wakeup :: "budget_action list" where
  "lost_wakeup =
    [CallAcquire 1, Advance 1, Advance 1, Advance 1, Advance 1,
     CallAcquire 2, Advance 2, Advance 2, Advance 2,
     CallAcquire 3, Advance 3, Advance 3, Advance 3,
     Advance 2, Advance 2, SleepEnds 2, Advance 2, Advance 2, Advance 2,
     Advance 2, Advance 2, Advance 2, Advance 2,
     Advance 3, Advance 3]"

definition one_permit_gate :: budget_gate where
  "one_permit_gate = the (BudgetGate_new 1)"

lemma one_permit_gate: "BudgetGate_new 1 = Some one_permit_gate"
  by (simp add: one_permit_gate_def BudgetGate_new_def)

definition stalled_gate :: budget_gate where
  "stalled_gate = the (budget_exec lost_wakeup one_permit_gate)"

lemma stalled_gate:
  "budget_exec lost_wakeup one_permit_gate = Some stalled_gate"
  "pcs stalled_gate = (\<lambda>_. Idle)(1 := Returned True, 2 := Returned True, 3 := Parked False)"
  "resetting stalled_gate = False" "calls stalled_gate = 1" "all_granted stalled_gate = 2"
  by (simp_all add: stalled_gate_def lost_wakeup_def one_permit_gate_def BudgetGate_new_def notify_waiters_def
      fun_eq_iff)

text \<open>
  C9. For any number of workers, any interleaving of their atomic accesses, any answers of the
  policy and any concurrent change of the limit: at most one worker is elected to open the next
  epoch, and the \<open>resetting\<close> flag is set exactly while one is; the calls of an epoch never exceed
  the largest limit in play and are the permits granted less those refunded.
\<close>

theorem budget_gate_exclusive_and_bounded:
  assumes "BudgetGate_new l = Some g0" and "l \<le> m" and "\<forall>a \<in> set acts. action_limit a \<le> m"
    and "budget_exec acts (attached policy pause g0) = Some g"
  shows "(\<forall>w w'. elected (pcs g w) \<and> elected (pcs g w') \<longrightarrow> w = w')
    \<and> (resetting g \<longleftrightarrow> (\<exists>w. elected (pcs g w)))
    \<and> calls g \<le> m \<and> calls g + refunded g = granted g"
  using gate_inv_exec [OF gate_inv_new [OF assms(1,2)] assms(3,4)]
  by (simp add: gate_inv_def one_elected_def counts_ok_def)

theorem budget_gate_exclusive_and_bounded_witness:
  "resetting stalled_gate = (\<exists>w. elected (pcs stalled_gate w)) \<and> calls stalled_gate \<le> 1
    \<and> calls stalled_gate + refunded stalled_gate = granted stalled_gate"
proof -
  have "budget_exec lost_wakeup (attached False False one_permit_gate) = Some stalled_gate"
    using stalled_gate(1) by (simp add: attached_def)
  moreover have "\<forall>a \<in> set lost_wakeup. action_limit a \<le> 1" by (simp add: lost_wakeup_def)
  ultimately show ?thesis
    using budget_gate_exclusive_and_bounded [OF one_permit_gate le_refl] by blast
qed

text \<open>
  The budget over a whole run: if the cooldown ended or the policy gave a ceiling \<open>k\<close> times,
  then at most \<open>(k + 1) * m\<close> permits were granted beyond those refunded. Nothing else opens an
  epoch: not a cancellation, not a policy without an answer, not a spurious failure.
\<close>

theorem budget_over_epochs:
  assumes "BudgetGate_new l = Some g0" and "l \<le> m" and "\<forall>a \<in> set acts. action_limit a \<le> m"
    and "budget_exec acts (attached policy pause g0) = Some g"
  shows "all_granted g \<le> (length (filter opens_epoch acts) + 1) * m + all_refunded g"
proof -
  let ?k = "length (filter opens_epoch acts)"
  have inv: "counts_ok m g" "epochs g \<le> ?k"
    using gate_inv_exec [OF gate_inv_new [OF assms(1,2)] assms(3,4)]
    by (auto simp: gate_inv_def epochs_ok_def)
  then have "all_granted g \<le> m * epochs g + all_refunded g + m" by (simp add: counts_ok_def)
  also have "\<dots> \<le> m * ?k + all_refunded g + m" using inv(2) by simp
  finally show ?thesis by (simp add: algebra_simps)
qed

theorem budget_over_epochs_witness:
  "all_granted stalled_gate = 2
    \<and> all_granted stalled_gate \<le> (length (filter opens_epoch lost_wakeup) + 1) * 1 + all_refunded stalled_gate"
proof -
  have "budget_exec lost_wakeup (attached False False one_permit_gate) = Some stalled_gate"
    using stalled_gate(1) by (simp add: attached_def)
  moreover have "\<forall>a \<in> set lost_wakeup. action_limit a \<le> 1" by (simp add: lost_wakeup_def)
  ultimately show ?thesis
    using budget_over_epochs [OF one_permit_gate le_refl] stalled_gate(5) by blast
qed

section \<open>A lost wake-up\<close>

fun outside_acquire :: "budget_pc \<Rightarrow> bool" where
  "outside_acquire Idle = True"
| "outside_acquire (Returned _) = True"
| "outside_acquire RefundLoad = True"
| "outside_acquire (RefundExchange _) = True"
| "outside_acquire _ = False"

fun keeps_waiting :: "nat \<Rightarrow> budget_action \<Rightarrow> bool" where
  "keeps_waiting w (CallAcquire v) = False"
| "keeps_waiting w (CancelFires v) \<longleftrightarrow> v \<noteq> w"
| "keeps_waiting w _ = True"

definition stalled :: "nat \<Rightarrow> budget_gate \<Rightarrow> bool" where
  "stalled w g \<longleftrightarrow> pcs g w = Parked False \<and> (\<forall>v. v \<noteq> w \<longrightarrow> outside_acquire (pcs g v))"

lemma stalled_step:
  assumes "stalled w g" "keeps_waiting w a" "budget_step a g = Some g'"
  shows "stalled w g'"
proof -
  have others: "outside_acquire (pcs g v)" if "v \<noteq> w" for v using assms(1) that by (simp add: stalled_def)
  have me: "pcs g w = Parked False" using assms(1) by (simp add: stalled_def)
  show ?thesis
  proof (cases a)
    case (Advance v)
    show ?thesis
    proof (cases "v = w")
      case False
      from others [OF False] assms Advance False me show ?thesis
        by (cases "pcs g v") (auto simp: stalled_def split: if_splits)
    qed (use assms Advance me in auto)
  next
    case (SpuriousFailure v)
    with assms me others [of v] show ?thesis by (cases "v = w") (auto simp: stalled_def split: budget_pc.splits)
  next
    case (SleepEnds v)
    with assms me others [of v] show ?thesis by (cases "v = w") (auto split: budget_pc.splits bool.splits)
  next
    case (PolicyAnswers v r)
    with assms me others [of v] show ?thesis by (cases "v = w") (auto split: budget_pc.splits bool.splits)
  next
    case (CancelFires v)
    with assms me others [of v] show ?thesis by (auto split: budget_pc.splits bool.splits)
  next
    case (CallAcquire v)
    with assms show ?thesis by simp
  next
    case (CallRefund v)
    with assms me show ?thesis by (auto simp: stalled_def split: budget_pc.splits bool.splits)
  next
    case (CallSetLimit l)
    with assms me show ?thesis by (auto simp: stalled_def set_epoch_limit_def split: if_splits)
  qed
qed

lemma stalled_exec:
  "stalled w g \<Longrightarrow> \<forall>a \<in> set acts. keeps_waiting w a \<Longrightarrow> budget_exec acts g = Some g' \<Longrightarrow> stalled w g'"
  by (induction acts arbitrary: g) (auto split: option.splits dest: stalled_step)

text \<open>
  C38. A lost wake-up is reachable: a gate with limit 1 and three workers can reach a state in
  which worker 3 waits although no worker is elected, and from there, refunds and limit changes
  included, nothing ever wakes it except a new call of \<open>acquire\<close> or its own cancellation. The
  election was lost before the registration, and the elected worker notified in between.
\<close>

theorem budget_wakeup_can_be_lost:
  "\<exists>g0 g. BudgetGate_new 1 = Some g0 \<and> budget_exec lost_wakeup g0 = Some g
    \<and> pcs g 3 = Parked False \<and> \<not> resetting g
    \<and> (\<forall>acts g'. (\<forall>a \<in> set acts. keeps_waiting 3 a) \<and> budget_exec acts g = Some g' \<longrightarrow> pcs g' 3 = Parked False)"
proof -
  have "stalled 3 stalled_gate" by (simp add: stalled_def stalled_gate(2))
  then have "\<forall>acts g'. (\<forall>a \<in> set acts. keeps_waiting 3 a) \<and> budget_exec acts stalled_gate = Some g'
      \<longrightarrow> pcs g' 3 = Parked False"
    using stalled_exec [of 3 stalled_gate] by (auto simp: stalled_def)
  with one_permit_gate stalled_gate(1-3) show ?thesis by fastforce
qed

text \<open>For instance a refund by worker 1 frees the permit and leaves worker 3 parked.\<close>

theorem budget_wakeup_can_be_lost_witness:
  "\<exists>g0 g g'. BudgetGate_new 1 = Some g0 \<and> budget_exec lost_wakeup g0 = Some g
    \<and> budget_exec [CallRefund 1, Advance 1, Advance 1] g = Some g' \<and> calls g' = 0 \<and> pcs g' 3 = Parked False"
proof -
  from budget_wakeup_can_be_lost obtain g0 g where g: "BudgetGate_new 1 = Some g0"
      "budget_exec lost_wakeup g0 = Some g"
    and stay: "\<forall>acts g'. (\<forall>a \<in> set acts. keeps_waiting 3 a) \<and> budget_exec acts g = Some g' \<longrightarrow> pcs g' 3 = Parked False"
    by blast
  then have "g = stalled_gate" using one_permit_gate stalled_gate(1) by simp
  then obtain g' where g': "budget_exec [CallRefund 1, Advance 1, Advance 1] g = Some g'" "calls g' = 0"
    using stalled_gate(2,4) by auto
  moreover have "\<forall>a \<in> set [CallRefund 1, Advance 1, Advance 1]. keeps_waiting 3 a" by simp
  ultimately have "pcs g' 3 = Parked False" using stay by blast
  with g g' show ?thesis by blast
qed

end
