(* ===== verification/Work_Queue.thy ===== *)
theory Work_Queue
  imports Core_Types Channel
begin

text \<open>
  The deduplicating work queue (\<open>cherry-pit-wq/src/work_queue.rs\<close>). The
  channel and the concurrent set of pending keys come from other packages and are parameters;
  what the queue relies on is \<open>mpsc_contract\<close> and \<open>key_set_contract\<close>. The operations are given
  twice: as functions, for a caller that nobody disturbs, and as steps between their accesses to
  shared state, for producers and consumers that interleave.
\<close>

section \<open>Jobs and queue\<close>

record 'x job_spec =
  job_key :: domain_key
  job_context :: 'x
  job_origin :: job_source
  job_enqueued_at :: "int option"
  job_correlation :: correlation_context

definition JobSpec_new :: "domain_key \<Rightarrow> 'x \<Rightarrow> job_source \<Rightarrow> correlation_context \<Rightarrow> 'x job_spec" where
  "JobSpec_new key ctx origin correlation =
    \<lparr>job_key = key, job_context = ctx, job_origin = origin, job_enqueued_at = None,
      job_correlation = correlation\<rparr>"

datatype enqueue_result = Accepted | Deduplicated | QueueFull

text \<open>The concurrent set: insertion reports whether the key was absent.\<close>

record 'k key_set_ops =
  ks_insert :: "domain_key \<Rightarrow> 'k \<Rightarrow> bool \<times> 'k"
  ks_remove :: "domain_key \<Rightarrow> 'k \<Rightarrow> 'k"
  ks_len :: "'k \<Rightarrow> nat"

definition key_set_contract :: "'k key_set_ops \<Rightarrow> ('k \<Rightarrow> domain_key set) \<Rightarrow> bool" where
  "key_set_contract ks elems \<longleftrightarrow>
    (\<forall>k p. fst (ks_insert ks k p) = (k \<notin> elems p) \<and> elems (snd (ks_insert ks k p)) = insert k (elems p)
      \<and> elems (ks_remove ks k p) = elems p - {k} \<and> ks_len ks p = card (elems p))"

record ('c, 'k) work_queue =
  sender_open :: bool
  wq_channel :: 'c
  wq_pending :: 'k

text \<open>None is the panic on a zero capacity; the channel and the set come in empty.\<close>

definition WorkQueue_new :: "nat \<Rightarrow> (nat \<Rightarrow> 'c) \<Rightarrow> 'k \<Rightarrow> ('c, 'k) work_queue option" where
  "WorkQueue_new capacity mk_channel empty_set =
    (if capacity = 0 then None
     else Some \<lparr>sender_open = True, wq_channel = mk_channel capacity, wq_pending = empty_set\<rparr>)"

definition send_job ::
  "('c, 'x job_spec) channel_ops \<Rightarrow> 'x job_spec \<Rightarrow> ('c, 'k) work_queue \<Rightarrow> bool \<times> ('c, 'k) work_queue" where
  "send_job ch job q =
    (if \<not> sender_open q then (False, q)
     else case try_send ch job (wq_channel q) of (r, c') \<Rightarrow> (is_ok r, q\<lparr>wq_channel := c'\<rparr>))"

definition forget_key :: "'k key_set_ops \<Rightarrow> domain_key \<Rightarrow> ('c, 'k) work_queue \<Rightarrow> ('c, 'k) work_queue" where
  "forget_key ks k q = q\<lparr>wq_pending := ks_remove ks k (wq_pending q)\<rparr>"

definition enqueue ::
  "('c, 'x job_spec) channel_ops \<Rightarrow> 'k key_set_ops \<Rightarrow> int \<Rightarrow> 'x job_spec \<Rightarrow> ('c, 'k) work_queue
    \<Rightarrow> enqueue_result \<times> ('c, 'k) work_queue" where
  "enqueue ch ks now job q =
    (case ks_insert ks (job_key job) (wq_pending q) of
      (fresh, p) \<Rightarrow>
        let q1 = q\<lparr>wq_pending := p\<rparr> in
        if \<not> fresh then (Deduplicated, q1)
        else (case send_job ch (job\<lparr>job_enqueued_at := Some now\<rparr>) q1 of
          (True, q2) \<Rightarrow> (Accepted, q2)
        | (False, q2) \<Rightarrow> (QueueFull, forget_key ks (job_key job) q2)))"

text \<open>A call of \<open>dequeue\<close> yields a job, reports the closed and drained queue, or blocks.\<close>

datatype 'x dequeue_result = Dequeued "'x job_spec" | Drained | Blocks

definition dequeue ::
  "('c, 'x job_spec) channel_ops \<Rightarrow> 'k key_set_ops \<Rightarrow> ('c, 'k) work_queue
    \<Rightarrow> 'x dequeue_result \<times> ('c, 'k) work_queue" where
  "dequeue ch ks q =
    (case try_recv ch (wq_channel q) of
      Some (job, c') \<Rightarrow> (Dequeued job, forget_key ks (job_key job) (q\<lparr>wq_channel := c'\<rparr>))
    | None \<Rightarrow> (if sender_open q then Blocks else Drained, q))"

definition close :: "('c, 'k) work_queue \<Rightarrow> ('c, 'k) work_queue" where
  "close q = q\<lparr>sender_open := False\<rparr>"

definition queue_len :: "'k key_set_ops \<Rightarrow> ('c, 'k) work_queue \<Rightarrow> nat" where
  "queue_len ks q = ks_len ks (wq_pending q)"

definition queue_is_empty :: "'k key_set_ops \<Rightarrow> ('c, 'k) work_queue \<Rightarrow> bool" where
  "queue_is_empty ks q \<longleftrightarrow> ks_len ks (wq_pending q) = 0"

record batch_enqueue_result =
  batch_total :: nat
  batch_accepted :: nat
  batch_deduplicated :: nat
  batch_rejected :: nat

fun count_result :: "enqueue_result \<Rightarrow> batch_enqueue_result \<Rightarrow> batch_enqueue_result" where
  "count_result Accepted b = b\<lparr>batch_accepted := batch_accepted b + 1\<rparr>"
| "count_result Deduplicated b = b\<lparr>batch_deduplicated := batch_deduplicated b + 1\<rparr>"
| "count_result QueueFull b = b\<lparr>batch_rejected := batch_rejected b + 1\<rparr>"

fun enqueue_items ::
  "('c, 'x job_spec) channel_ops \<Rightarrow> 'k key_set_ops \<Rightarrow> int \<Rightarrow> job_source \<Rightarrow> correlation_context
    \<Rightarrow> (domain_key \<times> 'x) list \<Rightarrow> batch_enqueue_result \<Rightarrow> ('c, 'k) work_queue
    \<Rightarrow> batch_enqueue_result \<times> ('c, 'k) work_queue"
where
  "enqueue_items ch ks now origin correlation [] b q = (b, q)"
| "enqueue_items ch ks now origin correlation ((key, ctx) # batch) b q =
    (case enqueue ch ks now (JobSpec_new key ctx origin correlation) q of
      (r, q') \<Rightarrow> enqueue_items ch ks now origin correlation batch (count_result r b) q')"

definition enqueue_batch ::
  "('c, 'x job_spec) channel_ops \<Rightarrow> 'k key_set_ops \<Rightarrow> int \<Rightarrow> job_source \<Rightarrow> correlation_context
    \<Rightarrow> (domain_key \<times> 'x) list \<Rightarrow> ('c, 'k) work_queue \<Rightarrow> batch_enqueue_result \<times> ('c, 'k) work_queue" where
  "enqueue_batch ch ks now origin correlation batch q =
    enqueue_items ch ks now origin correlation batch
      \<lparr>batch_total = length batch, batch_accepted = 0, batch_deduplicated = 0, batch_rejected = 0\<rparr> q"

section \<open>Interleaved producers and consumers\<close>

text \<open>
  A producer inserts its key, locks the sender, sends, and on failure takes the key back before it
  unlocks; a consumer locks the receiver, receives, removes the key and unlocks with its return. A
  consumer's call may be dropped while it waits for the lock or for a job. The jobs that were sent
  and taken are recorded.
\<close>

datatype 'x wq_pc =
    WIdle
  | WInsert "'x job_spec"
  | WSend "'x job_spec"
  | WUndo domain_key
  | WEnqueued enqueue_result
  | WLock
  | WRecv
  | WRemove "'x job_spec"
  | WDequeued "'x job_spec option"

record ('c, 'k, 'x) wq_run =
  wq :: "('c, 'k) work_queue"
  sender_lock :: "nat option"
  receiver_lock :: "nat option"
  wq_pcs :: "nat \<Rightarrow> 'x wq_pc"
  sent :: "'x job_spec list"
  taken :: "'x job_spec list"

fun wq_advance ::
  "('c, 'x job_spec) channel_ops \<Rightarrow> 'k key_set_ops \<Rightarrow> nat \<Rightarrow> int \<Rightarrow> 'x wq_pc \<Rightarrow> ('c, 'k, 'x) wq_run
    \<Rightarrow> ('c, 'k, 'x) wq_run option"
where
  "wq_advance ch ks w now (WInsert job) r =
    (case ks_insert ks (job_key job) (wq_pending (wq r)) of
      (fresh, p) \<Rightarrow> Some (r\<lparr>wq := (wq r)\<lparr>wq_pending := p\<rparr>,
        wq_pcs := (wq_pcs r)(w := if fresh then WSend (job\<lparr>job_enqueued_at := Some now\<rparr>)
          else WEnqueued Deduplicated)\<rparr>))"
| "wq_advance ch ks w now (WSend job) r =
    (if sender_lock r \<noteq> None then None
     else case send_job ch job (wq r) of
      (True, q) \<Rightarrow> Some (r\<lparr>wq := q, wq_pcs := (wq_pcs r)(w := WEnqueued Accepted), sent := sent r @ [job]\<rparr>)
    | (False, q) \<Rightarrow> Some (r\<lparr>wq := q, sender_lock := Some w, wq_pcs := (wq_pcs r)(w := WUndo (job_key job))\<rparr>))"
| "wq_advance ch ks w now (WUndo k) r =
    Some (r\<lparr>wq := forget_key ks k (wq r), sender_lock := None,
      wq_pcs := (wq_pcs r)(w := WEnqueued QueueFull)\<rparr>)"
| "wq_advance ch ks w now WLock r =
    (if receiver_lock r = None
     then Some (r\<lparr>receiver_lock := Some w, wq_pcs := (wq_pcs r)(w := WRecv)\<rparr>) else None)"
| "wq_advance ch ks w now WRecv r =
    (case try_recv ch (wq_channel (wq r)) of
      Some (job, c') \<Rightarrow> Some (r\<lparr>wq := (wq r)\<lparr>wq_channel := c'\<rparr>,
        wq_pcs := (wq_pcs r)(w := WRemove job), taken := taken r @ [job]\<rparr>)
    | None \<Rightarrow> if sender_open (wq r) then None
        else Some (r\<lparr>receiver_lock := None, wq_pcs := (wq_pcs r)(w := WDequeued None)\<rparr>))"
| "wq_advance ch ks w now (WRemove job) r =
    Some (r\<lparr>wq := forget_key ks (job_key job) (wq r), receiver_lock := None,
      wq_pcs := (wq_pcs r)(w := WDequeued (Some job))\<rparr>)"
| "wq_advance ch ks w now _ r = None"

datatype 'x wq_action =
    WqAdvance nat int
  | WqEnqueue nat "'x job_spec"
  | WqDequeue nat
  | WqCancel nat
  | WqClose

fun at_rest :: "'x wq_pc \<Rightarrow> bool" where
  "at_rest WIdle = True"
| "at_rest (WEnqueued _) = True"
| "at_rest (WDequeued _) = True"
| "at_rest _ = False"

fun wq_step ::
  "('c, 'x job_spec) channel_ops \<Rightarrow> 'k key_set_ops \<Rightarrow> 'x wq_action \<Rightarrow> ('c, 'k, 'x) wq_run
    \<Rightarrow> ('c, 'k, 'x) wq_run option"
where
  "wq_step ch ks (WqAdvance w now) r = wq_advance ch ks w now (wq_pcs r w) r"
| "wq_step ch ks (WqEnqueue w job) r =
    (if at_rest (wq_pcs r w) then Some (r\<lparr>wq_pcs := (wq_pcs r)(w := WInsert job)\<rparr>) else None)"
| "wq_step ch ks (WqDequeue w) r =
    (if at_rest (wq_pcs r w) then Some (r\<lparr>wq_pcs := (wq_pcs r)(w := WLock)\<rparr>) else None)"
| "wq_step ch ks (WqCancel w) r =
    (case wq_pcs r w of
      WLock \<Rightarrow> Some (r\<lparr>wq_pcs := (wq_pcs r)(w := WIdle)\<rparr>)
    | WRecv \<Rightarrow> Some (r\<lparr>receiver_lock := None, wq_pcs := (wq_pcs r)(w := WIdle)\<rparr>)
    | _ \<Rightarrow> None)"
| "wq_step ch ks WqClose r = (if sender_lock r = None then Some (r\<lparr>wq := close (wq r)\<rparr>) else None)"

fun wq_exec ::
  "('c, 'x job_spec) channel_ops \<Rightarrow> 'k key_set_ops \<Rightarrow> 'x wq_action list \<Rightarrow> ('c, 'k, 'x) wq_run
    \<Rightarrow> ('c, 'k, 'x) wq_run option"
where
  "wq_exec ch ks [] r = Some r"
| "wq_exec ch ks (a # acts) r =
    (case wq_step ch ks a r of None \<Rightarrow> None | Some r' \<Rightarrow> wq_exec ch ks acts r')"

definition wq_started :: "('c, 'k) work_queue \<Rightarrow> ('c, 'k, 'x) wq_run" where
  "wq_started q = \<lparr>wq = q, sender_lock = None, receiver_lock = None, wq_pcs = (\<lambda>_. WIdle), sent = [], taken = []\<rparr>"

section \<open>What holds of every interleaving\<close>

text \<open>The key a caller answers for: inserted and not yet sent, or received and not yet removed.\<close>

fun held :: "'x wq_pc \<Rightarrow> domain_key option" where
  "held (WSend job) = Some (job_key job)"
| "held (WUndo k) = Some k"
| "held (WRemove job) = Some (job_key job)"
| "held _ = None"

fun pc_stamped :: "'x wq_pc \<Rightarrow> bool" where
  "pc_stamped (WSend job) = (job_enqueued_at job \<noteq> None)"
| "pc_stamped _ = True"

definition held_keys :: "(nat \<Rightarrow> 'x wq_pc) \<Rightarrow> domain_key set" where
  "held_keys pcs = {k. \<exists>w. held (pcs w) = Some k}"

text \<open>Every pending key has exactly one owner: a queued job or a caller.\<close>

definition keys_owned :: "('k \<Rightarrow> domain_key set) \<Rightarrow> 'x job_spec list \<Rightarrow> 'k \<Rightarrow> (nat \<Rightarrow> 'x wq_pc) \<Rightarrow> bool" where
  "keys_owned elems jobs p pcs \<longleftrightarrow>
    distinct (map job_key jobs) \<and> held_keys pcs \<inter> job_key ` set jobs = {}
    \<and> (\<forall>w w' k. held (pcs w) = Some k \<longrightarrow> held (pcs w') = Some k \<longrightarrow> w = w')
    \<and> elems p = job_key ` set jobs \<union> held_keys pcs"

definition jobs_stamped :: "'x job_spec list \<Rightarrow> (nat \<Rightarrow> 'x wq_pc) \<Rightarrow> bool" where
  "jobs_stamped jobs pcs \<longleftrightarrow> list_all (\<lambda>job. job_enqueued_at job \<noteq> None) jobs \<and> (\<forall>w. pc_stamped (pcs w))"

definition wq_inv ::
  "('c \<Rightarrow> 'x job_spec list) \<Rightarrow> nat \<Rightarrow> ('k \<Rightarrow> domain_key set) \<Rightarrow> ('c, 'k, 'x) wq_run \<Rightarrow> bool" where
  "wq_inv queued capacity elems r \<longleftrightarrow>
    keys_owned elems (queued (wq_channel (wq r))) (wq_pending (wq r)) (wq_pcs r)
    \<and> jobs_stamped (sent r) (wq_pcs r)
    \<and> sent r = taken r @ queued (wq_channel (wq r)) \<and> length (queued (wq_channel (wq r))) \<le> capacity
    \<and> (\<forall>w. wq_pcs r w = WDequeued None \<longrightarrow> \<not> sender_open (wq r) \<and> queued (wq_channel (wq r)) = [])"

lemma held_keys_upd_None [simp]:
  "held pc = None \<Longrightarrow> held (pcs w) = None \<Longrightarrow> held_keys (pcs(w := pc)) = held_keys pcs"
  unfolding held_keys_def by (rule Collect_cong) (metis fun_upd_apply option.distinct(1))

lemma held_keys_take:
  "held pc = Some k \<Longrightarrow> held (pcs w) = None \<Longrightarrow> held_keys (pcs(w := pc)) = insert k (held_keys pcs)"
  unfolding held_keys_def by (auto; metis option.distinct(1))

lemma held_keys_keep:
  "held pc = held (pcs w) \<Longrightarrow> held_keys (pcs(w := pc)) = held_keys pcs"
  unfolding held_keys_def by (rule Collect_cong) (metis fun_upd_apply)

lemma held_keys_release:
  assumes "held pc = None" "held (pcs w) = Some k"
    and "\<forall>w w' k. held (pcs w) = Some k \<longrightarrow> held (pcs w') = Some k \<longrightarrow> w = w'"
  shows "held_keys (pcs(w := pc)) = held_keys pcs - {k}"
proof -
  have "held (pcs w') = Some k' \<and> w' \<noteq> w \<Longrightarrow> k' \<noteq> k" for w' k'
    using assms(2,3) by metis
  then show ?thesis
    using assms(1,2) unfolding held_keys_def
    by (auto split: if_splits) (metis option.inject)
qed

lemma held_in [intro]: "held (pcs w) = Some k \<Longrightarrow> k \<in> held_keys pcs"
  by (auto simp: held_keys_def)

text \<open>The five ways a step changes the owners.\<close>

lemma keys_owned_keep:
  "keys_owned elems jobs p pcs \<Longrightarrow> held pc = held (pcs w) \<Longrightarrow> keys_owned elems jobs p (pcs(w := pc))"
  unfolding keys_owned_def held_keys_keep by (metis fun_upd_apply)

lemma keys_owned_insert:
  assumes "keys_owned elems jobs p pcs" "held (pcs w) = None" "held pc = Some k" "k \<notin> elems p"
    "elems p' = insert k (elems p)"
  shows "keys_owned elems jobs p' (pcs(w := pc))"
proof -
  have "k \<notin> held_keys pcs" "k \<notin> job_key ` set jobs" using assms(1,4) by (auto simp: keys_owned_def)
  then show ?thesis
    using assms unfolding keys_owned_def held_keys_take [where pcs = pcs and w = w, OF assms(3,2)]
    by (auto simp: held_keys_def)
qed

lemma keys_owned_sent:
  assumes "keys_owned elems jobs p pcs" "held (pcs w) = Some (job_key job)" "held pc = None"
  shows "keys_owned elems (jobs @ [job]) p (pcs(w := pc))"
proof -
  have u: "\<forall>w w' k. held (pcs w) = Some k \<longrightarrow> held (pcs w') = Some k \<longrightarrow> w = w'"
    using assms(1) by (simp add: keys_owned_def)
  have "job_key job \<in> held_keys pcs" using assms(2) by blast
  then show ?thesis
    using assms u unfolding keys_owned_def held_keys_release [where pcs = pcs and w = w, OF assms(3,2) u] by auto
qed

lemma keys_owned_taken:
  assumes "keys_owned elems (job # jobs) p pcs" "held (pcs w) = None" "held pc = Some (job_key job)"
  shows "keys_owned elems jobs p (pcs(w := pc))"
proof -
  have "job_key job \<notin> held_keys pcs" using assms(1) by (auto simp: keys_owned_def)
  then show ?thesis
    using assms unfolding keys_owned_def held_keys_take [where pcs = pcs and w = w, OF assms(3,2)]
    by (auto simp: held_keys_def)
qed

lemma keys_owned_forget:
  assumes "keys_owned elems jobs p pcs" "held (pcs w) = Some k" "held pc = None" "elems p' = elems p - {k}"
  shows "keys_owned elems jobs p' (pcs(w := pc))"
proof -
  have u: "\<forall>w w' k. held (pcs w) = Some k \<longrightarrow> held (pcs w') = Some k \<longrightarrow> w = w'"
    using assms(1) by (simp add: keys_owned_def)
  have "k \<in> held_keys pcs" using assms(2) by blast
  then show ?thesis
    using assms u unfolding keys_owned_def held_keys_release [where pcs = pcs and w = w, OF assms(3,2) u] by auto
qed

lemmas owned_steps = keys_owned_keep keys_owned_insert keys_owned_sent keys_owned_taken keys_owned_forget

lemma stamped_upd [intro]:
  "jobs_stamped jobs pcs \<Longrightarrow> pc_stamped pc \<Longrightarrow> jobs_stamped jobs (pcs(w := pc))"
  by (auto simp: jobs_stamped_def)

lemma stamped_sent:
  "jobs_stamped jobs pcs \<Longrightarrow> pcs w = WSend job \<Longrightarrow> pc_stamped pc \<Longrightarrow> jobs_stamped (jobs @ [job]) (pcs(w := pc))"
  by (auto simp: jobs_stamped_def) (metis option.distinct(1) option.exhaust pc_stamped.simps(1))

lemma key_set_laws:
  assumes "key_set_contract ks elems"
  shows "fst (ks_insert ks k p) = (k \<notin> elems p)" "elems (snd (ks_insert ks k p)) = insert k (elems p)"
    "elems (ks_remove ks k p) = elems p - {k}" "ks_len ks p = card (elems p)"
  using assms by (simp_all add: key_set_contract_def)

lemma key_set_insert_cases:
  assumes "key_set_contract ks elems" "ks_insert ks k p = (fresh, p')"
  shows "fresh \<longleftrightarrow> k \<notin> elems p" "elems p' = insert k (elems p)"
  using key_set_laws(1,2) [OF assms(1), of k p] assms(2) by simp_all

lemma send_job_cases:
  assumes "mpsc_contract ch queued capacity closed" "send_job ch job q = (ok, q')"
  obtains (sent) "ok" "sender_open q" "q' = q\<lparr>wq_channel := wq_channel q'\<rparr>"
      "queued (wq_channel q') = queued (wq_channel q) @ [job]" "length (queued (wq_channel q)) < capacity"
    | (refused) "\<not> ok" "q' = q\<lparr>wq_channel := wq_channel q'\<rparr>" "queued (wq_channel q') = queued (wq_channel q)"
      "\<not> sender_open q \<or> closed (wq_channel q) \<or> capacity \<le> length (queued (wq_channel q))"
proof (cases "sender_open q")
  case True
  obtain x c where x: "try_send ch job (wq_channel q) = (x, c)" by fastforce
  show thesis using assms(1) x
    by (cases rule: send_cases) (use True assms(2) x that in \<open>auto simp: send_job_def\<close>)
qed (use assms(2) that(2) in \<open>auto simp: send_job_def\<close>)

lemma send_accepts_open:
  assumes "mpsc_contract ch queued capacity closed" "send_job ch job q = (ok, q')" "ok"
  shows "\<not> closed (wq_channel q) \<and> \<not> closed (wq_channel q')"
proof -
  obtain x c where x: "try_send ch job (wq_channel q) = (x, c)" by fastforce
  with assms show ?thesis
    by (cases rule: send_cases [OF assms(1) x]) (auto simp: send_job_def split: if_splits)
qed

lemma wq_invD:
  assumes "wq_inv queued capacity elems r"
  shows "keys_owned elems (queued (wq_channel (wq r))) (wq_pending (wq r)) (wq_pcs r)"
    "jobs_stamped (sent r) (wq_pcs r)" "sent r = taken r @ queued (wq_channel (wq r))"
    "length (queued (wq_channel (wq r))) \<le> capacity"
    "wq_pcs r w = WDequeued None \<Longrightarrow> \<not> sender_open (wq r) \<and> queued (wq_channel (wq r)) = []"
  using assms unfolding wq_inv_def by blast+

text \<open>A step that moves caller \<open>w\<close> to \<open>pc\<close> and leaves the channel's contents alone.\<close>

lemma wq_inv_move:
  assumes i: "wq_inv queued capacity elems r"
    and r': "wq_pcs r' = (wq_pcs r)(w := pc)" "sent r' = sent r" "taken r' = taken r"
    and same: "queued (wq_channel (wq r')) = queued (wq_channel (wq r))" "sender_open (wq r') = sender_open (wq r)"
    and owned: "keys_owned elems (queued (wq_channel (wq r))) (wq_pending (wq r')) ((wq_pcs r)(w := pc))"
    and pc: "pc_stamped pc"
      "pc = WDequeued None \<Longrightarrow> \<not> sender_open (wq r) \<and> queued (wq_channel (wq r)) = []"
  shows "wq_inv queued capacity elems r'"
  using i owned stamped_upd [of "sent r" "wq_pcs r" pc w] pc
  unfolding wq_inv_def r' same by auto

lemma advance_send_inv:
  assumes channel: "mpsc_contract ch queued capacity closed"
    and i: "wq_inv queued capacity elems r" and pc: "wq_pcs r w = WSend job"
    and step: "wq_advance ch ks w now (WSend job) r = Some r'"
  shows "wq_inv queued capacity elems r'"
proof -
  obtain ok q where s: "send_job ch job (wq r) = (ok, q)" by fastforce
  from channel s show ?thesis
  proof (cases rule: send_job_cases)
    case sent
    have r': "r' = r\<lparr>wq := q, wq_pcs := (wq_pcs r)(w := WEnqueued Accepted), sent := sent r @ [job]\<rparr>"
      using step s sent(1) by (auto split: if_splits)
    have same: "wq_pending q = wq_pending (wq r)" "sender_open q" by (subst sent(3), simp add: sent(2))+
    have "keys_owned elems (queued (wq_channel q)) (wq_pending q) ((wq_pcs r)(w := WEnqueued Accepted))"
      unfolding sent(4) same using wq_invD(1) [OF i] pc by (intro keys_owned_sent) simp_all
    moreover have "jobs_stamped (sent r @ [job]) ((wq_pcs r)(w := WEnqueued Accepted))"
      using wq_invD(2) [OF i] pc by (intro stamped_sent) simp_all
    moreover have "\<forall>w. wq_pcs r w \<noteq> WDequeued None" using wq_invD(5) [OF i] sent(2) by blast
    ultimately show ?thesis using wq_invD(3) [OF i] sent(4,5) by (simp add: wq_inv_def r')
  next
    case refused
    have r': "r' = r\<lparr>wq := q, sender_lock := Some w, wq_pcs := (wq_pcs r)(w := WUndo (job_key job))\<rparr>"
      using step s refused(1) by (auto split: if_splits)
    have same: "wq_pending q = wq_pending (wq r)" "sender_open q = sender_open (wq r)"
      by (subst refused(2), simp)+
    have "keys_owned elems (queued (wq_channel (wq r))) (wq_pending q) ((wq_pcs r)(w := WUndo (job_key job)))"
      unfolding same using wq_invD(1) [OF i] pc by (intro keys_owned_keep) simp_all
    then show ?thesis
      using i r' refused(3) same
      by (intro wq_inv_move [OF i, where w = w and pc = "WUndo (job_key job)"]) simp_all
  qed
qed

lemma advance_recv_inv:
  assumes channel: "mpsc_contract ch queued capacity closed"
    and i: "wq_inv queued capacity elems r" and pc: "wq_pcs r w = WRecv"
    and step: "wq_advance ch ks w now WRecv r = Some r'"
  shows "wq_inv queued capacity elems r'"
proof (cases "try_recv ch (wq_channel (wq r))")
  case None
  then have r': "r' = r\<lparr>receiver_lock := None, wq_pcs := (wq_pcs r)(w := WDequeued None)\<rparr>"
    and shut: "\<not> sender_open (wq r)"
    using step by (auto split: if_splits)
  have "keys_owned elems (queued (wq_channel (wq r))) (wq_pending (wq r)) ((wq_pcs r)(w := WDequeued None))"
    using wq_invD(1) [OF i] pc by (intro keys_owned_keep) simp_all
  then show ?thesis
    using i r' shut recv_cases(2) [OF channel None]
    by (intro wq_inv_move [OF i, where w = w and pc = "WDequeued None"]) simp_all
next
  case (Some y)
  obtain job c where y: "y = (job, c)" by fastforce
  have r': "r' = r\<lparr>wq := (wq r)\<lparr>wq_channel := c\<rparr>, wq_pcs := (wq_pcs r)(w := WRemove job), taken := taken r @ [job]\<rparr>"
    using step Some y by simp
  have jobs: "queued (wq_channel (wq r)) = job # queued c"
    using recv_cases(1) [OF channel] Some y by blast
  have "keys_owned elems (queued c) (wq_pending (wq r)) ((wq_pcs r)(w := WRemove job))"
    using wq_invD(1) [OF i] pc jobs by (intro keys_owned_taken) simp_all
  moreover have "jobs_stamped (sent r) ((wq_pcs r)(w := WRemove job))"
    using wq_invD(2) [OF i] by (intro stamped_upd) simp_all
  moreover have "\<forall>w. wq_pcs r w \<noteq> WDequeued None" using wq_invD(5) [OF i] jobs by auto
  ultimately show ?thesis using wq_invD(3,4) [OF i] jobs by (simp add: wq_inv_def r')
qed

lemma advance_insert_inv:
  assumes keys: "key_set_contract ks elems"
    and i: "wq_inv queued capacity elems r" and pc: "wq_pcs r w = WInsert job"
    and step: "wq_advance ch ks w now (WInsert job) r = Some r'"
  shows "wq_inv queued capacity elems r'"
proof -
  obtain fresh p where s: "ks_insert ks (job_key job) (wq_pending (wq r)) = (fresh, p)" by fastforce
  note laws = key_set_insert_cases [OF keys s]
  have own: "keys_owned elems (queued (wq_channel (wq r))) (wq_pending (wq r)) (wq_pcs r)"
    using i by (simp add: wq_inv_def)
  show ?thesis
  proof (cases fresh)
    case True
    then have "keys_owned elems (queued (wq_channel (wq r))) p ((wq_pcs r)(w := WSend (job\<lparr>job_enqueued_at := Some now\<rparr>)))"
      using own pc laws by (intro keys_owned_insert [OF own, where k = "job_key job"]) simp_all
    then show ?thesis
      using i step s True
      by (intro wq_inv_move [OF i, where w = w and pc = "WSend (job\<lparr>job_enqueued_at := Some now\<rparr>)"]) auto
  next
    case False
    then have "elems p = elems (wq_pending (wq r))" using laws by auto
    then have "keys_owned elems (queued (wq_channel (wq r))) p (wq_pcs r)"
      using own by (simp add: keys_owned_def)
    then have "keys_owned elems (queued (wq_channel (wq r))) p ((wq_pcs r)(w := WEnqueued Deduplicated))"
      using pc by (intro keys_owned_keep) simp_all
    then show ?thesis
      using i step s False
      by (intro wq_inv_move [OF i, where w = w and pc = "WEnqueued Deduplicated"]) auto
  qed
qed

lemma forget_inv:
  assumes keys: "key_set_contract ks elems"
    and i: "wq_inv queued capacity elems r" and pc: "held (wq_pcs r w) = Some k"
    and r': "wq r' = forget_key ks k (wq r)" "wq_pcs r' = (wq_pcs r)(w := pc)" "sent r' = sent r" "taken r' = taken r"
    and rest: "held pc = None" "pc_stamped pc" "pc \<noteq> WDequeued None"
  shows "wq_inv queued capacity elems r'"
proof -
  have "keys_owned elems (queued (wq_channel (wq r))) (ks_remove ks k (wq_pending (wq r))) ((wq_pcs r)(w := pc))"
    using wq_invD(1) [OF i] pc rest(1) key_set_laws(3) [OF keys] by (intro keys_owned_forget [where k = k]) simp_all
  then show ?thesis
    using i r' rest by (intro wq_inv_move [OF i, where w = w and pc = pc]) (simp_all add: forget_key_def)
qed

lemma keep_inv:
  assumes i: "wq_inv queued capacity elems r" and pc: "held pc = held (wq_pcs r w)"
    and r': "wq r' = wq r" "wq_pcs r' = (wq_pcs r)(w := pc)" "sent r' = sent r" "taken r' = taken r"
    and rest: "pc_stamped pc" "pc \<noteq> WDequeued None"
  shows "wq_inv queued capacity elems r'"
proof -
  have "keys_owned elems (queued (wq_channel (wq r))) (wq_pending (wq r)) ((wq_pcs r)(w := pc))"
    using wq_invD(1) [OF i] pc by (intro keys_owned_keep) simp_all
  then show ?thesis
    using i r' rest by (intro wq_inv_move [OF i, where w = w and pc = pc]) simp_all
qed

lemma at_rest_held: "at_rest pc \<Longrightarrow> held pc = None"
  by (cases pc) simp_all

lemma wq_advance_inv:
  assumes channel: "mpsc_contract ch queued capacity closed" and keys: "key_set_contract ks elems"
    and i: "wq_inv queued capacity elems r" and s: "wq_advance ch ks w now (wq_pcs r w) r = Some r'"
  shows "wq_inv queued capacity elems r'"
proof (cases "wq_pcs r w")
  case (WInsert job)
  then show ?thesis using advance_insert_inv [OF keys i] s by simp
next
  case (WSend job)
  then show ?thesis using advance_send_inv [OF channel i WSend] s by (simp del: wq_advance.simps)
next
  case (WUndo k)
  then show ?thesis
    using s by (intro forget_inv [OF keys i, where w = w and k = k and pc = "WEnqueued QueueFull"]) auto
next
  case WLock
  then show ?thesis
    using s by (intro keep_inv [OF i, where w = w and pc = WRecv]) (auto split: if_splits)
next
  case WRecv
  then show ?thesis using advance_recv_inv [OF channel i WRecv] s by (simp del: wq_advance.simps)
next
  case (WRemove job)
  then show ?thesis
    using s by (intro forget_inv [OF keys i, where w = w and k = "job_key job" and pc = "WDequeued (Some job)"]) auto
qed (use s in simp_all)

lemma wq_step_inv:
  assumes channel: "mpsc_contract ch queued capacity closed" and keys: "key_set_contract ks elems"
    and i: "wq_inv queued capacity elems r" and step: "wq_step ch ks a r = Some r'"
  shows "wq_inv queued capacity elems r'"
proof (cases a)
  case (WqAdvance w now)
  then show ?thesis using wq_advance_inv [OF channel keys i] step by simp
next
  case (WqEnqueue w job)
  then show ?thesis
    using step by (intro keep_inv [OF i, where w = w and pc = "WInsert job"]) (auto simp: at_rest_held split: if_splits)
next
  case (WqDequeue w)
  then show ?thesis
    using step by (intro keep_inv [OF i, where w = w and pc = WLock]) (auto simp: at_rest_held split: if_splits)
next
  case (WqCancel w)
  then show ?thesis
    using step by (intro keep_inv [OF i, where w = w and pc = WIdle]) (auto split: wq_pc.splits)
next
  case WqClose
  then show ?thesis using i step by (auto simp: wq_inv_def close_def split: if_splits)
qed

lemma wq_exec_inv:
  assumes "mpsc_contract ch queued capacity closed" "key_set_contract ks elems"
  shows "wq_inv queued capacity elems r \<Longrightarrow> wq_exec ch ks acts r = Some r' \<Longrightarrow> wq_inv queued capacity elems r'"
  by (induction acts arbitrary: r) (auto split: option.splits dest: wq_step_inv [OF assms])

lemma wq_started_inv:
  assumes "WorkQueue_new capacity mk none_pending = Some q" "queued (mk capacity) = []" "elems none_pending = {}"
  shows "wq_inv queued capacity elems (wq_started q)"
  using assms
  by (auto simp: wq_inv_def WorkQueue_new_def wq_started_def keys_owned_def held_keys_def jobs_stamped_def
      split: if_splits)

lemma wq_reachable_inv:
  assumes "mpsc_contract ch queued capacity closed" "key_set_contract ks elems"
    and "WorkQueue_new capacity mk none_pending = Some q" "queued (mk capacity) = []" "elems none_pending = {}"
    and "wq_exec ch ks acts (wq_started q) = Some r"
  shows "wq_inv queued capacity elems r"
  using wq_started_inv [of capacity mk none_pending q queued elems] assms(3-5)
    wq_exec_inv [OF assms(1,2) _ assms(6)] by blast

text \<open>
  C4. Under any interleaving of producers, consumers, dropped calls and a close, the queue holds
  at most one job per domain key and at most its capacity of jobs; the pending set holds exactly
  the keys of the queued jobs and of the calls in progress, so a job is turned away as a duplicate
  only while another job for its key is queued, being submitted or just taken; and every job that
  was accepted carries its enqueue time.
\<close>

theorem work_queue_one_job_per_key:
  assumes "mpsc_contract ch queued capacity closed" "key_set_contract ks elems"
    and "WorkQueue_new capacity mk none_pending = Some q" "queued (mk capacity) = []" "elems none_pending = {}"
    and "wq_exec ch ks acts (wq_started q) = Some r"
  shows "distinct (map job_key (queued (wq_channel (wq r)))) \<and> length (queued (wq_channel (wq r))) \<le> capacity
    \<and> elems (wq_pending (wq r)) = job_key ` set (queued (wq_channel (wq r))) \<union> held_keys (wq_pcs r)
    \<and> (\<forall>job. job \<in> set (sent r) \<longrightarrow> job_enqueued_at job \<noteq> None)
    \<and> (\<forall>w now job r'. wq_pcs r w = WInsert job \<longrightarrow> wq_step ch ks (WqAdvance w now) r = Some r' \<longrightarrow>
        (wq_pcs r' w = WEnqueued Deduplicated \<longleftrightarrow>
          job_key job \<in> job_key ` set (queued (wq_channel (wq r))) \<or> job_key job \<in> held_keys (wq_pcs r)))"
proof -
  have i: "wq_inv queued capacity elems r"
    using assms by (rule wq_reachable_inv)
  have own: "distinct (map job_key (queued (wq_channel (wq r))))"
    "elems (wq_pending (wq r)) = job_key ` set (queued (wq_channel (wq r))) \<union> held_keys (wq_pcs r)"
    using wq_invD(1) [OF i] by (simp_all add: keys_owned_def)
  have "wq_pcs r' w = WEnqueued Deduplicated \<longleftrightarrow> job_key job \<in> elems (wq_pending (wq r))"
    if "wq_pcs r w = WInsert job" "wq_step ch ks (WqAdvance w now) r = Some r'" for w now job r'
  proof -
    obtain fresh p where p: "ks_insert ks (job_key job) (wq_pending (wq r)) = (fresh, p)" by fastforce
    show ?thesis using that p key_set_insert_cases(1) [OF assms(2) p] by auto
  qed
  then show ?thesis
    using own wq_invD(2,4) [OF i] by (auto simp: jobs_stamped_def list_all_iff)
qed

text \<open>
  C39. Jobs come out in the order in which they were accepted, and nothing accepted is lost by a
  shutdown: as soon as some consumer has been told that the queue is drained, it is closed, and
  every accepted job has been taken.
\<close>

theorem work_queue_fifo_and_drained:
  assumes "mpsc_contract ch queued capacity closed" "key_set_contract ks elems"
    and "WorkQueue_new capacity mk none_pending = Some q" "queued (mk capacity) = []" "elems none_pending = {}"
    and "wq_exec ch ks acts (wq_started q) = Some r"
  shows "sent r = taken r @ queued (wq_channel (wq r))
    \<and> (wq_pcs r w = WDequeued None \<longrightarrow> \<not> sender_open (wq r) \<and> taken r = sent r)"
proof -
  have i: "wq_inv queued capacity elems r"
    using assms by (rule wq_reachable_inv)
  show ?thesis using wq_invD(3,5) [OF i] by auto
qed

section \<open>A caller that nobody disturbs\<close>

definition wq_quiet ::
  "('c \<Rightarrow> 'x job_spec list) \<Rightarrow> nat \<Rightarrow> ('k \<Rightarrow> domain_key set) \<Rightarrow> ('c, 'k) work_queue \<Rightarrow> bool" where
  "wq_quiet queued capacity elems q \<longleftrightarrow>
    distinct (map job_key (queued (wq_channel q))) \<and> elems (wq_pending q) = job_key ` set (queued (wq_channel q))
    \<and> length (queued (wq_channel q)) \<le> capacity"

text \<open>The function and the steps agree: a producer run alone takes the queue where \<open>enqueue\<close> does.\<close>

lemma enqueue_is_run_alone:
  assumes "at_rest (wq_pcs r w)" "sender_lock r = None" "enqueue ch ks now job (wq r) = (res, q')"
  obtains n r' where "wq_exec ch ks (WqEnqueue w job # replicate n (WqAdvance w now)) r = Some r'"
    "wq r' = q'" "wq_pcs r' w = WEnqueued res" "sender_lock r' = None"
proof -
  obtain fresh p where p: "ks_insert ks (job_key job) (wq_pending (wq r)) = (fresh, p)" by fastforce
  obtain ok q2 where s: "send_job ch (job\<lparr>job_enqueued_at := Some now\<rparr>) ((wq r)\<lparr>wq_pending := p\<rparr>) = (ok, q2)"
    by fastforce
  note defs = assms(1,2) p s
  consider "\<not> fresh" | "fresh" "ok" | "fresh" "\<not> ok" by blast
  then show thesis
  proof cases
    case 1
    then show thesis
      using assms(3) defs that [of 1] by (simp add: enqueue_def del: fun_upd_apply) auto
  next
    case 2
    then show thesis
      using assms(3) defs that [of 2] by (simp add: enqueue_def numeral_2_eq_2 Let_def)
  next
    case 3
    then show thesis
      using assms(3) defs that [of 3] by (simp add: enqueue_def numeral_3_eq_3 Let_def)
  qed
qed

lemma enqueue_sends:
  assumes ch: "mpsc_contract ch queued capacity closed" and e: "enqueue ch ks now job q = (res, q')"
  shows "sender_open q' = sender_open q
    \<and> (res = Accepted \<longrightarrow> sender_open q \<and> queued (wq_channel q') = queued (wq_channel q) @ [job\<lparr>job_enqueued_at := Some now\<rparr>])
    \<and> (res \<noteq> Accepted \<longrightarrow> queued (wq_channel q') = queued (wq_channel q))"
proof -
  obtain fresh p where p: "ks_insert ks (job_key job) (wq_pending q) = (fresh, p)" by fastforce
  define q1 where "q1 = q\<lparr>wq_pending := p\<rparr>"
  obtain ok q2 where s: "send_job ch (job\<lparr>job_enqueued_at := Some now\<rparr>) q1 = (ok, q2)" by fastforce
  show ?thesis
  proof (cases fresh)
    case False
    then show ?thesis using e p by (auto simp: enqueue_def)
  next
    case True
    from ch s show ?thesis
    proof (cases rule: send_job_cases)
      case sent
      have "sender_open q2 = sender_open q" by (subst sent(3)) (simp add: q1_def)
      then show ?thesis using e p s True sent(1,2,4) by (auto simp: enqueue_def q1_def)
    next
      case refused
      have "sender_open q2 = sender_open q" by (subst refused(2)) (simp add: q1_def)
      then show ?thesis using e p s True refused(1,3) by (auto simp: enqueue_def q1_def forget_key_def)
    qed
  qed
qed

lemma dequeue_receives:
  assumes ch: "mpsc_contract ch queued capacity closed" and d: "dequeue ch ks q = (res, q')"
  shows "sender_open q' = sender_open q
    \<and> (\<forall>job. res = Dequeued job \<longrightarrow> queued (wq_channel q) = job # queued (wq_channel q'))
    \<and> (res = Drained \<longrightarrow> \<not> sender_open q \<and> queued (wq_channel q) = [] \<and> q' = q)"
proof (cases "try_recv ch (wq_channel q)")
  case None
  then show ?thesis using d recv_cases(2) [OF ch None] by (auto simp: dequeue_def split: if_splits)
next
  case (Some y)
  obtain job c where y: "y = (job, c)" by fastforce
  then show ?thesis
    using d Some recv_cases(1) [OF ch, of "wq_channel q" job c] by (auto simp: dequeue_def forget_key_def)
qed

lemma enqueue_behaviour:
  assumes ch: "mpsc_contract ch queued capacity closed" and ks: "key_set_contract ks elems"
    and quiet: "wq_quiet queued capacity elems q" and e: "enqueue ch ks now job q = (res, q')"
  shows "wq_quiet queued capacity elems q' \<and> sender_open q' = sender_open q
    \<and> (job_key job \<in> job_key ` set (queued (wq_channel q)) \<longrightarrow>
        res = Deduplicated \<and> queued (wq_channel q') = queued (wq_channel q))
    \<and> (job_key job \<notin> job_key ` set (queued (wq_channel q)) \<longrightarrow>
        (if sender_open q \<and> \<not> closed (wq_channel q) \<and> length (queued (wq_channel q)) < capacity
         then res = Accepted \<and> queued (wq_channel q') = queued (wq_channel q) @ [job\<lparr>job_enqueued_at := Some now\<rparr>]
         else res = QueueFull \<and> queued (wq_channel q') = queued (wq_channel q)))"
proof -
  obtain fresh p where p: "ks_insert ks (job_key job) (wq_pending q) = (fresh, p)" by fastforce
  note laws = key_set_insert_cases [OF ks p]
  define q1 where "q1 = q\<lparr>wq_pending := p\<rparr>"
  obtain ok q2 where s: "send_job ch (job\<lparr>job_enqueued_at := Some now\<rparr>) q1 = (ok, q2)" by fastforce
  note d = enqueue_def wq_quiet_def forget_key_def key_set_laws(3) [OF ks]
  show ?thesis
  proof (cases fresh)
    case False
    then show ?thesis using e p laws quiet by (auto simp: d)
  next
    case True
    then have new: "job_key job \<notin> job_key ` set (queued (wq_channel q))" using laws quiet by (simp add: d)
    from ch s show ?thesis
    proof (cases rule: send_job_cases)
      case sent
      have "wq_pending q2 = p" "sender_open q2" using sent(2) by (subst sent(3), simp add: q1_def)+
      then show ?thesis
        using e p s True sent(1,2,4,5) laws quiet new send_accepts_open [OF ch s sent(1)] by (auto simp: d q1_def)
    next
      case refused
      have "wq_pending q2 = p" "sender_open q2 = sender_open q" by (subst refused(2), simp add: q1_def)+
      then show ?thesis
        using e p s True refused(1,3,4) laws quiet new by (auto simp: d q1_def)
    qed
  qed
qed

lemma enqueue_keeps_receiver:
  assumes ch: "mpsc_contract ch queued capacity closed" and up: "\<not> closed (wq_channel q)"
    and e: "enqueue ch ks now job q = (res, q')"
  shows "\<not> closed (wq_channel q')"
proof -
  obtain fresh p where p: "ks_insert ks (job_key job) (wq_pending q) = (fresh, p)" by fastforce
  let ?job = "job\<lparr>job_enqueued_at := Some now\<rparr>"
  obtain x c where x: "try_send ch ?job (wq_channel q) = (x, c)" by fastforce
  have "\<not> closed c" using ch x by (cases rule: send_cases) (use up in auto)
  then show ?thesis
    using e p x up
    by (auto simp: enqueue_def send_job_def forget_key_def Let_def split: if_splits bool.splits)
qed

lemma enqueue_items_counts:
  assumes ch: "mpsc_contract ch queued capacity closed" and ks: "key_set_contract ks elems"
  shows "wq_quiet queued capacity elems q \<Longrightarrow> sender_open q \<Longrightarrow> \<not> closed (wq_channel q)
    \<Longrightarrow> enqueue_items ch ks now origin correlation batch b q = (b', q') \<Longrightarrow>
    wq_quiet queued capacity elems q' \<and> batch_total b' = batch_total b
    \<and> batch_accepted b' + batch_deduplicated b' + batch_rejected b'
      = batch_accepted b + batch_deduplicated b + batch_rejected b + length batch
    \<and> batch_accepted b' = batch_accepted b + min (capacity - length (queued (wq_channel q)))
        (card (fst ` set batch - job_key ` set (queued (wq_channel q))))
    \<and> (\<exists>new. queued (wq_channel q') = queued (wq_channel q) @ new
        \<and> length new + batch_accepted b = batch_accepted b' \<and> job_key ` set new \<subseteq> fst ` set batch)"
proof (induction batch arbitrary: b q)
  case Nil
  then show ?case by simp
next
  case (Cons item batch)
  obtain key ctx where item: "item = (key, ctx)" by fastforce
  define job where "job = JobSpec_new key ctx origin correlation"
  have key [simp]: "job_key job = key" "job_key (job\<lparr>job_enqueued_at := Some now\<rparr>) = key"
    by (simp_all add: job_def JobSpec_new_def)
  obtain res q1 where e: "enqueue ch ks now job q = (res, q1)" by fastforce
  note c = enqueue_behaviour [OF ch ks Cons.prems(1) e]
  have "wq_quiet queued capacity elems q1" "sender_open q1" "\<not> closed (wq_channel q1)"
    using c Cons.prems(2) enqueue_keeps_receiver [OF ch Cons.prems(3) e] by simp_all
  moreover have "enqueue_items ch ks now origin correlation batch (count_result res b) q1 = (b', q')"
    using Cons.prems(4) e by (simp add: item job_def)
  ultimately have IH: "wq_quiet queued capacity elems q' \<and> batch_total b' = batch_total (count_result res b)
    \<and> batch_accepted b' + batch_deduplicated b' + batch_rejected b'
      = batch_accepted (count_result res b) + batch_deduplicated (count_result res b)
        + batch_rejected (count_result res b) + length batch
    \<and> batch_accepted b' = batch_accepted (count_result res b) + min (capacity - length (queued (wq_channel q1)))
        (card (fst ` set batch - job_key ` set (queued (wq_channel q1))))
    \<and> (\<exists>new. queued (wq_channel q') = queued (wq_channel q1) @ new
        \<and> length new + batch_accepted (count_result res b) = batch_accepted b' \<and> job_key ` set new \<subseteq> fst ` set batch)"
    by (rule Cons.IH)
  then obtain js where js: "queued (wq_channel q') = queued (wq_channel q1) @ js"
    "length js + batch_accepted (count_result res b) = batch_accepted b'" "job_key ` set js \<subseteq> fst ` set batch"
    by blast
  then have js': "job_key ` set js \<subseteq> fst ` set (item # batch)" by auto
  let ?K = "job_key ` set (queued (wq_channel q))"
  show ?case
  proof (cases "key \<in> ?K")
    case True
    then have r: "res = Deduplicated" "queued (wq_channel q1) = queued (wq_channel q)" using c by simp_all
    have "fst ` set (item # batch) - ?K = fst ` set batch - ?K" using True by (auto simp: item)
    then show ?thesis using IH js(1,2) js' r by (intro conjI exI [of _ js]) (simp_all del: list.set)
  next
    case new: False
    have "fst ` set (item # batch) - ?K = insert key (fst ` set batch - insert key ?K)"
      using new by (auto simp: item)
    then have card: "card (fst ` set (item # batch) - ?K) = Suc (card (fst ` set batch - insert key ?K))"
      by simp
    show ?thesis
    proof (cases "length (queued (wq_channel q)) < capacity")
      case True
      then have r: "res = Accepted" "queued (wq_channel q1) = queued (wq_channel q) @ [job\<lparr>job_enqueued_at := Some now\<rparr>]"
        using c new Cons.prems(2,3) by simp_all
      have "batch_accepted b' = batch_accepted b + 1 + min (capacity - Suc (length (queued (wq_channel q))))
          (card (fst ` set batch - insert key ?K))"
        using IH r by simp
      then show ?thesis
        using IH js(1,2) js' r card True
        by (intro conjI exI [of _ "job\<lparr>job_enqueued_at := Some now\<rparr> # js"]) (simp_all add: item)
    next
      case False
      then have r: "res = QueueFull" "queued (wq_channel q1) = queued (wq_channel q)"
        using c new by simp_all
      then show ?thesis
        using IH js(1,2) js' False by (intro conjI exI [of _ js]) (simp_all del: list.set)
    qed
  qed
qed

text \<open>
  A batch accounts for every item: accepted, deduplicated and rejected add up to the total.
  On an open queue the number accepted is exactly the number of distinct keys of the batch that
  were not queued yet, cut off at the free capacity; that many jobs, for keys of the batch, are
  appended, and the queue still holds one job per key.
\<close>

theorem enqueue_batch_accounts:
  assumes "mpsc_contract ch queued capacity closed" "key_set_contract ks elems"
    and "wq_quiet queued capacity elems q" "sender_open q" "\<not> closed (wq_channel q)"
    and "enqueue_batch ch ks now origin correlation batch q = (b, q')"
  shows "batch_total b = length batch
    \<and> batch_accepted b + batch_deduplicated b + batch_rejected b = batch_total b
    \<and> batch_accepted b = min (capacity - length (queued (wq_channel q)))
        (card (fst ` set batch - job_key ` set (queued (wq_channel q))))
    \<and> (\<exists>new. queued (wq_channel q') = queued (wq_channel q) @ new \<and> length new = batch_accepted b
        \<and> job_key ` set new \<subseteq> fst ` set batch)
    \<and> wq_quiet queued capacity elems q'"
  using enqueue_items_counts [OF assms(1-5) assms(6) [unfolded enqueue_batch_def]] by auto

section \<open>A list of keys, and witnesses\<close>

definition list_key_ops :: "domain_key list key_set_ops" where
  "list_key_ops = \<lparr>
    ks_insert = (\<lambda>k p. if k \<in> set p then (False, p) else (True, k # p)),
    ks_remove = removeAll,
    ks_len = (\<lambda>p. card (set p))\<rparr>"

lemma list_key_contract: "key_set_contract list_key_ops set"
  by (auto simp: key_set_contract_def list_key_ops_def)

abbreviation empty_list_channel :: "'m list_channel" where
  "empty_list_channel \<equiv> \<lparr>items = [], receiver_gone = False\<rparr>"

definition sample_queue :: "(unit job_spec list_channel, domain_key list) work_queue" where
  "sample_queue = \<lparr>sender_open = True, wq_channel = empty_list_channel, wq_pending = []\<rparr>"

abbreviation sample_job :: "string \<Rightarrow> unit job_spec" where
  "sample_job key \<equiv> JobSpec_new key () InitialLoad CorrelationContext_none"

text \<open>
  Two producers race for one key; the loser is told so. A consumer takes the job, the queue is
  closed, and the next consumer learns that it is drained while a third producer is refused.
\<close>

definition sample_race :: "unit wq_action list" where
  "sample_race = [WqEnqueue 0 (sample_job ''a''), WqEnqueue 1 (sample_job ''a''), WqAdvance 0 1, WqAdvance 1 2,
    WqAdvance 0 3, WqDequeue 2]"

definition sample_shutdown :: "unit wq_action list" where
  "sample_shutdown = sample_race @ [WqAdvance 2 4, WqAdvance 2 5, WqAdvance 2 6, WqClose, WqDequeue 1,
    WqAdvance 1 7, WqAdvance 1 8]"

definition run_sample :: "unit wq_action list \<Rightarrow> (unit job_spec list_channel, domain_key list, unit) wq_run" where
  "run_sample acts = the (wq_exec (list_channel_ops 1) list_key_ops acts (wq_started sample_queue))"

lemmas sample_run_defs = run_sample_def sample_race_def sample_shutdown_def sample_queue_def wq_started_def
  list_channel_ops_def list_key_ops_def send_job_def forget_key_def close_def JobSpec_new_def

lemma sample_race_run:
  "wq_exec (list_channel_ops 1) list_key_ops sample_race (wq_started sample_queue) = Some (run_sample sample_race)"
  "map job_key (items (wq_channel (wq (run_sample sample_race)))) = [''a'']"
  "wq_pcs (run_sample sample_race) 1 = WEnqueued Deduplicated"
  by (simp_all add: sample_run_defs)

lemma sample_shutdown_run:
  "wq_exec (list_channel_ops 1) list_key_ops sample_shutdown (wq_started sample_queue)
    = Some (run_sample sample_shutdown)"
  "map job_key (sent (run_sample sample_shutdown)) = [''a'']"
  "wq_pcs (run_sample sample_shutdown) 1 = WDequeued None"
  by (simp_all add: sample_run_defs)

lemma sample_queue_new:
  "WorkQueue_new 1 (\<lambda>_. empty_list_channel) [] = Some sample_queue"
  "items (wq_channel sample_queue) = []" "wq_quiet items 1 set sample_queue"
  "sender_open sample_queue" "\<not> receiver_gone (wq_channel sample_queue)"
  by (simp_all add: WorkQueue_new_def sample_queue_def wq_quiet_def)

theorem work_queue_one_job_per_key_witness:
  "distinct (map job_key (items (wq_channel (wq (run_sample sample_race)))))
    \<and> map job_key (items (wq_channel (wq (run_sample sample_race)))) = [''a'']
    \<and> wq_pcs (run_sample sample_race) 1 = WEnqueued Deduplicated
    \<and> set (wq_pending (wq (run_sample sample_race))) = insert ''a'' (held_keys (wq_pcs (run_sample sample_race)))"
proof -
  have "set (wq_pending (wq (run_sample sample_race)))
      = job_key ` set (items (wq_channel (wq (run_sample sample_race)))) \<union> held_keys (wq_pcs (run_sample sample_race))"
    using work_queue_one_job_per_key [OF list_channel_contract list_key_contract sample_queue_new(1) _ _ sample_race_run(1)]
    by simp
  moreover have "job_key ` set (items (wq_channel (wq (run_sample sample_race)))) = {''a''}"
    using sample_race_run(2) by (metis list.set_map list.set(1,2))
  ultimately show ?thesis using sample_race_run(2,3) by simp
qed

theorem work_queue_fifo_and_drained_witness:
  "wq_pcs (run_sample sample_shutdown) 1 = WDequeued None \<and> \<not> sender_open (wq (run_sample sample_shutdown))
    \<and> map job_key (sent (run_sample sample_shutdown)) = [''a'']
    \<and> taken (run_sample sample_shutdown) = sent (run_sample sample_shutdown)"
proof -
  have "sent (run_sample sample_shutdown)
      = taken (run_sample sample_shutdown) @ items (wq_channel (wq (run_sample sample_shutdown)))
    \<and> (wq_pcs (run_sample sample_shutdown) 1 = WDequeued None
      \<longrightarrow> \<not> sender_open (wq (run_sample sample_shutdown))
        \<and> taken (run_sample sample_shutdown) = sent (run_sample sample_shutdown))"
    by (rule work_queue_fifo_and_drained [OF list_channel_contract list_key_contract sample_queue_new(1) _ _
        sample_shutdown_run(1)]) simp_all
  then show ?thesis using sample_shutdown_run(2,3) by blast
qed

definition sample_items :: "(domain_key \<times> unit) list" where
  "sample_items = [(''a'', ()), (''a'', ()), (''b'', ())]"

theorem enqueue_batch_accounts_witness:
  "\<exists>b q'. enqueue_batch (list_channel_ops 1) list_key_ops 5 InitialLoad CorrelationContext_none sample_items sample_queue
      = (b, q')
    \<and> batch_total b = 3 \<and> batch_accepted b = 1 \<and> batch_accepted b + batch_deduplicated b + batch_rejected b = 3"
proof -
  obtain b q' where e: "enqueue_batch (list_channel_ops 1) list_key_ops 5 InitialLoad CorrelationContext_none
      sample_items sample_queue = (b, q')"
    by fastforce
  have "card (fst ` set sample_items) = 2" by (simp add: sample_items_def)
  then show ?thesis
    using enqueue_batch_accounts [OF list_channel_contract list_key_contract sample_queue_new(3,4,5) e] e
    by (simp add: sample_queue_new(2)) (simp add: sample_items_def)
qed

end
