(* ===== verification/Batch_Tracker.thy ===== *)
theory Batch_Tracker
  imports Prelude
begin

text \<open>
  The batch tracker of \<open>cherry-pit-wq/src/work_queue.rs\<close>: a counter of outstanding jobs that
  releases its waiters when it reaches zero.

  A call between its accesses to shared state: the update of the counter and the notification are
  two steps, and a waiter registers before it reads the counter. \<open>wakes\<close> counts the notifications
  sent; a registration remembers the count it saw, and is woken by any later one.
\<close>

datatype tracker_pc =
    TIdle
  | TNotify
  | TLoad nat
  | TWaiting nat
  | TReleased
  | TPanicked

record batch_tracker =
  remaining :: "64 word"
  wakes :: nat
  tracker_pcs :: "nat \<Rightarrow> tracker_pc"
  retired_total :: nat

definition BatchTracker_new :: "64 word \<Rightarrow> batch_tracker" where
  "BatchTracker_new count = \<lparr>remaining = count, wakes = 0, tracker_pcs = (\<lambda>_. TIdle), retired_total = 0\<rparr>"

definition complete_one :: "nat \<Rightarrow> batch_tracker \<Rightarrow> batch_tracker" where
  "complete_one w t =
    (let prev = remaining t; t' = t\<lparr>remaining := prev - 1\<rparr> in
     if prev = 0 then t'\<lparr>tracker_pcs := (tracker_pcs t)(w := TPanicked)\<rparr>
     else t'\<lparr>retired_total := retired_total t + 1,
       tracker_pcs := (tracker_pcs t)(w := if prev = 1 then TNotify else TIdle)\<rparr>)"

definition saturating_sub_word :: "64 word \<Rightarrow> 64 word \<Rightarrow> 64 word" where
  "saturating_sub_word a b = (if b \<le> a then a - b else 0)"

definition retire :: "64 word \<Rightarrow> nat \<Rightarrow> batch_tracker \<Rightarrow> 64 word \<times> batch_tracker" where
  "retire count w t =
    (if count = 0 then (0, t\<lparr>tracker_pcs := (tracker_pcs t)(w := TIdle)\<rparr>)
     else let prev = remaining t; retired = min prev count in
       (retired, t\<lparr>remaining := saturating_sub_word prev count, retired_total := retired_total t + unat retired,
         tracker_pcs := (tracker_pcs t)(w := if retired > 0 \<and> prev = retired then TNotify else TIdle)\<rparr>))"

definition drain :: "nat \<Rightarrow> batch_tracker \<Rightarrow> 64 word \<times> batch_tracker" where
  "drain w t = retire (- 1) w t"

datatype tracker_action =
    CompleteOne nat
  | Retire "64 word" nat
  | Drain nat
  | Wait nat
  | DropWait nat
  | TrackerAdvance nat

fun tracker_rest :: "tracker_pc \<Rightarrow> bool" where
  "tracker_rest TIdle = True"
| "tracker_rest TReleased = True"
| "tracker_rest _ = False"

fun tracker_advance :: "nat \<Rightarrow> tracker_pc \<Rightarrow> batch_tracker \<Rightarrow> batch_tracker option" where
  "tracker_advance w TNotify t = Some (t\<lparr>wakes := wakes t + 1, tracker_pcs := (tracker_pcs t)(w := TIdle)\<rparr>)"
| "tracker_advance w (TLoad seen) t =
    Some (t\<lparr>tracker_pcs := (tracker_pcs t)(w := if remaining t = 0 then TReleased else TWaiting seen)\<rparr>)"
| "tracker_advance w (TWaiting seen) t =
    (if wakes t \<noteq> seen then Some (t\<lparr>tracker_pcs := (tracker_pcs t)(w := TReleased)\<rparr>) else None)"
| "tracker_advance w _ t = None"

fun tracker_step :: "tracker_action \<Rightarrow> batch_tracker \<Rightarrow> batch_tracker option" where
  "tracker_step (CompleteOne w) t = (if tracker_rest (tracker_pcs t w) then Some (complete_one w t) else None)"
| "tracker_step (Retire count w) t = (if tracker_rest (tracker_pcs t w) then Some (snd (retire count w t)) else None)"
| "tracker_step (Drain w) t = (if tracker_rest (tracker_pcs t w) then Some (snd (drain w t)) else None)"
| "tracker_step (Wait w) t =
    (if tracker_rest (tracker_pcs t w) then Some (t\<lparr>tracker_pcs := (tracker_pcs t)(w := TLoad (wakes t))\<rparr>) else None)"
| "tracker_step (DropWait w) t =
    (case tracker_pcs t w of TWaiting _ \<Rightarrow> Some (t\<lparr>tracker_pcs := (tracker_pcs t)(w := TIdle)\<rparr>) | _ \<Rightarrow> None)"
| "tracker_step (TrackerAdvance w) t = tracker_advance w (tracker_pcs t w) t"

fun tracker_exec :: "tracker_action list \<Rightarrow> batch_tracker \<Rightarrow> batch_tracker option" where
  "tracker_exec [] t = Some t"
| "tracker_exec (a # acts) t = (case tracker_step a t of None \<Rightarrow> None | Some t' \<Rightarrow> tracker_exec acts t')"

definition no_announcer :: "batch_tracker \<Rightarrow> bool" where
  "no_announcer t \<longleftrightarrow> (\<forall>w. tracker_pcs t w \<noteq> TNotify)"

fun tracker_pc_ok :: "64 word \<Rightarrow> nat \<Rightarrow> tracker_pc \<Rightarrow> bool" where
  "tracker_pc_ok left woken (TLoad seen) \<longleftrightarrow> seen \<le> woken"
| "tracker_pc_ok left woken (TWaiting seen) \<longleftrightarrow> seen = 0"
| "tracker_pc_ok left woken TReleased \<longleftrightarrow> left = 0"
| "tracker_pc_ok left woken TNotify \<longleftrightarrow> left = 0 \<and> woken = 0"
| "tracker_pc_ok left woken _ \<longleftrightarrow> True"

text \<open>
  While nobody has completed more than there was: nothing was notified before the counter reached
  zero; from then on one caller owes the notification or it has been sent, once. A batch of size
  zero has no waiters and no notification.
\<close>

definition tracker_inv :: "64 word \<Rightarrow> batch_tracker \<Rightarrow> bool" where
  "tracker_inv n t \<longleftrightarrow>
    unat (remaining t) + retired_total t = unat n
    \<and> (\<forall>w. tracker_pc_ok (remaining t) (wakes t) (tracker_pcs t w))
    \<and> (\<forall>w w'. tracker_pcs t w = TNotify \<longrightarrow> tracker_pcs t w' = TNotify \<longrightarrow> w = w')
    \<and> (remaining t \<noteq> 0 \<longrightarrow> wakes t = 0) \<and> wakes t \<le> 1
    \<and> (remaining t = 0 \<longrightarrow> no_announcer t \<longrightarrow> n \<noteq> 0 \<longrightarrow> wakes t = 1)
    \<and> (n = 0 \<longrightarrow> (\<forall>w seen. tracker_pcs t w \<noteq> TWaiting seen))"

definition overdrawn :: "batch_tracker \<Rightarrow> bool" where
  "overdrawn t \<longleftrightarrow> (\<exists>w. tracker_pcs t w = TPanicked)"

lemma panic_is_final:
  assumes "tracker_step a t = Some t'" "tracker_pcs t v = TPanicked"
  shows "tracker_pcs t' v = TPanicked"
proof (cases a)
  case (TrackerAdvance w)
  then show ?thesis using assms by (cases "tracker_pcs t w") (auto split: if_splits)
next
  case (DropWait w)
  then show ?thesis using assms by (cases "tracker_pcs t w") auto
qed (use assms in \<open>auto simp: complete_one_def retire_def drain_def Let_def split: if_splits\<close>)

lemma overdrawn_stays: "tracker_step a t = Some t' \<Longrightarrow> overdrawn t \<Longrightarrow> overdrawn t'"
  unfolding overdrawn_def by (blast intro: panic_is_final)

text \<open>Both ways to count down are one debit of at most what is left.\<close>

definition debit :: "64 word \<Rightarrow> nat \<Rightarrow> batch_tracker \<Rightarrow> batch_tracker" where
  "debit r w t = t\<lparr>remaining := remaining t - r, retired_total := retired_total t + unat r,
    tracker_pcs := (tracker_pcs t)(w := if r \<noteq> 0 \<and> r = remaining t then TNotify else TIdle)\<rparr>"

lemma complete_one_debit: "remaining t \<noteq> 0 \<Longrightarrow> complete_one w t = debit 1 w t"
  by (simp add: complete_one_def debit_def Let_def eq_commute [of 1])

lemma retire_debit: "snd (retire count w t) = debit (min (remaining t) count) w t"
proof -
  have "saturating_sub_word a b = a - min a b" for a b
    by (cases "a = b") (auto simp: saturating_sub_word_def min_def)
  then show ?thesis
    by (auto simp: retire_def debit_def Let_def word_gt_0 eq_commute [of "min _ _" "remaining t"])
qed

lemma tracker_invD:
  assumes "tracker_inv n t"
  shows "tracker_pc_ok (remaining t) (wakes t) (tracker_pcs t w)"
    and "unat (remaining t) + retired_total t = unat n" and "remaining t \<noteq> 0 \<Longrightarrow> wakes t = 0"
    and "tracker_pcs t w = TNotify \<Longrightarrow> tracker_pcs t w' = TNotify \<Longrightarrow> w = w'"
    and "wakes t \<le> 1" "remaining t = 0 \<Longrightarrow> no_announcer t \<Longrightarrow> n \<noteq> 0 \<Longrightarrow> wakes t = 1"
    and "n = 0 \<Longrightarrow> tracker_pcs t w \<noteq> TWaiting seen"
  using assms unfolding tracker_inv_def by blast+

lemma debit_inv:
  assumes i: "tracker_inv n t" and rest: "tracker_rest (tracker_pcs t w)" and r: "r \<le> remaining t"
  shows "tracker_inv n (debit r w t)"
proof (cases "r = 0")
  case True
  then have "debit r w t = t\<lparr>tracker_pcs := (tracker_pcs t)(w := TIdle)\<rparr>" by (simp add: debit_def)
  moreover have "tracker_pcs t w \<noteq> TNotify" using rest by auto
  ultimately show ?thesis using i by (auto simp: tracker_inv_def no_announcer_def split: if_splits)
next
  case False
  then have pos: "remaining t \<noteq> 0" using r by auto
  have quiet: "tracker_pcs t v \<noteq> TNotify" "tracker_pcs t v \<noteq> TReleased" for v
    using tracker_invD(1) [OF i, of v] pos by auto
  have "unat (remaining t - r) + (retired_total t + unat r) = unat n"
    using tracker_invD(2) [OF i] r by (simp add: unat_sub word_le_nat_alt)
  moreover have w: "wakes t = 0" using tracker_invD(3) [OF i pos] .
  moreover have "tracker_pc_ok (remaining t - r) 0 (tracker_pcs t v)" for v
    using tracker_invD(1) [OF i, of v] quiet [of v] w by (cases "tracker_pcs t v") auto
  ultimately show ?thesis
    using i False quiet pos by (auto simp: tracker_inv_def debit_def no_announcer_def)
qed

lemma pc_move_inv:
  assumes i: "tracker_inv n t" and "tracker_pcs t w \<noteq> TNotify" "pc \<noteq> TNotify"
    and "tracker_pc_ok (remaining t) (wakes t) pc" "n = 0 \<Longrightarrow> (\<And>seen. pc \<noteq> TWaiting seen)"
  shows "tracker_inv n (t\<lparr>tracker_pcs := (tracker_pcs t)(w := pc)\<rparr>)"
proof -
  have "no_announcer (t\<lparr>tracker_pcs := (tracker_pcs t)(w := pc)\<rparr>) = no_announcer t"
    using assms(2,3) unfolding no_announcer_def by (simp, metis)
  then show ?thesis
    using assms tracker_invD [OF i] unfolding tracker_inv_def by (auto split: if_splits)
qed

lemma tracker_advance_inv:
  assumes i: "tracker_inv n t" and step: "tracker_advance w (tracker_pcs t w) t = Some t'"
  shows "tracker_inv n t'"
proof (cases "tracker_pcs t w")
  case TNotify
  then have z: "remaining t = 0" "wakes t = 0" using tracker_invD(1) [OF i, of w] by simp_all
  have others: "tracker_pcs t v \<noteq> TNotify" if "v \<noteq> w" for v using tracker_invD(4) [OF i TNotify] that by blast
  have ok: "tracker_pc_ok 0 1 (tracker_pcs t v)" if "v \<noteq> w" for v
    using tracker_invD(1) [OF i, of v] z others [OF that] by (cases "tracker_pcs t v") auto
  have "t' = t\<lparr>wakes := 1, tracker_pcs := (tracker_pcs t)(w := TIdle)\<rparr>" using step TNotify z by simp
  then show ?thesis
    using tracker_invD(2,7) [OF i] z others ok unfolding tracker_inv_def no_announcer_def
    by (simp add: others ok)
next
  case (TLoad seen)
  then have "seen \<le> wakes t" using tracker_invD(1) [OF i, of w] by simp
  moreover have "n \<noteq> 0" if "remaining t \<noteq> 0" using tracker_invD(2) [OF i] that by (metis add_is_0 unat_eq_zero)
  ultimately show ?thesis
    using step TLoad tracker_invD(3) [OF i] pc_move_inv [OF i, of w TReleased] pc_move_inv [OF i, of w "TWaiting seen"]
    by (auto split: if_splits)
next
  case (TWaiting seen)
  then have "wakes t \<noteq> 0" "t' = t\<lparr>tracker_pcs := (tracker_pcs t)(w := TReleased)\<rparr>"
    using step tracker_invD(1) [OF i, of w] by (auto split: if_splits)
  then show ?thesis using TWaiting tracker_invD(3) [OF i] pc_move_inv [OF i, of w TReleased] by auto
qed (use step in simp_all)

lemma tracker_step_inv:
  assumes i: "tracker_inv n t" and step: "tracker_step a t = Some t'" and ok: "\<not> overdrawn t'"
  shows "tracker_inv n t'"
proof (cases a)
  case (CompleteOne w)
  then have t': "tracker_rest (tracker_pcs t w)" "t' = complete_one w t" using step by (auto split: if_splits)
  moreover have "tracker_pcs t' w \<noteq> TPanicked" using ok by (simp add: overdrawn_def)
  then have "remaining t \<noteq> 0" using t' by (auto simp: complete_one_def Let_def)
  moreover from this have "1 \<le> remaining t" by (simp add: word_le_nat_alt unat_gt_0 Suc_leI)
  ultimately show ?thesis using debit_inv [OF i, of w 1] by (simp add: complete_one_debit)
next
  case (Retire count w)
  then show ?thesis using step debit_inv [OF i, of w] by (auto simp: retire_debit split: if_splits)
next
  case (Drain w)
  then show ?thesis using step debit_inv [OF i, of w] by (auto simp: drain_def retire_debit split: if_splits)
next
  case (Wait w)
  then have "tracker_pcs t w \<noteq> TNotify" using step by auto
  then show ?thesis using Wait step pc_move_inv [OF i, of w "TLoad (wakes t)"] by (auto split: if_splits)
next
  case (DropWait w)
  then show ?thesis using step pc_move_inv [OF i, of w TIdle] by (auto split: tracker_pc.splits)
next
  case (TrackerAdvance w)
  then show ?thesis using step tracker_advance_inv [OF i] by simp
qed

lemma tracker_exec_inv:
  "tracker_inv n t \<Longrightarrow> tracker_exec acts t = Some t' \<Longrightarrow> \<not> overdrawn t' \<Longrightarrow> tracker_inv n t'"
proof (induction acts arbitrary: t)
  case (Cons a acts)
  then obtain t1 where t1: "tracker_step a t = Some t1" "tracker_exec acts t1 = Some t'"
    by (auto split: option.splits)
  have "overdrawn t1 \<Longrightarrow> overdrawn t'"
    using t1(2) by (induction acts arbitrary: t1) (auto split: option.splits dest: overdrawn_stays)
  then show ?case using Cons t1 tracker_step_inv by blast
qed simp

lemma tracker_new_inv: "tracker_inv n (BatchTracker_new n)"
  by (simp add: tracker_inv_def BatchTracker_new_def)

text \<open>
  C12. The barrier, for callers that never complete more than the batch held, with any mix of
  completions, saturating retirements, drains and waiters, and with each counter update separated
  from its notification: the counter and the retired slots always add up to the batch, waiters are
  notified at most once, nobody is released before the counter is zero, and once it is zero and
  the one notification is not still owed, every waiter is released by its next step.
\<close>

theorem batch_barrier:
  assumes "tracker_exec acts (BatchTracker_new n) = Some t" and "\<not> overdrawn t"
  shows "unat (remaining t) + retired_total t = unat n \<and> wakes t \<le> 1
    \<and> (tracker_pcs t w = TReleased \<longrightarrow> remaining t = 0)
    \<and> (remaining t = 0 \<and> no_announcer t \<and> tracker_pcs t w = TWaiting seen \<longrightarrow>
        (\<exists>t'. tracker_step (TrackerAdvance w) t = Some t' \<and> tracker_pcs t' w = TReleased))"
proof -
  have i: "tracker_inv n t" using tracker_exec_inv [OF tracker_new_inv assms] .
  have "wakes t \<noteq> seen" if "remaining t = 0" "no_announcer t" "tracker_pcs t w = TWaiting seen"
    using tracker_invD(1) [OF i, of w] tracker_invD(6,7) [OF i] that by fastforce
  then show ?thesis using tracker_invD(1) [OF i, of w] tracker_invD(2,5) [OF i] by auto
qed

lemma max_above_two: "2 < (- 1 :: 64 word)"
  by code_simp

theorem batch_barrier_witness:
  "\<exists>t t'. tracker_exec [Wait 0, TrackerAdvance 0, CompleteOne 1, Drain 2, TrackerAdvance 2] (BatchTracker_new 3) = Some t
    \<and> retired_total t = 3 \<and> remaining t = 0
    \<and> tracker_step (TrackerAdvance 0) t = Some t' \<and> tracker_pcs t' 0 = TReleased"
proof -
  let ?acts = "[Wait 0, TrackerAdvance 0, CompleteOne 1, Drain 2, TrackerAdvance 2]"
  obtain t where t: "tracker_exec ?acts (BatchTracker_new 3) = Some t" "\<not> overdrawn t" "remaining t = 0"
      "no_announcer t" "tracker_pcs t 0 = TWaiting 0"
    using max_above_two
    by (simp add: BatchTracker_new_def complete_one_def drain_def retire_def saturating_sub_word_def overdrawn_def
        no_announcer_def min_def flip: not_less)
  show ?thesis using batch_barrier [OF t(1,2), of 0 0] t by fastforce
qed

text \<open>
  One completion too many is reported, but after the fact: the counter has wrapped around to
  its maximum before the caller panics, so a barrier that was open is closed again and whoever
  waits from then on blocks. Retiring, however much, never does this.
\<close>

theorem completing_past_the_end:
  assumes "remaining t = 0" and "v \<noteq> w" "tracker_rest (tracker_pcs t v)"
  shows "tracker_pcs (complete_one w t) w = TPanicked \<and> remaining (complete_one w t) = - 1
    \<and> (\<exists>t'. tracker_exec [Wait v, TrackerAdvance v] (complete_one w t) = Some t'
        \<and> tracker_step (TrackerAdvance v) t' = None)
    \<and> fst (retire count w t) = 0 \<and> remaining (snd (retire count w t)) = 0"
  using assms by (auto simp: complete_one_def Let_def retire_def saturating_sub_word_def)

theorem completing_past_the_end_witness:
  "remaining (complete_one 1 (BatchTracker_new 0)) = - 1 \<and> remaining (snd (retire 1 1 (BatchTracker_new 0))) = 0"
  using completing_past_the_end [of "BatchTracker_new 0" 2 1 1] by (simp add: BatchTracker_new_def)

end
