(* ===== verification/Regulators.thy ===== *)
theory Regulators
  imports Backoff Rate_Limit Budget
begin

text \<open>
  The regulator seam and its adapters (\<open>cherry-pit-wq/src/regulator.rs\<close>), with the wait for the
  rate limit that one of them and the worker loop share (\<open>cherry-pit-wq/src/worker_pool.rs\<close>).
\<close>

section \<open>Regulators\<close>

text \<open>
  A regulator, over the state \<open>'g\<close> that regulators share: calling \<open>admit\<close> makes a future, which is
  polled until it is ready; the boolean says whether the token is cancelled by then. \<open>settle\<close> does
  nothing unless an implementation overrides it.
\<close>

record 'g regulator =
  admit_start :: "nat \<Rightarrow> 'g \<Rightarrow> 'g"
  admit_poll :: "nat \<Rightarrow> bool \<Rightarrow> 'g \<Rightarrow> admission option \<times> 'g"
  settle :: "nat \<Rightarrow> settle_outcome \<Rightarrow> 'g \<Rightarrow> 'g"

definition settle_default :: "nat \<Rightarrow> settle_outcome \<Rightarrow> 'g \<Rightarrow> 'g" where
  "settle_default w out g = g"

definition step_or_stay :: "budget_action \<Rightarrow> budget_gate \<Rightarrow> budget_gate" where
  "step_or_stay a g = (case budget_step a g of Some g' \<Rightarrow> g' | None \<Rightarrow> g)"

definition BudgetRegulator_poll :: "nat \<Rightarrow> bool \<Rightarrow> budget_gate \<Rightarrow> admission option \<times> budget_gate" where
  "BudgetRegulator_poll w cancelled g =
    (case pcs g w of
      Returned acquired \<Rightarrow> (Some (if acquired then Admitted else AdmitCancelled), g)
    | _ \<Rightarrow> (None,
        if cancelled \<and> budget_step (CancelFires w) g \<noteq> None then step_or_stay (CancelFires w) g
        else step_or_stay (Advance w) g))"

fun BudgetRegulator_settle :: "nat \<Rightarrow> settle_outcome \<Rightarrow> budget_gate \<Rightarrow> budget_gate" where
  "BudgetRegulator_settle w Free g =
    step_or_stay (Advance w) (step_or_stay (Advance w) (step_or_stay (CallRefund w) g))"
| "BudgetRegulator_settle w Charged g = g"

definition BudgetRegulator :: "budget_gate regulator" where
  "BudgetRegulator = \<lparr>admit_start = (\<lambda>w. step_or_stay (CallAcquire w)), admit_poll = BudgetRegulator_poll,
    settle = BudgetRegulator_settle\<rparr>"

section \<open>Waiting for the rate limit\<close>

text \<open>
  One round of the loop, at clock reading \<open>now_secs\<close>: how long to sleep, and the next back-off.
  Durations are whole seconds here; \<open>Duration::from_secs(w).saturating_add(slack)\<close> saturates at
  \<open>u64_max\<close> seconds.
\<close>

definition reset_sleep :: "nat \<Rightarrow> rate_limit_state \<Rightarrow> nat \<Rightarrow> nat \<times> nat" where
  "reset_sleep now_secs state backoff =
    (case load_reset state of
      Some reset \<Rightarrow>
        if unat reset > now_secs then (min (saturating_add_u64 (unat reset - now_secs) 2) 60, backoff)
        else (backoff, min (backoff * 2) 60)
    | None \<Rightarrow> (backoff, min (backoff * 2) 60))"

text \<open>
  The loop against what the observer held and the clock showed at each round; a round ends with
  the sleep or with the cancellation. The sleeps are returned; None means that it still waits.
\<close>

fun wait_for_reset :: "(rate_limit_state \<times> nat \<times> bool) list \<Rightarrow> nat \<Rightarrow> bool option \<times> nat list" where
  "wait_for_reset [] backoff = (None, [])"
| "wait_for_reset ((state, now_secs, cancelled) # rounds) backoff =
    (if \<not> should_halt state then (Some True, [])
     else case reset_sleep now_secs state backoff of
       (sleep, backoff') \<Rightarrow>
         if cancelled then (Some False, [sleep])
         else case wait_for_reset rounds backoff' of (r, sleeps) \<Rightarrow> (r, sleep # sleeps))"

definition wait_for_rate_limit_reset :: "(rate_limit_state \<times> nat \<times> bool) list \<Rightarrow> bool option \<times> nat list" where
  "wait_for_rate_limit_reset rounds = wait_for_reset rounds 1"

fun RateLimitRegulator_admit :: "(rate_limit_state \<times> nat \<times> bool) list \<Rightarrow> admission option" where
  "RateLimitRegulator_admit [] = None"
| "RateLimitRegulator_admit ((state, now_secs, cancelled) # rounds) =
    (if \<not> should_halt state then Some Admitted
     else case fst (wait_for_rate_limit_reset ((state, now_secs, cancelled) # rounds)) of
       Some True \<Rightarrow> Some Admitted
     | Some False \<Rightarrow> Some AdmitCancelled
     | None \<Rightarrow> None)"

lemma wait_for_reset_sleeps:
  "1 \<le> backoff \<Longrightarrow> backoff \<le> 60 \<Longrightarrow> wait_for_reset rounds backoff = (r, sleeps)
    \<Longrightarrow> \<forall>s \<in> set sleeps. 1 \<le> s \<and> s \<le> 60"
proof (induction rounds backoff arbitrary: r sleeps rule: wait_for_reset.induct)
  case (2 state now cancelled rounds backoff)
  obtain sleep b where b: "reset_sleep now state backoff = (sleep, b)" by fastforce
  obtain r' ss where ss: "wait_for_reset rounds b = (r', ss)" by fastforce
  have bounds: "1 \<le> sleep" "sleep \<le> 60" "1 \<le> b" "b \<le> 60"
    using b 2(2,3) by (auto simp: reset_sleep_def saturating_add_u64_def u64_max_def split: option.splits if_splits)
  show ?case
  proof (cases "should_halt state \<and> \<not> cancelled")
    case True
    then have "\<forall>s \<in> set ss. 1 \<le> s \<and> s \<le> 60" using 2(1) b bounds(3,4) ss by simp
    then show ?thesis using 2(4) True b bounds(1,2) ss by auto
  next
    case False
    then show ?thesis using 2(4) b bounds(1,2) by (auto split: if_splits)
  qed
qed simp

lemma wait_for_reset_result:
  "wait_for_reset rounds backoff = (Some True, sleeps) \<Longrightarrow>
    \<exists>n. n < length rounds \<and> \<not> should_halt (fst (rounds ! n)) \<and> (\<forall>m<n. \<not> snd (snd (rounds ! m)))"
proof (induction rounds backoff arbitrary: sleeps rule: wait_for_reset.induct)
  case (2 state now cancelled rounds backoff)
  obtain sleep b where b: "reset_sleep now state backoff = (sleep, b)" by fastforce
  show ?case
  proof (cases "should_halt state")
    case True
    then have c: "\<not> cancelled" using 2(2) b by (auto split: if_splits)
    obtain ss where "wait_for_reset rounds b = (Some True, ss)"
      using 2(2) True c b by (auto split: prod.splits)
    then obtain n where "n < length rounds" "\<not> should_halt (fst (rounds ! n))" "\<forall>m<n. \<not> snd (snd (rounds ! m))"
      using 2(1) True c b by metis
    then show ?thesis using c by (intro exI [of _ "Suc n"]) (auto simp: less_Suc_eq_0_disj)
  qed (auto intro: exI [of _ 0])
qed simp

lemma wait_for_reset_stuck:
  "should_halt state \<Longrightarrow> \<forall>(s, now_secs, cancelled) \<in> set rounds. s = state \<and> \<not> cancelled
    \<Longrightarrow> fst (wait_for_reset rounds backoff) = None"
  by (induction rounds backoff rule: wait_for_reset.induct) (auto split: prod.splits)

text \<open>
  Waiting out a rate limit: every sleep lasts between one second and a minute; the wait ends
  well only at a reading that does not halt, before which no cancellation was seen; and while the
  observer keeps its halting reading the wait does not end, however far the clock has moved past
  the reset time.
\<close>

theorem rate_limit_wait:
  "(wait_for_rate_limit_reset rounds = (r, sleeps) \<longrightarrow> (\<forall>s \<in> set sleeps. 1 \<le> s \<and> s \<le> 60))
    \<and> (wait_for_rate_limit_reset rounds = (Some True, sleeps) \<longrightarrow>
        (\<exists>n. n < length rounds \<and> \<not> should_halt (fst (rounds ! n)) \<and> (\<forall>m<n. \<not> snd (snd (rounds ! m)))))
    \<and> (should_halt state \<and> (\<forall>(s, now_secs, cancelled) \<in> set rounds. s = state \<and> \<not> cancelled) \<longrightarrow>
        fst (wait_for_rate_limit_reset rounds) = None)"
  unfolding wait_for_rate_limit_reset_def
  using wait_for_reset_sleeps [of 1 rounds r sleeps] wait_for_reset_result [of rounds 1 sleeps]
    wait_for_reset_stuck [of state rounds 1]
  by simp

definition halted_state :: rate_limit_state where
  "halted_state = observe \<lparr>obs_limit = None, obs_remaining = Some 3, obs_reset = Some 100\<rparr> (with_thresholds 10 0)"

theorem rate_limit_wait_witness:
  "wait_for_rate_limit_reset [(halted_state, 90, False), (halted_state, 200, False)] = (None, [12, 1])
    \<and> fst (wait_for_rate_limit_reset [(halted_state, 90, False), (halted_state, 200, False)]) = None"
proof -
  have h: "should_halt halted_state" by code_simp
  moreover have "load_reset halted_state = Some 100" by code_simp
  ultimately have "wait_for_rate_limit_reset [(halted_state, 90, False), (halted_state, 200, False)] = (None, [12, 1])"
    by (simp add: wait_for_rate_limit_reset_def reset_sleep_def saturating_add_u64_def u64_max_def)
  then show ?thesis using rate_limit_wait
    [of "[(halted_state, 90, False), (halted_state, 200, False)]" None "[12, 1]" halted_state] h by simp
qed

end
