(* ===== verification/Worker_Pool.thy ===== *)
theory Worker_Pool
  imports Work_Queue Regulators "HOL-Library.Multiset"
begin

text \<open>
  The worker pool (\<open>cherry-pit-wq/src/worker_pool.rs\<close>) over the work queue and a chain of
  regulators. Workers interleave at every access to shared state and at every await. The executor
  belongs to the caller: what it returns, or that it panics, is the environment's choice.
\<close>

section \<open>Executing one job\<close>

text \<open>
  A computation returns or unwinds with a panic. A call of the executor makes a future, or unwinds;
  awaiting the future gives the executor's result, or unwinds. \<open>catch_unwind\<close> wraps the call only.
\<close>

datatype 'a unwinding = Returns 'a | Unwinds string

type_synonym 'r execution = "(string, 'r) result unwinding unwinding"

fun catch_unwind :: "'a unwinding \<Rightarrow> (string, 'a) result" where
  "catch_unwind (Returns a) = Ok a"
| "catch_unwind (Unwinds panic) = Err panic"

definition outcome_of :: "'x job_spec \<Rightarrow> 'r execution \<Rightarrow> duration \<Rightarrow> 'r job_outcome unwinding" where
  "outcome_of job execution elapsed =
    (case catch_unwind execution of
      Inr future \<Rightarrow> (case future of
          Returns awaited \<Rightarrow> (case awaited of
              Inr result \<Rightarrow> Returns (Success (job_key job) result (job_origin job) elapsed (job_correlation job))
            | Inl error \<Rightarrow> Returns (Failure (job_key job) error (job_origin job) elapsed (job_correlation job)))
        | Unwinds panic \<Rightarrow> Unwinds panic)
    | Inl panic \<Rightarrow>
        Returns (Failure (job_key job) (''executor panicked: '' @ panic) (job_origin job) elapsed (job_correlation job)))"

definition charge_of_default :: "domain_key \<Rightarrow> 'r \<Rightarrow> settle_outcome" where
  "charge_of_default key result = Charged"

fun settle_outcome_of :: "(domain_key \<Rightarrow> 'r \<Rightarrow> settle_outcome) \<Rightarrow> 'r job_outcome \<Rightarrow> settle_outcome" where
  "settle_outcome_of charge_of (Success key result _ _ _) = charge_of key result"
| "settle_outcome_of charge_of (Failure _ _ _ _ _) = Charged"

section \<open>The pool\<close>

datatype pool_exit = QueueClosed | AdmissionCancelled | OutcomesClosed | WorkerPanicked

text \<open>
  A worker dequeues, asks the regulators in order, executes, settles them in order, and sends the
  outcome. The number is the regulator it has come to.
\<close>

datatype ('x, 'r) pool_pc =
    PDequeue
  | PAdmit "'x job_spec" nat
  | PWaiting "'x job_spec" nat
  | PExecute "'x job_spec"
  | PSettle "'x job_spec" "'r job_outcome" settle_outcome nat
  | PSend "'x job_spec" "'r job_outcome"
  | PExited pool_exit

text \<open>
  The pool with its books: the jobs accepted by the queue, taken from it, finished with an outcome
  and lost without one, and the regulators that admitted, were settled, or were left unsettled.
\<close>

record ('c, 'k, 'o, 'g, 'x, 'r) pool =
  pool_queue :: "('c, 'k) work_queue"
  outcome_channel :: 'o
  pool_world :: 'g
  pool_pcs :: "('x, 'r) pool_pc list"
  jobs_accepted :: "'x job_spec list"
  jobs_taken :: "'x job_spec list"
  finished :: "('x job_spec \<times> 'r job_outcome) list"
  lost :: "'x job_spec list"
  admissions :: "nat list"
  settlements :: "nat list"
  leaked :: "nat list"

record ('c, 'k, 'o, 'g, 'x, 'r) pool_env =
  queue_ops :: "('c, 'x job_spec) channel_ops"
  key_ops :: "'k key_set_ops"
  outcome_ops :: "('o, 'r job_outcome) channel_ops"
  regulators :: "'g regulator list"
  charge_of :: "domain_key \<Rightarrow> 'r \<Rightarrow> settle_outcome"

abbreviation at_pc :: "nat \<Rightarrow> ('x, 'r) pool_pc \<Rightarrow> ('c, 'k, 'o, 'g, 'x, 'r) pool \<Rightarrow> ('c, 'k, 'o, 'g, 'x, 'r) pool" where
  "at_pc w pc p \<equiv> p\<lparr>pool_pcs := (pool_pcs p)[w := pc]\<rparr>"

text \<open>The assertion on the worker count, and the workers before their first step.\<close>

definition run_worker_pool ::
  "nat \<Rightarrow> ('c, 'k) work_queue \<Rightarrow> 'o \<Rightarrow> 'g \<Rightarrow> ('c, 'k, 'o, 'g, 'x, 'r) pool option" where
  "run_worker_pool worker_count q o0 g =
    (if worker_count = 0 then None
     else Some \<lparr>pool_queue = q, outcome_channel = o0, pool_world = g, pool_pcs = replicate worker_count PDequeue,
       jobs_accepted = [], jobs_taken = [], finished = [], lost = [], admissions = [], settlements = [], leaked = []\<rparr>)"

fun worker_advance ::
  "('c, 'k, 'o, 'g, 'x, 'r) pool_env \<Rightarrow> nat \<Rightarrow> bool \<Rightarrow> ('x, 'r) pool_pc \<Rightarrow> ('c, 'k, 'o, 'g, 'x, 'r) pool
    \<Rightarrow> ('c, 'k, 'o, 'g, 'x, 'r) pool option"
where
  "worker_advance env w cancelled PDequeue p =
    (case dequeue (queue_ops env) (key_ops env) (pool_queue p) of
      (Dequeued job, q) \<Rightarrow> Some (at_pc w (PAdmit job 0) p\<lparr>pool_queue := q, jobs_taken := jobs_taken p @ [job]\<rparr>)
    | (Drained, q) \<Rightarrow> Some (at_pc w (PExited QueueClosed) p\<lparr>pool_queue := q\<rparr>)
    | (Blocks, q) \<Rightarrow> None)"
| "worker_advance env w cancelled (PAdmit job n) p =
    (if n < length (regulators env)
     then Some (at_pc w (PWaiting job n) p\<lparr>pool_world := admit_start (regulators env ! n) w (pool_world p)\<rparr>)
     else Some (at_pc w (PExecute job) p))"
| "worker_advance env w cancelled (PWaiting job n) p =
    (case admit_poll (regulators env ! n) w cancelled (pool_world p) of
      (None, g) \<Rightarrow> Some (p\<lparr>pool_world := g\<rparr>)
    | (Some Admitted, g) \<Rightarrow>
        Some (at_pc w (PAdmit job (n + 1)) p\<lparr>pool_world := g, admissions := admissions p @ [n]\<rparr>)
    | (Some AdmitCancelled, g) \<Rightarrow>
        Some (at_pc w (PExited AdmissionCancelled) p\<lparr>pool_world := g, lost := lost p @ [job],
          leaked := leaked p @ [0..<n]\<rparr>))"
| "worker_advance env w cancelled (PSettle job out charge n) p =
    (if n < length (regulators env)
     then Some (at_pc w (PSettle job out charge (n + 1)) p
       \<lparr>pool_world := settle (regulators env ! n) w charge (pool_world p), settlements := settlements p @ [n]\<rparr>)
     else Some (at_pc w (PSend job out) p))"
| "worker_advance env w cancelled (PSend job out) p =
    (case try_send (outcome_ops env) out (outcome_channel p) of
      (Inr _, o') \<Rightarrow> Some (at_pc w PDequeue p\<lparr>outcome_channel := o', finished := finished p @ [(job, out)]\<rparr>)
    | (Inl Full, o') \<Rightarrow> None
    | (Inl Closed, o') \<Rightarrow>
        Some (at_pc w (PExited OutcomesClosed) p\<lparr>outcome_channel := o', lost := lost p @ [job]\<rparr>))"
| "worker_advance env w cancelled _ p = None"

text \<open>The job a worker holds.\<close>

fun jobs_at :: "('x, 'r) pool_pc \<Rightarrow> 'x job_spec list" where
  "jobs_at PDequeue = []"
| "jobs_at (PAdmit job _) = [job]"
| "jobs_at (PWaiting job _) = [job]"
| "jobs_at (PExecute job) = [job]"
| "jobs_at (PSettle job _ _ _) = [job]"
| "jobs_at (PSend job _) = [job]"
| "jobs_at (PExited _) = []"

text \<open>The regulators, of \<open>k\<close>, whose permits a worker holds.\<close>

fun permits_at :: "nat \<Rightarrow> ('x, 'r) pool_pc \<Rightarrow> nat list" where
  "permits_at k (PAdmit _ n) = [0..<n]"
| "permits_at k (PWaiting _ n) = [0..<n]"
| "permits_at k (PExecute _) = [0..<k]"
| "permits_at k (PSettle _ _ _ n) = [n..<k]"
| "permits_at k _ = []"

text \<open>A panic that nothing catches ends the worker's task; what the worker holds goes with it.\<close>

definition unwind_worker ::
  "('c, 'k, 'o, 'g, 'x, 'r) pool_env \<Rightarrow> nat \<Rightarrow> ('c, 'k, 'o, 'g, 'x, 'r) pool \<Rightarrow> ('c, 'k, 'o, 'g, 'x, 'r) pool" where
  "unwind_worker env w p = at_pc w (PExited WorkerPanicked) p
    \<lparr>lost := lost p @ jobs_at (pool_pcs p ! w),
     leaked := leaked p @ permits_at (length (regulators env)) (pool_pcs p ! w)\<rparr>"

fun worker_executed ::
  "('c, 'k, 'o, 'g, 'x, 'r) pool_env \<Rightarrow> nat \<Rightarrow> 'r execution \<Rightarrow> duration \<Rightarrow> ('x, 'r) pool_pc
    \<Rightarrow> ('c, 'k, 'o, 'g, 'x, 'r) pool \<Rightarrow> ('c, 'k, 'o, 'g, 'x, 'r) pool option"
where
  "worker_executed env w execution elapsed (PExecute job) p =
    (case outcome_of job execution elapsed of
      Returns out \<Rightarrow> Some (at_pc w (PSettle job out (settle_outcome_of (charge_of env) out) 0) p)
    | Unwinds panic \<Rightarrow> Some (unwind_worker env w p))"
| "worker_executed env w execution elapsed _ p = None"

text \<open>
  Besides the workers: producers, a close of the queue, the delivery task, and whatever else acts
  on the regulators' state (responses observed, cooldowns that end).
\<close>

datatype ('g, 'x, 'r) pool_action =
    PoolAdvance nat bool
  | PoolExecuted nat "'r execution" duration
  | PoolEnqueue int "'x job_spec"
  | PoolClose
  | PoolDeliver
  | PoolReceiverGone
  | PoolWorld "'g \<Rightarrow> 'g"

fun pool_step ::
  "('c, 'k, 'o, 'g, 'x, 'r) pool_env \<Rightarrow> ('g, 'x, 'r) pool_action \<Rightarrow> ('c, 'k, 'o, 'g, 'x, 'r) pool
    \<Rightarrow> ('c, 'k, 'o, 'g, 'x, 'r) pool option"
where
  "pool_step env (PoolAdvance w cancelled) p =
    (if w < length (pool_pcs p) then worker_advance env w cancelled (pool_pcs p ! w) p else None)"
| "pool_step env (PoolExecuted w execution elapsed) p =
    (if w < length (pool_pcs p) then worker_executed env w execution elapsed (pool_pcs p ! w) p else None)"
| "pool_step env (PoolEnqueue now job) p =
    (case enqueue (queue_ops env) (key_ops env) now job (pool_queue p) of
      (Accepted, q) \<Rightarrow>
        Some (p\<lparr>pool_queue := q, jobs_accepted := jobs_accepted p @ [job\<lparr>job_enqueued_at := Some now\<rparr>]\<rparr>)
    | (_, q) \<Rightarrow> Some (p\<lparr>pool_queue := q\<rparr>))"
| "pool_step env PoolClose p = Some (p\<lparr>pool_queue := close (pool_queue p)\<rparr>)"
| "pool_step env PoolDeliver p =
    (case try_recv (outcome_ops env) (outcome_channel p) of
      None \<Rightarrow> None
    | Some (out, o') \<Rightarrow> Some (p\<lparr>outcome_channel := o'\<rparr>))"
| "pool_step env PoolReceiverGone p =
    Some (p\<lparr>outcome_channel := close_receiver (outcome_ops env) (outcome_channel p)\<rparr>)"
| "pool_step env (PoolWorld f) p = Some (p\<lparr>pool_world := f (pool_world p)\<rparr>)"

fun pool_exec ::
  "('c, 'k, 'o, 'g, 'x, 'r) pool_env \<Rightarrow> ('g, 'x, 'r) pool_action list \<Rightarrow> ('c, 'k, 'o, 'g, 'x, 'r) pool
    \<Rightarrow> ('c, 'k, 'o, 'g, 'x, 'r) pool option"
where
  "pool_exec env [] p = Some p"
| "pool_exec env (a # acts) p = (case pool_step env a p of None \<Rightarrow> None | Some p' \<Rightarrow> pool_exec env acts p')"

text \<open>
  The pool without a regulator chain asks the budget gate, then the rate limit, and settles
  neither: it is the regulated pool over these two with the default \<open>settle\<close>.
\<close>

definition unsettled :: "'g regulator \<Rightarrow> 'g regulator" where
  "unsettled r = r\<lparr>settle := settle_default\<rparr>"

definition worker_loop_chain :: "'g regulator \<Rightarrow> 'g regulator \<Rightarrow> 'g regulator list" where
  "worker_loop_chain budget rate_limit = [unsettled budget, unsettled rate_limit]"

section \<open>The books balance\<close>

fun outcome_matches :: "'x job_spec \<Rightarrow> 'r job_outcome \<Rightarrow> bool" where
  "outcome_matches job (Success key _ src _ correlation) \<longleftrightarrow>
    key = job_key job \<and> src = job_origin job \<and> correlation = job_correlation job"
| "outcome_matches job (Failure key _ src _ correlation) \<longleftrightarrow>
    key = job_key job \<and> src = job_origin job \<and> correlation = job_correlation job"

fun pool_pc_ok :: "nat \<Rightarrow> ('x, 'r) pool_pc \<Rightarrow> bool" where
  "pool_pc_ok k (PAdmit _ n) \<longleftrightarrow> n \<le> k"
| "pool_pc_ok k (PWaiting _ n) \<longleftrightarrow> n < k"
| "pool_pc_ok k (PSettle job out _ n) \<longleftrightarrow> n \<le> k \<and> outcome_matches job out"
| "pool_pc_ok k (PSend job out) \<longleftrightarrow> outcome_matches job out"
| "pool_pc_ok k _ \<longleftrightarrow> True"

definition jobs_balance :: "('c, 'k, 'o, 'g, 'x, 'r) pool \<Rightarrow> bool" where
  "jobs_balance p \<longleftrightarrow> mset (jobs_taken p)
    = mset (concat (map jobs_at (pool_pcs p))) + mset (map fst (finished p)) + mset (lost p)"

definition permits_balance :: "nat \<Rightarrow> ('c, 'k, 'o, 'g, 'x, 'r) pool \<Rightarrow> bool" where
  "permits_balance k p \<longleftrightarrow> mset (admissions p)
    = mset (concat (map (permits_at k) (pool_pcs p))) + mset (settlements p) + mset (leaked p)"

definition exits_explain :: "('c, 'k, 'o, 'g, 'x, 'r) pool \<Rightarrow> bool" where
  "exits_explain p \<longleftrightarrow> (lost p \<noteq> [] \<or> leaked p \<noteq> [] \<longrightarrow> (\<exists>e. e \<noteq> QueueClosed \<and> PExited e \<in> set (pool_pcs p)))"

definition pool_inv :: "nat \<Rightarrow> ('c, 'k, 'o, 'g, 'x, 'r) pool \<Rightarrow> bool" where
  "pool_inv k p \<longleftrightarrow> jobs_balance p \<and> permits_balance k p \<and> exits_explain p
    \<and> list_all (pool_pc_ok k) (pool_pcs p) \<and> list_all (\<lambda>(job, out). outcome_matches job out) (finished p)"

lemma mset_concat_update:
  assumes "w < length xs"
  shows "mset (concat (map f (xs[w := y]))) + mset (f (xs ! w)) = mset (concat (map f xs)) + mset (f y)"
proof -
  have "mset (concat (map f xs)) = mset (concat (map f (take w xs @ xs ! w # drop (Suc w) xs)))"
    using id_take_nth_drop [OF assms] by simp
  then show ?thesis using assms by (simp add: upd_conv_take_nth_drop)
qed

lemma balance_move:
  assumes "mset T = mset (concat (map f xs)) + F" and "w < length xs"
    and "mset T' + mset (f (xs ! w)) + F = mset T + mset (f y) + F'"
  shows "mset T' = mset (concat (map f (xs[w := y]))) + F'"
proof -
  have "(mset T' + mset (f (xs ! w))) + F = (mset (concat (map f (xs[w := y]))) + F' + mset (f (xs ! w))) + F"
    using assms mset_concat_update [OF assms(2), of f y] by (simp add: ac_simps)
  then show ?thesis by simp
qed

lemma exited_stays:
  assumes "PExited e \<in> set xs" "w < length xs" "\<And>e'. xs ! w \<noteq> PExited e'"
  shows "PExited e \<in> set (xs[w := y])"
proof -
  obtain v where v: "v < length xs" "xs ! v = PExited e" using assms(1) by (metis in_set_conv_nth)
  then have "v \<noteq> w" using assms(3) by metis
  then have "xs[w := y] ! v = PExited e" using v by simp
  then show ?thesis using v(1) by (metis length_list_update nth_mem)
qed

text \<open>A worker moves from its program counter to \<open>pc\<close>, and the books move with it.\<close>

lemma pool_inv_move:
  assumes i: "pool_inv k p" and w: "w < length (pool_pcs p)" "pool_pcs p ! w = pc0" "\<And>e. pc0 \<noteq> PExited e"
    and p': "pool_pcs p' = (pool_pcs p)[w := pc]" "pool_pc_ok k pc"
    and jobs: "jobs_taken p' = jobs_taken p @ js" "finished p' = finished p @ fs" "lost p' = lost p @ ls"
      "mset js + mset (jobs_at pc0) = mset (jobs_at pc) + mset (map fst fs) + mset ls"
    and permits: "admissions p' = admissions p @ as" "settlements p' = settlements p @ ss" "leaked p' = leaked p @ ks"
      "mset as + mset (permits_at k pc0) = mset (permits_at k pc) + mset ss + mset ks"
    and exit: "ls \<noteq> [] \<or> ks \<noteq> [] \<Longrightarrow> \<exists>e. pc = PExited e \<and> e \<noteq> QueueClosed"
    and fs: "list_all (\<lambda>(job, out). outcome_matches job out) fs"
  shows "pool_inv k p'"
proof -
  have "jobs_balance p'"
    unfolding jobs_balance_def p'(1) add.assoc
    using i w jobs unfolding pool_inv_def jobs_balance_def
    by (intro balance_move [where T = "jobs_taken p" and F = "mset (map fst (finished p)) + mset (lost p)"])
      (simp_all add: ac_simps)
  moreover have "permits_balance k p'"
    unfolding permits_balance_def p'(1) add.assoc
    using i w permits unfolding pool_inv_def permits_balance_def
    by (intro balance_move [where T = "admissions p" and F = "mset (settlements p) + mset (leaked p)"])
      (simp_all add: ac_simps)
  moreover have "exits_explain p'"
  proof (cases "ls \<noteq> [] \<or> ks \<noteq> []")
    case True
    then show ?thesis using exit w(1) set_update_memI [OF w(1)] unfolding exits_explain_def p'(1) by blast
  next
    case False
    then show ?thesis
      using i jobs(3) permits(3) exited_stays [OF _ w(1)] w(2,3) unfolding pool_inv_def exits_explain_def p'(1) by auto
  qed
  moreover have "list_all (pool_pc_ok k) (pool_pcs p')"
    using i p' unfolding pool_inv_def by (simp add: list_all_iff) (metis in_set_conv_nth set_update_subset_insert subsetD insertE)
  ultimately show ?thesis using i fs jobs(2) unfolding pool_inv_def by simp
qed

lemma pc_ok_nth: "pool_inv k p \<Longrightarrow> w < length (pool_pcs p) \<Longrightarrow> pool_pc_ok k (pool_pcs p ! w)"
  by (simp add: pool_inv_def list_all_length)

lemma outcome_of_matches: "outcome_of job execution elapsed = Returns out \<Longrightarrow> outcome_matches job out"
  by (auto simp: outcome_of_def split: sum.splits unwinding.splits)

lemma pool_inv_other:
  assumes "pool_inv k p" "pool_pcs p' = pool_pcs p" "jobs_taken p' = jobs_taken p" "finished p' = finished p"
    "lost p' = lost p" "admissions p' = admissions p" "settlements p' = settlements p" "leaked p' = leaked p"
  shows "pool_inv k p'"
  using assms unfolding pool_inv_def jobs_balance_def permits_balance_def exits_explain_def by simp

lemma worker_advance_inv:
  assumes i: "pool_inv (length (regulators env)) p" and w: "w < length (pool_pcs p)"
    and step: "worker_advance env w cancelled (pool_pcs p ! w) p = Some p'"
  shows "pool_inv (length (regulators env)) p'"
proof (cases "pool_pcs p ! w")
  case PDequeue
  obtain d q where d: "dequeue (queue_ops env) (key_ops env) (pool_queue p) = (d, q)" by fastforce
  show ?thesis
  proof (cases d)
    case (Dequeued job)
    then show ?thesis
      using step d PDequeue
      by (intro pool_inv_move [OF i w PDequeue, where pc = "PAdmit job 0" and js = "[job]" and fs = "[]" and ls = "[]"
            and as = "[]" and ss = "[]" and ks = "[]"]) auto
  next
    case Drained
    then show ?thesis
      using step d PDequeue
      by (intro pool_inv_move [OF i w PDequeue, where pc = "PExited QueueClosed" and js = "[]" and fs = "[]" and ls = "[]"
            and as = "[]" and ss = "[]" and ks = "[]"]) auto
  qed (use step d PDequeue in simp)
next
  case (PAdmit job n)
  have n: "n \<le> length (regulators env)" using pc_ok_nth [OF i w] PAdmit by simp
  show ?thesis
  proof (cases "n < length (regulators env)")
    case True
    then show ?thesis
      using step PAdmit
      by (intro pool_inv_move [OF i w PAdmit, where pc = "PWaiting job n" and js = "[]" and fs = "[]" and ls = "[]"
            and as = "[]" and ss = "[]" and ks = "[]"]) auto
  next
    case False
    then show ?thesis
      using step PAdmit n
      by (intro pool_inv_move [OF i w PAdmit, where pc = "PExecute job" and js = "[]" and fs = "[]" and ls = "[]"
            and as = "[]" and ss = "[]" and ks = "[]"]) auto
  qed
next
  case (PWaiting job n)
  have n: "n < length (regulators env)" using pc_ok_nth [OF i w] PWaiting by simp
  obtain a g where a: "admit_poll (regulators env ! n) w cancelled (pool_world p) = (a, g)" by fastforce
  consider "a = None" | "a = Some Admitted" | "a = Some AdmitCancelled" by (metis admission.exhaust option.exhaust)
  then show ?thesis
  proof cases
    case 1
    then show ?thesis using step PWaiting a by (intro pool_inv_other [OF i]) auto
  next
    case 2
    then show ?thesis
      using step PWaiting a n
      by (intro pool_inv_move [OF i w PWaiting, where pc = "PAdmit job (n + 1)" and js = "[]" and fs = "[]" and ls = "[]"
            and as = "[n]" and ss = "[]" and ks = "[]"]) auto
  next
    case 3
    then show ?thesis
      using step PWaiting a n
      by (intro pool_inv_move [OF i w PWaiting, where pc = "PExited AdmissionCancelled" and js = "[]" and fs = "[]"
            and ls = "[job]" and as = "[]" and ss = "[]" and ks = "[0..<n]"]) auto
  qed
next
  case (PSettle job out charge n)
  have n: "n \<le> length (regulators env)" "outcome_matches job out" using pc_ok_nth [OF i w] PSettle by simp_all
  show ?thesis
  proof (cases "n < length (regulators env)")
    case True
    then show ?thesis
      using step PSettle n(2)
      by (intro pool_inv_move [OF i w PSettle, where pc = "PSettle job out charge (n + 1)" and js = "[]" and fs = "[]"
            and ls = "[]" and as = "[]" and ss = "[n]" and ks = "[]"]) (auto simp: upt_conv_Cons)
  next
    case False
    then show ?thesis
      using step PSettle n
      by (intro pool_inv_move [OF i w PSettle, where pc = "PSend job out" and js = "[]" and fs = "[]" and ls = "[]"
            and as = "[]" and ss = "[]" and ks = "[]"]) auto
  qed
next
  case (PSend job out)
  have ok: "outcome_matches job out" using pc_ok_nth [OF i w] PSend by simp
  obtain r c where r: "try_send (outcome_ops env) out (outcome_channel p) = (r, c)" by fastforce
  consider "r = Ok ()" | "r = Err Full" | "r = Err Closed" by (cases r) (auto intro: try_send_error.exhaust)
  then show ?thesis
  proof cases
    case 1
    then show ?thesis
      using step PSend r ok
      by (intro pool_inv_move [OF i w PSend, where pc = PDequeue and js = "[]" and fs = "[(job, out)]" and ls = "[]"
            and as = "[]" and ss = "[]" and ks = "[]"]) auto
  next
    case 3
    then show ?thesis
      using step PSend r
      by (intro pool_inv_move [OF i w PSend, where pc = "PExited OutcomesClosed" and js = "[]" and fs = "[]"
            and ls = "[job]" and as = "[]" and ss = "[]" and ks = "[]"]) auto
  qed (use step PSend r in simp)
qed (use step in simp_all)

lemma worker_executed_inv:
  assumes i: "pool_inv (length (regulators env)) p" and w: "w < length (pool_pcs p)"
    and step: "worker_executed env w execution elapsed (pool_pcs p ! w) p = Some p'"
  shows "pool_inv (length (regulators env)) p'"
proof (cases "pool_pcs p ! w")
  case (PExecute job)
  show ?thesis
  proof (cases "outcome_of job execution elapsed")
    case (Unwinds panic)
    then show ?thesis
      using step PExecute
      by (intro pool_inv_move [OF i w PExecute, where pc = "PExited WorkerPanicked" and js = "[]" and fs = "[]"
            and ls = "[job]" and as = "[]" and ss = "[]" and ks = "[0..<length (regulators env)]"]) (auto simp: unwind_worker_def)
  next
    case (Returns out)
    then show ?thesis
      using step PExecute outcome_of_matches [OF Returns]
      by (intro pool_inv_move [OF i w PExecute, where pc = "PSettle job out (settle_outcome_of (charge_of env) out) 0"
            and js = "[]" and fs = "[]" and ls = "[]" and as = "[]" and ss = "[]" and ks = "[]"]) auto
  qed
qed (use step in simp_all)

lemma pool_step_inv:
  assumes i: "pool_inv (length (regulators env)) p" and step: "pool_step env a p = Some p'"
  shows "pool_inv (length (regulators env)) p'"
proof (cases a)
  case (PoolAdvance w cancelled)
  then show ?thesis using step worker_advance_inv [OF i] by (auto split: if_splits)
next
  case (PoolExecuted w execution elapsed)
  then show ?thesis using step worker_executed_inv [OF i] by (auto split: if_splits)
qed (use step in \<open>auto intro!: pool_inv_other [OF i] split: prod.splits enqueue_result.splits option.splits\<close>)

lemma pool_exec_inv:
  "pool_inv (length (regulators env)) p \<Longrightarrow> pool_exec env acts p = Some p' \<Longrightarrow> pool_inv (length (regulators env)) p'"
  by (induction acts arbitrary: p) (auto split: option.splits dest: pool_step_inv)

lemma run_worker_pool_inv: "run_worker_pool n q o0 g = Some p \<Longrightarrow> pool_inv k p"
  by (auto simp: run_worker_pool_def pool_inv_def jobs_balance_def permits_balance_def exits_explain_def
      list_all_iff split: if_splits)

text \<open>The queue's side: what was accepted is taken or queued, and a drained queue stays so.\<close>

definition pool_queue_ok :: "('c \<Rightarrow> 'x job_spec list) \<Rightarrow> ('c, 'k, 'o, 'g, 'x, 'r) pool \<Rightarrow> bool" where
  "pool_queue_ok queued p \<longleftrightarrow>
    jobs_accepted p = jobs_taken p @ queued (wq_channel (pool_queue p))
    \<and> (PExited QueueClosed \<in> set (pool_pcs p) \<longrightarrow>
        \<not> sender_open (pool_queue p) \<and> queued (wq_channel (pool_queue p)) = [])"

lemma queue_ok_move:
  assumes "pool_queue_ok queued p" "pool_queue p' = pool_queue p" "jobs_accepted p' = jobs_accepted p"
    "jobs_taken p' = jobs_taken p" "pool_pcs p' = (pool_pcs p)[w := pc] \<or> pool_pcs p' = pool_pcs p" "pc \<noteq> PExited QueueClosed"
  shows "pool_queue_ok queued p'"
  using assms set_update_subset_insert [of "pool_pcs p" w pc] unfolding pool_queue_ok_def by auto

lemma worker_advance_queue:
  assumes ch: "mpsc_contract (queue_ops env) queued capacity closed" and i: "pool_queue_ok queued p"
    and w: "w < length (pool_pcs p)" and step: "worker_advance env w cancelled (pool_pcs p ! w) p = Some p'"
  shows "pool_queue_ok queued p'"
proof (cases "pool_pcs p ! w")
  case PDequeue
  obtain d q where d: "dequeue (queue_ops env) (key_ops env) (pool_queue p) = (d, q)" by fastforce
  note law = dequeue_receives [OF ch d]
  show ?thesis
  proof (cases d)
    case (Dequeued job)
    have "PExited QueueClosed \<notin> set (pool_pcs p)"
      using law Dequeued i unfolding pool_queue_ok_def by auto
    then have "PExited QueueClosed \<notin> set ((pool_pcs p)[w := PAdmit job 0])"
      using set_update_subset_insert [of "pool_pcs p" w "PAdmit job 0"] by auto
    then show ?thesis using step d PDequeue Dequeued law i unfolding pool_queue_ok_def by auto
  next
    case Drained
    then show ?thesis using step d PDequeue law i unfolding pool_queue_ok_def by auto
  qed (use step d PDequeue in simp)
next
  case (PWaiting job n)
  show ?thesis
    using step PWaiting
    by (auto split: prod.splits option.splits admission.splits
        intro: queue_ok_move [OF i, where w = w and pc = "PAdmit job (n + 1)"]
          queue_ok_move [OF i, where w = w and pc = "PExited AdmissionCancelled"])
next
  case (PSend job out)
  show ?thesis
    using step PSend
    by (auto split: prod.splits sum.splits try_send_error.splits
        intro: queue_ok_move [OF i, where w = w and pc = PDequeue]
          queue_ok_move [OF i, where w = w and pc = "PExited OutcomesClosed"])
qed (use step in \<open>auto split: if_splits intro: queue_ok_move [OF i, where w = w]\<close>)

lemma worker_executed_queue:
  assumes "pool_queue_ok queued p" "worker_executed env w execution elapsed (pool_pcs p ! w) p = Some p'"
  shows "pool_queue_ok queued p'"
proof (cases "pool_pcs p ! w")
  case (PExecute job)
  then show ?thesis
    using assms(2)
    by (auto simp: unwind_worker_def split: unwinding.splits intro: queue_ok_move [OF assms(1), where w = w])
qed (use assms(2) in simp_all)

lemma pool_step_queue:
  assumes ch: "mpsc_contract (queue_ops env) queued capacity closed" and i: "pool_queue_ok queued p"
    and step: "pool_step env a p = Some p'"
  shows "pool_queue_ok queued p'"
proof (cases a)
  case (PoolAdvance w cancelled)
  then show ?thesis using step worker_advance_queue [OF ch i] by (auto split: if_splits)
next
  case (PoolExecuted w execution elapsed)
  then show ?thesis using step worker_executed_queue [OF i] by (auto split: if_splits)
next
  case (PoolEnqueue now job)
  obtain res q where e: "enqueue (queue_ops env) (key_ops env) now job (pool_queue p) = (res, q)" by fastforce
  show ?thesis
    using step PoolEnqueue e enqueue_sends [OF ch e] i unfolding pool_queue_ok_def by (cases res) auto
next
  case PoolClose
  then show ?thesis using step i unfolding pool_queue_ok_def by (auto simp: close_def)
qed (use step i in \<open>auto simp: pool_queue_ok_def split: option.splits\<close>)

lemma pool_exec_queue:
  assumes "mpsc_contract (queue_ops env) queued capacity closed"
  shows "pool_queue_ok queued p \<Longrightarrow> pool_exec env acts p = Some p' \<Longrightarrow> pool_queue_ok queued p'"
  by (induction acts arbitrary: p) (auto split: option.splits dest: pool_step_queue [OF assms])

lemma pool_reachable:
  assumes "mpsc_contract (queue_ops env) queued capacity closed"
    and "run_worker_pool n q o0 g = Some p0" "queued (wq_channel q) = []" "pool_exec env acts p0 = Some p"
  shows "pool_inv (length (regulators env)) p" "pool_queue_ok queued p"
proof -
  show "pool_inv (length (regulators env)) p"
    using pool_exec_inv [OF run_worker_pool_inv [OF assms(2)] assms(4)] .
  have "pool_queue_ok queued p0"
    using assms(2,3) by (auto simp: run_worker_pool_def pool_queue_ok_def split: if_splits)
  then show "pool_queue_ok queued p" using pool_exec_queue [OF assms(1)] assms(4) by blast
qed

text \<open>
  C5. The books of the pool balance at every moment, for any number of workers, any regulators and
  any interleaving with producers and with the delivery task. Accepted jobs are taken in order; a
  taken job is with exactly one worker, or has one outcome, which carries its key, source and
  correlation, or was lost; and a permit of a regulator is with one worker, was settled once, or
  was left unsettled by a worker that exited.
\<close>

theorem pool_books_balance:
  assumes "mpsc_contract (queue_ops env) queued capacity closed"
    and "run_worker_pool n q o0 g = Some p0" "queued (wq_channel q) = []" "pool_exec env acts p0 = Some p"
  shows "jobs_accepted p = jobs_taken p @ queued (wq_channel (pool_queue p))
    \<and> mset (jobs_taken p) = mset (concat (map jobs_at (pool_pcs p))) + mset (map fst (finished p)) + mset (lost p)
    \<and> (\<forall>job out. (job, out) \<in> set (finished p) \<longrightarrow> outcome_matches job out)
    \<and> mset (admissions p)
      = mset (concat (map (permits_at (length (regulators env))) (pool_pcs p))) + mset (settlements p) + mset (leaked p)"
proof -
  have i: "pool_inv (length (regulators env)) p" and q: "pool_queue_ok queued p"
    using pool_reachable [where queued = queued, OF assms] by simp_all
  then show ?thesis
    unfolding pool_inv_def pool_queue_ok_def jobs_balance_def permits_balance_def list_all_iff by auto
qed

text \<open>
  C17. A graceful shutdown loses nothing: when every worker has exited because the queue was closed
  and drained, every job the queue ever accepted has its outcome, none was lost, and every permit
  was settled.
\<close>

theorem pool_drains_without_loss:
  assumes "mpsc_contract (queue_ops env) queued capacity closed"
    and "run_worker_pool n q o0 g = Some p0" "queued (wq_channel q) = []" "pool_exec env acts p0 = Some p"
    and exits: "\<forall>pc \<in> set (pool_pcs p). pc = PExited QueueClosed" and some: "pool_pcs p \<noteq> []"
  shows "mset (map fst (finished p)) = mset (jobs_accepted p) \<and> lost p = []
    \<and> mset (settlements p) = mset (admissions p)"
proof -
  have i: "pool_inv (length (regulators env)) p" and q: "pool_queue_ok queued p"
    using pool_reachable [where queued = queued, OF assms(1-4)] by simp_all
  have none: "concat (map jobs_at (pool_pcs p)) = []" "concat (map (permits_at k) (pool_pcs p)) = []" for k
    using exits by auto
  have "lost p = []" "leaked p = []"
    using i exits unfolding pool_inv_def exits_explain_def by (metis pool_pc.inject(6))+
  moreover have "PExited QueueClosed \<in> set (pool_pcs p)" using exits some by (cases "pool_pcs p") auto
  then have "jobs_accepted p = jobs_taken p" using q by (simp add: pool_queue_ok_def)
  ultimately show ?thesis
    using i none unfolding pool_inv_def jobs_balance_def permits_balance_def by simp
qed

section \<open>An executor that panics\<close>

lemma exit_is_final:
  assumes "w < length (pool_pcs p)" "pool_pcs p ! w = PExited e" "pool_step env a p = Some p'"
  shows "w < length (pool_pcs p') \<and> pool_pcs p' ! w = PExited e \<and> set (lost p) \<subseteq> set (lost p')"
proof (cases a)
  case (PoolAdvance v cancelled)
  then have v: "worker_advance env v cancelled (pool_pcs p ! v) p = Some p'" using assms(3) by (auto split: if_splits)
  then have "v \<noteq> w" using assms(2) by auto
  then show ?thesis
    using v assms(1,2)
    by (cases "pool_pcs p ! v")
      (auto split: prod.splits dequeue_result.splits if_splits option.splits admission.splits sum.splits try_send_error.splits)
next
  case (PoolExecuted v execution elapsed)
  then have v: "worker_executed env v execution elapsed (pool_pcs p ! v) p = Some p'" using assms(3) by (auto split: if_splits)
  then have "v \<noteq> w" using assms(2) by auto
  then show ?thesis using v assms(1,2)
    by (cases "pool_pcs p ! v") (auto simp: unwind_worker_def split: unwinding.splits)
qed (use assms in \<open>auto split: prod.splits enqueue_result.splits option.splits\<close>)

lemma exit_is_final_exec:
  "w < length (pool_pcs p) \<Longrightarrow> pool_pcs p ! w = PExited e \<Longrightarrow> pool_exec env acts p = Some p'
    \<Longrightarrow> pool_pcs p' ! w = PExited e \<and> set (lost p) \<subseteq> set (lost p')"
proof (induction acts arbitrary: p)
  case (Cons a acts)
  then obtain p1 where p1: "pool_step env a p = Some p1" "pool_exec env acts p1 = Some p'"
    by (auto split: option.splits)
  then show ?case using exit_is_final [OF Cons.prems(1,2) p1(1)] Cons.IH [of p1] by blast
qed simp

text \<open>
  A panic raised while the call makes its future is caught and becomes a failure outcome, which is
  settled and sent. One raised while the future is awaited passes the wrapper: the worker has exited
  for good, the job never gets an outcome, and no permit it held is settled.
\<close>

lemma executor_panic:
  assumes w: "w < length (pool_pcs p)" "pool_pcs p ! w = PExecute job"
  shows "(\<exists>p'. pool_step env (PoolExecuted w (Unwinds msg) elapsed) p = Some p'
      \<and> pool_pcs p' ! w = PSettle job (Failure (job_key job) (''executor panicked: '' @ msg) (job_origin job) elapsed
          (job_correlation job)) Charged 0)
    \<and> (\<exists>p'. pool_step env (PoolExecuted w (Returns (Unwinds msg)) elapsed) p = Some p'
      \<and> finished p' = finished p \<and> settlements p' = settlements p
      \<and> leaked p' = leaked p @ [0..<length (regulators env)]
      \<and> (\<forall>acts p''. pool_exec env acts p' = Some p'' \<longrightarrow>
          pool_pcs p'' ! w = PExited WorkerPanicked \<and> job \<in> set (lost p'')))"
proof -
  define p' where "p' = unwind_worker env w p"
  have "pool_step env (PoolExecuted w (Returns (Unwinds msg)) elapsed) p = Some p'"
    using w by (simp add: p'_def outcome_of_def)
  moreover have "\<forall>acts p''. pool_exec env acts p' = Some p'' \<longrightarrow>
      pool_pcs p'' ! w = PExited WorkerPanicked \<and> job \<in> set (lost p'')"
    using exit_is_final_exec [of w p' WorkerPanicked env] w by (fastforce simp: p'_def unwind_worker_def)
  ultimately show ?thesis using w by (auto simp: p'_def unwind_worker_def outcome_of_def)
qed

section \<open>A small pool\<close>

definition sample_pool_env :: "(unit job_spec list_channel, domain_key list, nat job_outcome list_channel, budget_gate,
    unit, nat) pool_env" where
  "sample_pool_env = \<lparr>queue_ops = list_channel_ops 1, key_ops = list_key_ops, outcome_ops = list_channel_ops 1,
    regulators = [BudgetRegulator], charge_of = (\<lambda>_ _. Free)\<rparr>"

text \<open>One worker, one permit: the job is admitted, executed, found free, refunded and reported.\<close>

abbreviation first_worker :: "(budget_gate, unit, nat) pool_action" where
  "first_worker \<equiv> PoolAdvance 0 False"

definition sample_pool_start :: "(budget_gate, unit, nat) pool_action list" where
  "sample_pool_start = [PoolEnqueue 1 (sample_job ''a''), PoolClose, first_worker, first_worker, first_worker,
    first_worker, first_worker, first_worker, first_worker, first_worker]"

definition sample_pool_acts :: "(budget_gate, unit, nat) pool_action list" where
  "sample_pool_acts = sample_pool_start
    @ [PoolExecuted 0 (Returns (Returns (Ok 5))) 9, first_worker, first_worker, first_worker, first_worker]"

definition sample_pool0 :: "(unit job_spec list_channel, domain_key list, nat job_outcome list_channel, budget_gate,
    unit, nat) pool" where
  "sample_pool0 = the (run_worker_pool 1 sample_queue empty_list_channel one_permit_gate)"

definition sample_pool :: "(budget_gate, unit, nat) pool_action list \<Rightarrow> (unit job_spec list_channel, domain_key list,
    nat job_outcome list_channel, budget_gate, unit, nat) pool" where
  "sample_pool acts = the (pool_exec sample_pool_env acts sample_pool0)"

lemmas sample_pool_defs = outcome_of_def sample_pool_def sample_pool_acts_def sample_pool_start_def sample_pool0_def sample_pool_env_def
  run_worker_pool_def sample_queue_def list_channel_ops_def list_key_ops_def BudgetRegulator_def
  BudgetRegulator_poll_def step_or_stay_def one_permit_gate_def BudgetGate_new_def enqueue_def send_job_def
  forget_key_def close_def dequeue_def JobSpec_new_def

lemma sample_pool_new:
  "mpsc_contract (queue_ops sample_pool_env) items 1 receiver_gone"
  "run_worker_pool 1 sample_queue empty_list_channel one_permit_gate = Some sample_pool0"
  using list_channel_contract by (simp_all add: sample_pool_env_def sample_pool0_def run_worker_pool_def)

lemma sample_pool_run:
  "pool_exec sample_pool_env sample_pool_acts sample_pool0 = Some (sample_pool sample_pool_acts)"
  "pool_pcs (sample_pool sample_pool_acts) = [PExited QueueClosed]"
  "calls (pool_world (sample_pool sample_pool_acts)) = 0"
  "map job_key (jobs_accepted (sample_pool sample_pool_acts)) = [''a'']"
  by (simp_all add: sample_pool_defs)

lemma sample_pool_executing:
  "pool_exec sample_pool_env sample_pool_start sample_pool0 = Some (sample_pool sample_pool_start)"
  "\<exists>job. pool_pcs (sample_pool sample_pool_start) = [PExecute job] \<and> job_key job = ''a''"
  "admissions (sample_pool sample_pool_start) = [0]" "leaked (sample_pool sample_pool_start) = []"
  by (simp_all add: sample_pool_defs)

theorem pool_books_balance_witness:
  "admissions (sample_pool sample_pool_start) = [0]
    \<and> mset (admissions (sample_pool sample_pool_start))
      = mset (concat (map (permits_at 1) (pool_pcs (sample_pool sample_pool_start))))
        + mset (settlements (sample_pool sample_pool_start)) + mset (leaked (sample_pool sample_pool_start))"
proof -
  have "length (regulators sample_pool_env) = 1" by (simp add: sample_pool_env_def)
  then show ?thesis
    using pool_books_balance [where queued = items, OF sample_pool_new(1,2) sample_queue_new(2)
        sample_pool_executing(1)] sample_pool_executing(3)
    by simp
qed

theorem pool_drains_without_loss_witness:
  "map job_key (jobs_accepted (sample_pool sample_pool_acts)) = [''a'']
    \<and> mset (map fst (finished (sample_pool sample_pool_acts))) = mset (jobs_accepted (sample_pool sample_pool_acts))
    \<and> lost (sample_pool sample_pool_acts) = [] \<and> calls (pool_world (sample_pool sample_pool_acts)) = 0"
proof -
  have "mset (map fst (finished (sample_pool sample_pool_acts))) = mset (jobs_accepted (sample_pool sample_pool_acts))
      \<and> lost (sample_pool sample_pool_acts) = []
      \<and> mset (settlements (sample_pool sample_pool_acts)) = mset (admissions (sample_pool sample_pool_acts))"
    by (rule pool_drains_without_loss [where queued = items, OF sample_pool_new(1,2) sample_queue_new(2)
        sample_pool_run(1)]) (simp_all add: sample_pool_run(2))
  then show ?thesis using sample_pool_run(3,4) by simp
qed

end
