(* ===== verification/Run_Lock.thy ===== *)
theory Run_Lock
  imports Core_Types
begin

text \<open>
  The run lock of \<open>cherry-pit-storage\<close> (\<open>lock.rs\<close>), with that crate's error type (\<open>error.rs\<close>) and
  atomic write (\<open>fs.rs\<close>). The lock is one file; several processes act on it through system calls,
  one step each. The system's own error texts are left out of messages. Serialisation of the metadata, the process table and the clock are parameters:
  \<open>lock_codec\<close> and the \<open>lock_view\<close> a process has when it steps. Timestamps and durations are in
  nanoseconds.
\<close>

section \<open>Errors\<close>

datatype io_error = NotFound | AlreadyExists | OtherIo string

datatype persistence_error =
    Indeterminate string
  | LockFailed string
  | AtomicWriteFailed string
  | LoadFailed string
  | TornWriteRecovery string
  | FencedConflict "nat option" "nat option" string
  | BackendUnavailable string
  | InvariantViolation string
  | PoisonedState
  | PersistenceIo io_error

datatype retry_class = RetryAfterReconciliation | RetryClassRetryable | RetryClassTerminal

fun RetryClass_is_retryable :: "retry_class \<Rightarrow> bool" where
  "RetryClass_is_retryable RetryClassRetryable = True"
| "RetryClass_is_retryable _ = False"

fun RetryClass_is_terminal :: "retry_class \<Rightarrow> bool" where
  "RetryClass_is_terminal RetryClassTerminal = True"
| "RetryClass_is_terminal _ = False"

fun PersistenceError_retry_class :: "persistence_error \<Rightarrow> retry_class" where
  "PersistenceError_retry_class (Indeterminate _) = RetryAfterReconciliation"
| "PersistenceError_retry_class (BackendUnavailable _) = RetryClassRetryable"
| "PersistenceError_retry_class _ = RetryClassTerminal"

section \<open>Metadata\<close>

record lock_metadata =
  lm_run_id :: string
  lm_pid :: nat
  lm_hostname :: string
  lm_created_at :: int

record lock_codec =
  render_lock :: "lock_metadata \<Rightarrow> string"
  parse_lock :: "string \<Rightarrow> lock_metadata option"
  show_timestamp :: "int \<Rightarrow> string"

text \<open>
  What a process sees when it steps: the clock, its own pid and host name, the pids for which the
  kernel answers ESRCH, whether the system call of this step fails for an external reason, and
  whether the synchronisation of the directory after a rename does.
\<close>

record lock_view =
  now :: int
  own_pid :: nat
  own_hostname :: string
  no_such_process :: "nat \<Rightarrow> bool"
  fault :: bool
  fsync_fault :: bool

definition DEFAULT_LOCK_TTL :: nat where
  "DEFAULT_LOCK_TTL = 15 * 60 * 1000000000"

definition current_with_clock :: "lock_view \<Rightarrow> string \<Rightarrow> lock_metadata" where
  "current_with_clock v run_id =
    \<lparr>lm_run_id = run_id, lm_pid = own_pid v, lm_hostname = own_hostname v, lm_created_at = now v\<rparr>"

section \<open>Staleness\<close>

datatype reclaim_reasons = TtlExpired | DeadHolderSameHost

fun ReclaimReason_as_str :: "reclaim_reasons \<Rightarrow> string" where
  "ReclaimReason_as_str TtlExpired = ''ttl-expired''"
| "ReclaimReason_as_str DeadHolderSameHost = ''dead-holder-same-host''"

text \<open>A pid above the signed 32-bit range, and pid 0, count as alive.\<close>

definition pid_is_alive :: "lock_view \<Rightarrow> nat \<Rightarrow> bool" where
  "pid_is_alive v pid = (if pid \<ge> 2 ^ 31 then True else if pid = 0 then True else \<not> no_such_process v pid)"

definition same_host_dead_holder :: "lock_view \<Rightarrow> lock_metadata \<Rightarrow> bool" where
  "same_host_dead_holder v m \<longleftrightarrow>
    lm_hostname m \<noteq> [] \<and> lm_hostname m = own_hostname v \<and> \<not> pid_is_alive v (lm_pid m)"

text \<open>A \<open>Duration\<close> whose seconds do not fit 63 bits is replaced by the default.\<close>

definition signed_ttl :: "nat \<Rightarrow> int" where
  "signed_ttl ttl = int (if ttl div 1000000000 < 2 ^ 63 then ttl else DEFAULT_LOCK_TTL)"

definition ttl_expired :: "lock_view \<Rightarrow> nat \<Rightarrow> lock_metadata \<Rightarrow> bool" where
  "ttl_expired v ttl m \<longleftrightarrow> now v - lm_created_at m > signed_ttl ttl"

definition reclaim_reason :: "lock_view \<Rightarrow> nat \<Rightarrow> lock_metadata \<Rightarrow> reclaim_reasons option" where
  "reclaim_reason v ttl m =
    (if same_host_dead_holder v m then Some DeadHolderSameHost
     else if ttl_expired v ttl m then Some TtlExpired else None)"

section \<open>The file\<close>

text \<open>The lock file, absent or with its text; a file that is read is first sized.\<close>

definition MAX_LOCK_FILE_BYTES :: nat where
  "MAX_LOCK_FILE_BYTES = 1048576"

definition read_lock :: "lock_codec \<Rightarrow> string option \<Rightarrow> (persistence_error, lock_metadata) result" where
  "read_lock codec file =
    (case file of
      None \<Rightarrow> Err (PersistenceIo NotFound)
    | Some content \<Rightarrow>
        if length content > MAX_LOCK_FILE_BYTES
        then Err (LockFailed (''lock file too large: '' @ show_nat (length content) @ '' bytes (max 1048576)''))
        else case parse_lock codec content of
          Some m \<Rightarrow> Ok m
        | None \<Rightarrow> Err (LockFailed ''lock file is corrupt: ''))"

definition create_lock_exclusive ::
  "lock_codec \<Rightarrow> bool \<Rightarrow> lock_metadata \<Rightarrow> string option \<Rightarrow> (io_error, unit) result \<times> string option" where
  "create_lock_exclusive codec failing m file =
    (if failing then (Err (OtherIo ''''), file)
     else case file of
       Some _ \<Rightarrow> (Err AlreadyExists, file)
     | None \<Rightarrow> (Ok (), Some (render_lock codec m)))"

definition remove_file :: "bool \<Rightarrow> string option \<Rightarrow> (io_error, unit) result \<times> string option" where
  "remove_file failing file =
    (if failing then (Err (OtherIo ''''), file)
     else case file of None \<Rightarrow> (Err NotFound, None) | Some _ \<Rightarrow> (Ok (), None))"

text \<open>
  Write to a temporary file, rename, synchronise the directory. The file has the old text or the
  new one; a failed synchronisation is reported though the new text is in place.
\<close>

definition atomic_write_text ::
  "bool \<Rightarrow> bool \<Rightarrow> string \<Rightarrow> string option \<Rightarrow> (persistence_error, unit) result \<times> string option" where
  "atomic_write_text failing fsync_failing content file =
    (if failing then (Err (AtomicWriteFailed ''''), file)
     else if fsync_failing then (Err (AtomicWriteFailed ''failed to fsync parent dir: ''), Some content)
     else (Ok (), Some content))"

definition held_error :: "lock_codec \<Rightarrow> lock_metadata \<Rightarrow> persistence_error" where
  "held_error codec m = LockFailed (''lock held by run '' @ lm_run_id m @ '' (pid '' @ show_nat (lm_pid m)
    @ '', since '' @ show_timestamp codec (lm_created_at m) @ '')'')"

definition retries_error :: persistence_error where
  "retries_error = LockFailed ''lock acquisition failed after max retries (concurrent stale-lock race)''"

definition MAX_ACQUIRE_ATTEMPTS :: nat where
  "MAX_ACQUIRE_ATTEMPTS = 3"

section \<open>Acquiring alone\<close>

text \<open>The attempts of a process that nobody disturbs, no system call failing.\<close>

fun acquire_attempts ::
  "lock_codec \<Rightarrow> lock_view \<Rightarrow> nat \<Rightarrow> nat \<Rightarrow> lock_metadata \<Rightarrow> string option
    \<Rightarrow> (persistence_error, lock_metadata) result \<times> string option"
where
  "acquire_attempts codec v ttl 0 m file = (Err retries_error, file)"
| "acquire_attempts codec v ttl (Suc n) m file =
    (case create_lock_exclusive codec False m file of
      (Inr _, file') \<Rightarrow> (Ok m, file')
    | (Inl AlreadyExists, file') \<Rightarrow>
        (case read_lock codec file' of
          Inr existing \<Rightarrow>
            (case reclaim_reason v ttl existing of
              Some _ \<Rightarrow> acquire_attempts codec v ttl n m (snd (remove_file False file'))
            | None \<Rightarrow> (Err (held_error codec existing), file'))
        | Inl _ \<Rightarrow> acquire_attempts codec v ttl n m (snd (remove_file False file')))
    | (Inl e, file') \<Rightarrow> (Err (LockFailed ''failed to create lock file: ''), file'))"

definition acquire_with_clock ::
  "lock_codec \<Rightarrow> lock_view \<Rightarrow> string \<Rightarrow> nat \<Rightarrow> bool \<Rightarrow> string option
    \<Rightarrow> (persistence_error, lock_metadata) result \<times> string option" where
  "acquire_with_clock codec v run_id ttl force file =
    acquire_attempts codec v ttl MAX_ACQUIRE_ATTEMPTS (current_with_clock v run_id)
      (if force \<and> file \<noteq> None then snd (remove_file False file) else file)"

section \<open>Processes\<close>

text \<open>
  A process acquiring the lock in attempt \<open>n\<close>, holding it, or letting it go. \<open>release\<close> deletes the
  file and then drops the guard, whose destructor deletes the file too; the boolean says whether
  \<open>release\<close> came first.
\<close>

datatype lock_pc =
    LIdle
  | LStart string bool
  | LForceCheck string
  | LForceRemove string
  | LStamp string
  | LCreate nat lock_metadata
  | LStat nat lock_metadata
  | LRead nat lock_metadata
  | LRecheck nat lock_metadata
  | LRemove nat lock_metadata
  | LHolds lock_metadata
  | LReleasing lock_metadata
  | LDropping lock_metadata bool
  | LFailed persistence_error

record lock_world =
  lock_file :: "string option"
  lock_pcs :: "nat \<Rightarrow> lock_pc"

abbreviation lock_goto :: "nat \<Rightarrow> lock_pc \<Rightarrow> lock_world \<Rightarrow> lock_world" where
  "lock_goto w pc s \<equiv> s\<lparr>lock_pcs := (lock_pcs s)(w := pc)\<rparr>"

definition next_attempt :: "nat \<Rightarrow> lock_metadata \<Rightarrow> lock_pc" where
  "next_attempt n m = (if n + 1 < MAX_ACQUIRE_ATTEMPTS then LCreate (n + 1) m else LFailed retries_error)"

fun lock_advance :: "lock_codec \<Rightarrow> nat \<Rightarrow> nat \<Rightarrow> lock_view \<Rightarrow> lock_pc \<Rightarrow> lock_world \<Rightarrow> lock_world option" where
  "lock_advance codec ttl w v (LStart run_id force) s =
    Some (lock_goto w (if fault v then LFailed (PersistenceIo (OtherIo ''''))
      else if force then LForceCheck run_id else LStamp run_id) s)"
| "lock_advance codec ttl w v (LForceCheck run_id) s =
    Some (lock_goto w (if lock_file s = None then LStamp run_id else LForceRemove run_id) s)"
| "lock_advance codec ttl w v (LForceRemove run_id) s =
    Some (lock_goto w (LStamp run_id) s\<lparr>lock_file := snd (remove_file (fault v) (lock_file s))\<rparr>)"
| "lock_advance codec ttl w v (LStamp run_id) s = Some (lock_goto w (LCreate 0 (current_with_clock v run_id)) s)"
| "lock_advance codec ttl w v (LCreate n m) s =
    (case create_lock_exclusive codec (fault v) m (lock_file s) of
      (Inr _, file') \<Rightarrow> Some (lock_goto w (LHolds m) s\<lparr>lock_file := file'\<rparr>)
    | (Inl AlreadyExists, file') \<Rightarrow> Some (lock_goto w (LStat n m) s)
    | (Inl _, file') \<Rightarrow> Some (lock_goto w (LFailed (LockFailed ''failed to create lock file: '')) s))"
| "lock_advance codec ttl w v (LStat n m) s =
    Some (lock_goto w
      (case lock_file s of
        None \<Rightarrow> LRecheck n m
      | Some content \<Rightarrow>
          if fault v \<or> length content > MAX_LOCK_FILE_BYTES then LRecheck n m else LRead n m) s)"
| "lock_advance codec ttl w v (LRead n m) s =
    Some (lock_goto w
      (case lock_file s of
        None \<Rightarrow> LRecheck n m
      | Some content \<Rightarrow>
          if fault v then LRecheck n m
          else case parse_lock codec content of
            None \<Rightarrow> LRecheck n m
          | Some existing \<Rightarrow>
              (case reclaim_reason v ttl existing of
                Some _ \<Rightarrow> LRemove n m
              | None \<Rightarrow> LFailed (held_error codec existing))) s)"
| "lock_advance codec ttl w v (LRecheck n m) s =
    Some (lock_goto w (if lock_file s = None \<and> \<not> fault v then next_attempt n m else LRemove n m) s)"
| "lock_advance codec ttl w v (LRemove n m) s =
    Some (lock_goto w (next_attempt n m) s\<lparr>lock_file := snd (remove_file (fault v) (lock_file s))\<rparr>)"
| "lock_advance codec ttl w v (LReleasing m) s =
    Some (lock_goto w (LDropping m True) s\<lparr>lock_file := snd (remove_file (fault v) (lock_file s))\<rparr>)"
| "lock_advance codec ttl w v (LDropping m released) s =
    Some (lock_goto w LIdle s\<lparr>lock_file := snd (remove_file (fault v) (lock_file s))\<rparr>)"
| "lock_advance codec ttl w v _ s = None"

text \<open>\<open>renew\<close> rewrites the file with a fresh time, whoever's file it is by then.\<close>

definition renew_with_clock :: "lock_codec \<Rightarrow> nat \<Rightarrow> lock_view \<Rightarrow> lock_metadata \<Rightarrow> lock_world \<Rightarrow> lock_world" where
  "renew_with_clock codec w v m s =
    (let refreshed = m\<lparr>lm_created_at := now v\<rparr> in
     case atomic_write_text (fault v) (fsync_fault v) (render_lock codec refreshed) (lock_file s) of
       (Inr _, file') \<Rightarrow> lock_goto w (LHolds refreshed) s\<lparr>lock_file := file'\<rparr>
     | (Inl _, file') \<Rightarrow> s\<lparr>lock_file := file'\<rparr>)"

datatype lock_action =
    LockAcquire nat string bool
  | LockAdvance nat lock_view
  | LockRenew nat lock_view
  | LockRelease nat
  | LockDrop nat

fun lock_step :: "lock_codec \<Rightarrow> nat \<Rightarrow> lock_action \<Rightarrow> lock_world \<Rightarrow> lock_world option" where
  "lock_step codec ttl (LockAcquire w run_id force) s =
    (case lock_pcs s w of
      LIdle \<Rightarrow> Some (lock_goto w (LStart run_id force) s)
    | LFailed _ \<Rightarrow> Some (lock_goto w (LStart run_id force) s)
    | _ \<Rightarrow> None)"
| "lock_step codec ttl (LockAdvance w v) s = lock_advance codec ttl w v (lock_pcs s w) s"
| "lock_step codec ttl (LockRenew w v) s =
    (case lock_pcs s w of LHolds m \<Rightarrow> Some (renew_with_clock codec w v m s) | _ \<Rightarrow> None)"
| "lock_step codec ttl (LockRelease w) s =
    (case lock_pcs s w of LHolds m \<Rightarrow> Some (lock_goto w (LReleasing m) s) | _ \<Rightarrow> None)"
| "lock_step codec ttl (LockDrop w) s =
    (case lock_pcs s w of LHolds m \<Rightarrow> Some (lock_goto w (LDropping m False) s) | _ \<Rightarrow> None)"

fun lock_exec :: "lock_codec \<Rightarrow> nat \<Rightarrow> lock_action list \<Rightarrow> lock_world \<Rightarrow> lock_world option" where
  "lock_exec codec ttl [] s = Some s"
| "lock_exec codec ttl (a # acts) s =
    (case lock_step codec ttl a s of None \<Rightarrow> None | Some s' \<Rightarrow> lock_exec codec ttl acts s')"

section \<open>What acquiring alone does\<close>

lemma acquire_attempts_free:
  "acquire_attempts codec v ttl (Suc n) m None = (Ok m, Some (render_lock codec m))"
  by (simp add: create_lock_exclusive_def)

lemma acquire_attempts_taken:
  "acquire_attempts codec v ttl (Suc (Suc n)) m (Some content) =
    (case read_lock codec (Some content) of
      Inr existing \<Rightarrow>
        if reclaim_reason v ttl existing = None then (Err (held_error codec existing), Some content)
        else (Ok m, Some (render_lock codec m))
    | Inl _ \<Rightarrow> (Ok m, Some (render_lock codec m)))"
  by (simp add: create_lock_exclusive_def remove_file_def split: sum.splits option.splits)

text \<open>
  Acquiring with nobody interfering, on every branch: an existing lock turns the caller away,
  naming its holder, exactly when it can be read, its holder is not known to be dead on this host,
  its age is within the time to live, and the caller does not force. In every other case (no file,
  force, unreadable or oversized text, dead holder, expired age) the caller gets the lock and the
  file holds its metadata.
\<close>

theorem acquire_alone:
  "acquire_with_clock codec v run_id ttl force file =
    (case (force, read_lock codec file) of
      (False, Inr existing) \<Rightarrow>
        if reclaim_reason v ttl existing = None then (Err (held_error codec existing), file)
        else (Ok (current_with_clock v run_id), Some (render_lock codec (current_with_clock v run_id)))
    | _ \<Rightarrow> (Ok (current_with_clock v run_id), Some (render_lock codec (current_with_clock v run_id))))"
proof -
  have three: "MAX_ACQUIRE_ATTEMPTS = Suc (Suc 1)" by (simp add: MAX_ACQUIRE_ATTEMPTS_def)
  show ?thesis
  proof (cases "file")
    case None
    have "read_lock codec None = Err (PersistenceIo NotFound)" by (simp add: read_lock_def)
    then show ?thesis
      using None by (cases force) (simp_all add: acquire_with_clock_def three acquire_attempts_free del: acquire_attempts.simps)
  next
    case (Some content)
    show ?thesis
    proof (cases force)
      case True
      then show ?thesis
        using Some by (simp add: acquire_with_clock_def three acquire_attempts_free remove_file_def del: acquire_attempts.simps)
    next
      case False
      then show ?thesis
        unfolding acquire_with_clock_def three Some
        by (simp add: acquire_attempts_taken del: acquire_attempts.simps split: sum.splits)
    qed
  qed
qed

text \<open>The steps of a process that runs alone come to the same.\<close>

definition acquired_pc :: "(persistence_error, lock_metadata) result \<Rightarrow> lock_pc" where
  "acquired_pc r = (case r of Inr m \<Rightarrow> LHolds m | Inl e \<Rightarrow> LFailed e)"

lemma attempts_run_alone:
  assumes pc: "lock_pcs s w = LCreate 0 m" and v: "\<not> fault v"
  obtains n s' where "lock_exec codec ttl (replicate n (LockAdvance w v)) s = Some s'"
    "lock_file s' = snd (acquire_attempts codec v ttl MAX_ACQUIRE_ATTEMPTS m (lock_file s))"
    "lock_pcs s' w = acquired_pc (fst (acquire_attempts codec v ttl MAX_ACQUIRE_ATTEMPTS m (lock_file s)))"
proof -
  have three: "MAX_ACQUIRE_ATTEMPTS = Suc (Suc 1)" by (simp add: MAX_ACQUIRE_ATTEMPTS_def)
  have again: "next_attempt 0 m = LCreate 1 m" by (simp add: next_attempt_def three)
  note defs = pc v again create_lock_exclusive_def remove_file_def acquired_pc_def read_lock_def
  consider (free) "lock_file s = None"
    | (large) c where "lock_file s = Some c" "length c > MAX_LOCK_FILE_BYTES"
    | (corrupt) c where "lock_file s = Some c" "length c \<le> MAX_LOCK_FILE_BYTES" "parse_lock codec c = None"
    | (taken) c e where "lock_file s = Some c" "length c \<le> MAX_LOCK_FILE_BYTES" "parse_lock codec c = Some e"
        "reclaim_reason v ttl e = None"
    | (stale) c e r where "lock_file s = Some c" "length c \<le> MAX_LOCK_FILE_BYTES" "parse_lock codec c = Some e"
        "reclaim_reason v ttl e = Some r"
    by (metis not_le option.exhaust)
  then show thesis
  proof cases
    case free
    then show thesis using that [of 1] by (simp add: defs three)
  next
    case large
    then show thesis using that [of "Suc (Suc (Suc (Suc 1)))"] by (simp add: defs three)
  next
    case corrupt
    then show thesis using that [of "Suc (Suc (Suc (Suc (Suc 1))))"] by (simp add: defs three)
  next
    case taken
    then show thesis using that [of "Suc (Suc 1)"] by (simp add: defs three)
  next
    case stale
    then show thesis using that [of "Suc (Suc (Suc (Suc 1)))"] by (simp add: defs three)
  qed
qed

section \<open>Exclusion\<close>

fun owns :: "lock_pc \<Rightarrow> bool" where
  "owns (LHolds _) = True"
| "owns (LReleasing _) = True"
| "owns (LDropping _ False) = True"
| "owns _ = False"

text \<open>The points at which a process deletes a file that may be another's.\<close>

fun intrudes :: "lock_pc \<Rightarrow> bool" where
  "intrudes (LForceRemove _) = True"
| "intrudes (LRemove _ _) = True"
| "intrudes (LDropping _ True) = True"
| "intrudes _ = False"

fun undisturbed :: "lock_codec \<Rightarrow> nat \<Rightarrow> lock_action list \<Rightarrow> lock_world \<Rightarrow> bool" where
  "undisturbed codec ttl [] s = True"
| "undisturbed codec ttl (a # acts) s \<longleftrightarrow>
    (case a of LockAdvance w v \<Rightarrow> \<not> intrudes (lock_pcs s w) | _ \<Rightarrow> True)
    \<and> (case lock_step codec ttl a s of Some s' \<Rightarrow> undisturbed codec ttl acts s' | None \<Rightarrow> True)"

definition lock_inv :: "lock_world \<Rightarrow> bool" where
  "lock_inv s \<longleftrightarrow> (\<forall>w w'. owns (lock_pcs s w) \<longrightarrow> owns (lock_pcs s w') \<longrightarrow> w = w')
    \<and> (\<forall>w. owns (lock_pcs s w) \<longrightarrow> lock_file s \<noteq> None)"

lemma lock_inv_keep:
  assumes "lock_inv s" "owns pc \<Longrightarrow> owns (lock_pcs s w)" "lock_pcs s' = (lock_pcs s)(w := pc)"
    "lock_file s \<noteq> None \<Longrightarrow> lock_file s' \<noteq> None"
  shows "lock_inv s'"
proof -
  have "owns (lock_pcs s' v) \<Longrightarrow> owns (lock_pcs s v)" for v using assms(2,3) by (auto split: if_splits)
  then show ?thesis using assms(1,4) unfolding lock_inv_def by blast
qed

lemma lock_inv_goto: "lock_inv s \<Longrightarrow> \<not> owns pc \<Longrightarrow> lock_inv (lock_goto w pc s)"
  by (rule lock_inv_keep [where w = w and pc = pc]) auto

lemma lock_inv_take:
  assumes "lock_inv s" "lock_file s = None" "lock_pcs s' = (lock_pcs s)(w := pc)" "lock_file s' \<noteq> None"
  shows "lock_inv s'"
proof -
  have "\<not> owns (lock_pcs s v)" for v using assms(1,2) unfolding lock_inv_def by blast
  then show ?thesis using assms(3,4) unfolding lock_inv_def by (auto split: if_splits)
qed

lemma lock_inv_leave:
  assumes "lock_inv s" "owns (lock_pcs s w)" "\<not> owns pc" "lock_pcs s' = (lock_pcs s)(w := pc)"
  shows "lock_inv s'"
proof -
  have "\<not> owns (lock_pcs s' v)" for v using assms unfolding lock_inv_def by (auto split: if_splits)
  then show ?thesis unfolding lock_inv_def by blast
qed

lemma lock_advance_inv:
  assumes i: "lock_inv s" and step: "lock_advance codec ttl w v (lock_pcs s w) s = Some s'"
    and gentle: "\<not> intrudes (lock_pcs s w)"
  shows "lock_inv s'"
proof (cases "lock_pcs s w")
  case (LStart run_id force)
  then show ?thesis using step by (auto split: if_splits intro!: lock_inv_goto [OF i])
next
  case (LForceCheck run_id)
  then show ?thesis using step by (auto split: if_splits intro!: lock_inv_goto [OF i])
next
  case (LStamp run_id)
  then show ?thesis using step by (auto split: if_splits intro!: lock_inv_goto [OF i])
next
  case (LCreate n m)
  show ?thesis
  proof (cases "lock_file s = None \<and> \<not> fault v")
    case True
    then show ?thesis
      using step LCreate
      by (intro lock_inv_take [OF i, where w = w and pc = "LHolds m"]) (auto simp: create_lock_exclusive_def)
  next
    case False
    then show ?thesis
      using step LCreate
      by (auto simp: create_lock_exclusive_def split: if_splits option.splits intro!: lock_inv_goto [OF i])
  qed
next
  case (LStat n m)
  then show ?thesis using step by (auto split: option.splits if_splits intro!: lock_inv_goto [OF i])
next
  case (LRead n m)
  then show ?thesis using step by (auto split: option.splits if_splits intro!: lock_inv_goto [OF i])
next
  case (LRecheck n m)
  then show ?thesis using step by (auto simp: next_attempt_def split: if_splits intro!: lock_inv_goto [OF i])
next
  case (LReleasing m)
  then show ?thesis
    using step by (intro lock_inv_leave [OF i, where w = w and pc = "LDropping m True"]) auto
next
  case (LDropping m released)
  then show ?thesis
    using step gentle by (cases released) (auto intro: lock_inv_leave [OF i, where w = w and pc = LIdle])
qed (use step gentle in simp_all)

lemma lock_step_inv:
  assumes i: "lock_inv s" and step: "lock_step codec ttl a s = Some s'"
    and gentle: "case a of LockAdvance w v \<Rightarrow> \<not> intrudes (lock_pcs s w) | _ \<Rightarrow> True"
  shows "lock_inv s'"
proof (cases a)
  case (LockAdvance w v)
  then show ?thesis using step gentle lock_advance_inv [OF i] by simp
next
  case (LockAcquire w run_id force)
  then show ?thesis
    using step by (intro lock_inv_keep [OF i, where w = w and pc = "LStart run_id force"]) (auto split: lock_pc.splits)
next
  case (LockRenew w v)
  then obtain m where m: "lock_pcs s w = LHolds m" "s' = renew_with_clock codec w v m s"
    using step by (auto split: lock_pc.splits)
  then obtain pc where "lock_pcs s' = (lock_pcs s)(w := pc)" "owns pc" "lock_file s \<noteq> None \<Longrightarrow> lock_file s' \<noteq> None"
    by (auto simp: renew_with_clock_def atomic_write_text_def Let_def fun_upd_idem intro: that [of "LHolds m"]
        split: if_splits)
  then show ?thesis using m(1) by (intro lock_inv_keep [OF i, where w = w and pc = pc]) auto
next
  case (LockRelease w)
  then obtain m where "lock_pcs s w = LHolds m" "s' = lock_goto w (LReleasing m) s"
    using step by (auto split: lock_pc.splits)
  then show ?thesis by (intro lock_inv_keep [OF i, where w = w and pc = "LReleasing m"]) auto
next
  case (LockDrop w)
  then obtain m where "lock_pcs s w = LHolds m" "s' = lock_goto w (LDropping m False) s"
    using step by (auto split: lock_pc.splits)
  then show ?thesis by (intro lock_inv_keep [OF i, where w = w and pc = "LDropping m False"]) auto
qed

lemma lock_exec_inv:
  "lock_inv s \<Longrightarrow> undisturbed codec ttl acts s \<Longrightarrow> lock_exec codec ttl acts s = Some s' \<Longrightarrow> lock_inv s'"
  by (induction acts arbitrary: s) (auto split: option.splits dest: lock_step_inv)

definition lock_start :: "string option \<Rightarrow> lock_world" where
  "lock_start file = \<lparr>lock_file = file, lock_pcs = (\<lambda>_. LIdle)\<rparr>"

text \<open>
  C10. Exclusion: as long as no process deletes a file that may be another's (by reclaiming, by
  forcing, or by the second deletion that follows an explicit release), at most one process holds
  the lock, and while one does, the file is there, whatever else fails or interleaves.
\<close>

theorem lock_exclusive:
  assumes "undisturbed codec ttl acts (lock_start file)" and "lock_exec codec ttl acts (lock_start file) = Some s"
    and "owns (lock_pcs s w)"
  shows "lock_file s \<noteq> None \<and> (owns (lock_pcs s w') \<longrightarrow> w' = w)"
proof -
  have "lock_inv (lock_start file)" by (simp add: lock_inv_def lock_start_def)
  then have "lock_inv s" using lock_exec_inv assms(1,2) by blast
  then show ?thesis using assms(3) unfolding lock_inv_def by blast
qed

text \<open>The view of a healthy process: nobody is dead and no call fails.\<close>

definition healthy :: lock_view where
  "healthy = \<lparr>now = 0, own_pid = 1, own_hostname = ''h'', no_such_process = (\<lambda>_. False), fault = False,
    fsync_fault = False\<rparr>"

definition takes_lock :: "nat \<Rightarrow> lock_action list" where
  "takes_lock w = [LockAcquire w ''run'' False, LockAdvance w healthy, LockAdvance w healthy, LockAdvance w healthy]"

definition codec0 :: lock_codec where
  "codec0 = \<lparr>render_lock = lm_run_id, parse_lock = (\<lambda>_. None), show_timestamp = (\<lambda>_. [])\<rparr>"

theorem lock_exclusive_witness:
  "\<exists>s. lock_exec codec0 0 (takes_lock 0) (lock_start None) = Some s \<and> owns (lock_pcs s 0) \<and> \<not> owns (lock_pcs s 1)"
proof -
  have u: "undisturbed codec0 0 (takes_lock 0) (lock_start None)"
    by (simp add: takes_lock_def lock_start_def healthy_def create_lock_exclusive_def)
  obtain s where s: "lock_exec codec0 0 (takes_lock 0) (lock_start None) = Some s" "owns (lock_pcs s 0)"
    by (simp add: takes_lock_def lock_start_def healthy_def create_lock_exclusive_def)
  then show ?thesis using lock_exclusive [OF u s, of 1] by auto
qed

section \<open>Races\<close>

text \<open>
  Process 1 finds the file, which process 0 deletes on its drop; process 1 cannot read it, process 2
  acquires, and process 1 takes the file it now finds for the unreadable one.
\<close>

definition recheck_race :: "lock_action list" where
  "recheck_race = takes_lock 0 @ takes_lock 1 @ [LockDrop 0, LockAdvance 0 healthy, LockAdvance 1 healthy]
    @ takes_lock 2 @ [LockAdvance 1 healthy, LockAdvance 1 healthy, LockAdvance 1 healthy]"

text \<open>
  Process 0 releases, process 1 acquires, the drop that ends the release deletes that file, and
  process 2 acquires too.
\<close>

definition release_race :: "lock_action list" where
  "release_race = takes_lock 0 @ [LockRelease 0, LockAdvance 0 healthy] @ takes_lock 1 @ [LockAdvance 0 healthy]
    @ takes_lock 2"

text \<open>
  Exclusion fails without any dead holder, expired lock, force or failing call: both races end
  with processes 1 and 2 holding the lock, whatever the serialisation and the time to live.
\<close>

lemma lock_held_twice:
  "(\<exists>s m1 m2. lock_exec codec ttl recheck_race (lock_start None) = Some s
      \<and> lock_pcs s 1 = LHolds m1 \<and> lock_pcs s 2 = LHolds m2)
    \<and> (\<exists>s m1 m2. lock_exec codec ttl release_race (lock_start None) = Some s
      \<and> lock_pcs s 1 = LHolds m1 \<and> lock_pcs s 2 = LHolds m2)"
  by (simp add: recheck_race_def release_race_def takes_lock_def lock_start_def healthy_def create_lock_exclusive_def
      remove_file_def next_attempt_def MAX_ACQUIRE_ATTEMPTS_def)

text \<open>
  Two processes that both find a stale lock: the one that deletes second deletes the new lock of
  the first.
\<close>

definition stale_race :: "lock_view \<Rightarrow> lock_action list" where
  "stale_race v = takes_lock 1 @ [LockAcquire 2 ''run'' False]
    @ map (\<lambda>w. LockAdvance w v) [1, 1, 2, 2, 2, 2, 2, 2, 2, 1, 1]"

lemma stale_lock_reclaimed_twice:
  assumes "length content \<le> MAX_LOCK_FILE_BYTES" "parse_lock codec content = Some m"
    and "reclaim_reason v ttl m = Some r" "\<not> fault v"
  shows "\<exists>s m1 m2. lock_exec codec ttl (stale_race v) (lock_start (Some content)) = Some s
    \<and> lock_pcs s 1 = LHolds m1 \<and> lock_pcs s 2 = LHolds m2"
  using assms
  by (simp add: stale_race_def takes_lock_def lock_start_def healthy_def create_lock_exclusive_def remove_file_def
      next_attempt_def MAX_ACQUIRE_ATTEMPTS_def)

section \<open>Evidence of a held lock\<close>

text \<open>
  \<open>stale_lock_evidence\<close> of \<open>cherry-pit-gateway/src/recovery.rs\<close>: what an operator records of the sentinel file of
  a store before removing it. A missing file is no evidence, any other failure is passed on.
\<close>

record file_stat =
  stat_modified :: "(io_error, nat) result"
  stat_len :: nat

record lock_evidence =
  lock_path :: string
  lock_mtime :: nat
  lock_size :: nat

definition path_join :: "string \<Rightarrow> string \<Rightarrow> string" where
  "path_join dir name = (if dir = [] \<or> last dir = CHR ''/'' then dir @ name else dir @ ''/'' @ name)"

definition stale_lock_evidence ::
  "(string \<Rightarrow> (io_error, file_stat) result) \<Rightarrow> string \<Rightarrow> (io_error, lock_evidence option) result" where
  "stale_lock_evidence metadata store_dir =
    (let path = path_join store_dir ''.lock'' in
     case metadata path of
       Ok m \<Rightarrow> and_then (stat_modified m) (\<lambda>modified. Ok (Some \<lparr>lock_path = path, lock_mtime = modified, lock_size = stat_len m\<rparr>))
     | Err NotFound \<Rightarrow> Ok None
     | Err e \<Rightarrow> Err e)"

lemma stale_lock_evidence_none:
  "stale_lock_evidence metadata dir = Ok None \<longleftrightarrow> metadata (path_join dir ''.lock'') = Err NotFound"
  by (auto simp: stale_lock_evidence_def Let_def and_then_Ok_iff split: sum.splits io_error.splits)

end
