(* ===== verification/Rust_Text.thy ===== *)
theory Rust_Text
  imports Core_Types "HOL-Library.Sublist"
begin

text \<open>
  Operations of Rust's \<open>str\<close>, on lists so that they serve both for text as bytes (\<open>string\<close>, which
  is how header values and paths are taken) and for text as code points (\<open>ustring\<close>).
\<close>

type_synonym ustring = "nat list"

definition u :: "string \<Rightarrow> ustring" where
  "u s = map of_char s"

definition is_control :: "nat \<Rightarrow> bool" where
  "is_control c \<longleftrightarrow> c < 32 \<or> 127 \<le> c \<and> c < 160"

section \<open>Splitting and joining\<close>

text \<open>\<open>split\<close> on a character: always at least one part.\<close>

fun split_on :: "'a \<Rightarrow> 'a list \<Rightarrow> 'a list list" where
  "split_on c [] = [[]]"
| "split_on c (x # xs) =
    (if x = c then [] # split_on c xs else (x # hd (split_on c xs)) # tl (split_on c xs))"

fun split_once :: "'a \<Rightarrow> 'a list \<Rightarrow> ('a list \<times> 'a list) option" where
  "split_once c [] = None"
| "split_once c (x # xs) =
    (if x = c then Some ([], xs) else map_option (\<lambda>(a, b). (x # a, b)) (split_once c xs))"

definition rsplit_once :: "'a \<Rightarrow> 'a list \<Rightarrow> ('a list \<times> 'a list) option" where
  "rsplit_once c s = map_option (\<lambda>(a, b). (rev b, rev a)) (split_once c (rev s))"

fun join :: "'a list \<Rightarrow> 'a list list \<Rightarrow> 'a list" where
  "join sep [] = []"
| "join sep [x] = x"
| "join sep (x # y # zs) = x @ sep @ join sep (y # zs)"

section \<open>Prefixes and substrings\<close>

definition strip_prefix :: "'a list \<Rightarrow> 'a list \<Rightarrow> 'a list option" where
  "strip_prefix p s = (if take (length p) s = p then Some (drop (length p) s) else None)"

definition strip_suffix :: "'a list \<Rightarrow> 'a list \<Rightarrow> 'a list option" where
  "strip_suffix p s = map_option rev (strip_prefix (rev p) (rev s))"

fun contains_str :: "'a list \<Rightarrow> 'a list \<Rightarrow> bool" where
  "contains_str p [] \<longleftrightarrow> p = []"
| "contains_str p (x # xs) \<longleftrightarrow> take (length p) (x # xs) = p \<or> contains_str p xs"

fun split_once_str :: "'a list \<Rightarrow> 'a list \<Rightarrow> ('a list \<times> 'a list) option" where
  "split_once_str p [] = (if p = [] then Some ([], []) else None)"
| "split_once_str p (x # xs) =
    (if take (length p) (x # xs) = p then Some ([], drop (length p) (x # xs))
     else map_option (\<lambda>(a, b). (x # a, b)) (split_once_str p xs))"

section \<open>Letters and numbers\<close>

definition char_to_ascii_lowercase :: "char \<Rightarrow> char" where
  "char_to_ascii_lowercase c =
    (if 65 \<le> (of_char c :: nat) \<and> (of_char c :: nat) \<le> 90 then char_of ((of_char c :: nat) + 32) else c)"

definition to_ascii_lowercase :: "string \<Rightarrow> string" where
  "to_ascii_lowercase s = map char_to_ascii_lowercase s"

text \<open>The value of a digit in a radix of at most 36, either case.\<close>

definition digit_value :: "nat \<Rightarrow> char \<Rightarrow> nat option" where
  "digit_value radix c =
    (let n = (of_char c :: nat);
         d = (if 48 \<le> n \<and> n \<le> 57 then n - 48
              else if 97 \<le> n \<and> n \<le> 122 then n - 87
              else if 65 \<le> n \<and> n \<le> 90 then n - 55 else radix)
     in if d < radix then Some d else None)"

fun digits_value :: "nat \<Rightarrow> nat \<Rightarrow> string \<Rightarrow> nat option" where
  "digits_value radix acc [] = Some acc"
| "digits_value radix acc (c # cs) =
    (case digit_value radix c of None \<Rightarrow> None | Some d \<Rightarrow> digits_value radix (acc * radix + d) cs)"

text \<open>
  \<open>from_str_radix\<close> of an unsigned type with largest value \<open>limit\<close>: an optional plus sign and at
  least one digit, else an error; the value must fit.
\<close>

definition from_str_radix :: "nat \<Rightarrow> nat \<Rightarrow> string \<Rightarrow> nat option" where
  "from_str_radix limit radix s =
    (let ds = (case s of c # cs \<Rightarrow> if c = CHR ''+'' then cs else s | [] \<Rightarrow> []) in
     if ds = [] then None
     else case digits_value radix 0 ds of
       Some n \<Rightarrow> if n \<le> limit then Some n else None
     | None \<Rightarrow> None)"

section \<open>Facts\<close>

lemma split_on_nonempty [simp]: "split_on c s \<noteq> []"
  by (cases s) simp_all

lemma split_on_parts: "\<forall>part \<in> set (split_on c s). c \<notin> set part"
proof (induction s)
  case (Cons x xs)
  then show ?case by (cases "split_on c xs") auto
qed simp

lemma join_Cons: "xs \<noteq> [] \<Longrightarrow> join sep (x # xs) = x @ sep @ join sep xs"
  by (cases xs) simp_all

lemma split_on_none: "c \<notin> set s \<Longrightarrow> split_on c s = [s]"
  by (induction s) auto

lemma split_on_append: "c \<notin> set x \<Longrightarrow> split_on c (x @ c # s) = x # split_on c s"
  by (induction x) auto

lemma split_on_append_general: "split_on c (a @ c # b) = split_on c a @ split_on c b"
proof (induction a)
  case (Cons x xs)
  then show ?case by (cases "split_on c xs") auto
qed simp

lemma split_on_join:
  "parts \<noteq> [] \<Longrightarrow> \<forall>part \<in> set parts. c \<notin> set part \<Longrightarrow> split_on c (join [c] parts) = parts"
proof (induction parts)
  case (Cons x xs)
  then show ?case by (cases xs) (simp_all add: split_on_none split_on_append)
qed simp

lemma set_join: "set (join sep parts) \<subseteq> set sep \<union> \<Union> (set ` set parts)"
  by (induction sep parts rule: join.induct) auto

lemma split_on_set: "\<Union> (set ` set (split_on c s)) \<subseteq> set s"
proof (induction s)
  case (Cons x xs)
  then show ?case by (cases "split_on c xs") auto
qed simp

lemma split_once_Some: "split_once c s = Some (a, b) \<longleftrightarrow> s = a @ c # b \<and> c \<notin> set a"
proof (induction s arbitrary: a)
  case (Cons x xs)
  show ?case
  proof (cases "x = c")
    case True
    then show ?thesis by (cases a) auto
  next
    case False
    then have "split_once c (x # xs) = Some (a, b) \<longleftrightarrow> (\<exists>a'. a = x # a' \<and> split_once c xs = Some (a', b))"
      by (auto split: prod.splits)
    also have "\<dots> \<longleftrightarrow> (\<exists>a'. a = x # a' \<and> xs = a' @ c # b \<and> c \<notin> set a')" by (simp add: Cons.IH)
    also have "\<dots> \<longleftrightarrow> x # xs = a @ c # b \<and> c \<notin> set a" using False by (cases a) auto
    finally show ?thesis .
  qed
qed simp

lemma split_once_None: "split_once c s = None \<longleftrightarrow> c \<notin> set s"
  by (induction s) simp_all

lemma rsplit_once_Some: "rsplit_once c s = Some (a, b) \<longleftrightarrow> s = a @ c # b \<and> c \<notin> set b"
proof -
  have "rsplit_once c s = Some (a, b) \<longleftrightarrow> split_once c (rev s) = Some (rev b, rev a)"
    by (auto simp: rsplit_once_def split: prod.splits)
  also have "\<dots> \<longleftrightarrow> rev s = rev b @ c # rev a \<and> c \<notin> set b" by (simp add: split_once_Some)
  also have "\<dots> \<longleftrightarrow> s = a @ c # b \<and> c \<notin> set b" by (auto simp: rev_swap)
  finally show ?thesis .
qed

lemma rsplit_once_None: "rsplit_once c s = None \<longleftrightarrow> c \<notin> set s"
  by (simp add: rsplit_once_def split_once_None)

lemma strip_prefix_Some: "strip_prefix p s = Some r \<longleftrightarrow> s = p @ r"
  unfolding strip_prefix_def by (metis append_eq_conv_conj append_take_drop_id option.distinct(1) option.inject)

lemma strip_suffix_Some: "strip_suffix p s = Some r \<longleftrightarrow> s = r @ p"
  by (auto simp: strip_suffix_def strip_prefix_Some rev_swap)

lemma contains_str_iff: "contains_str p s \<longleftrightarrow> sublist p s"
proof (induction s)
  case (Cons x xs)
  have "take (length p) (x # xs) = p \<longleftrightarrow> prefix p (x # xs)" by (metis append_eq_conv_conj prefix_def take_is_prefix)
  then show ?case using Cons by (simp add: sublist_Cons_right)
qed simp

lemma to_ascii_lowercase_idem [simp]: "to_ascii_lowercase (to_ascii_lowercase s) = to_ascii_lowercase s"
proof -
  have "char_to_ascii_lowercase (char_to_ascii_lowercase c) = char_to_ascii_lowercase c" for c
    by (simp add: char_to_ascii_lowercase_def)
  then show ?thesis by (simp add: to_ascii_lowercase_def)
qed

end
