(* ===== verification/Signature.thy ===== *)
theory Signature
  imports Rust_Text "HOL-Library.List_Lexorder"
begin

text \<open>
  Content signatures (\<open>cherry-pit-storage/src/signature.rs\<close>): canonical JSON text and its hash.
  A Rust string is the list of its code points, in whose lexicographic order strings sort. The
  JSON value type, the text of its numbers and SHA-256 come from other packages: values are the
  datatype \<open>json\<close>, with objects as association lists in any order, and the other two are
  parameters.
\<close>

section \<open>Text\<close>

definition hex_digit :: "nat \<Rightarrow> nat" where
  "hex_digit d = (if d < 10 then 48 + d else 87 + d)"

text \<open>\<open>{:04x}\<close>, for the code points below 65536.\<close>

definition hex4 :: "nat \<Rightarrow> ustring" where
  "hex4 c = [hex_digit (c div 4096), hex_digit (c div 256 mod 16), hex_digit (c div 16 mod 16), hex_digit (c mod 16)]"

definition escape_char :: "nat \<Rightarrow> ustring" where
  "escape_char c =
    (if c = 34 then [92, 34]
     else if c = 92 then [92, 92]
     else if c = 10 then [92, 110]
     else if c = 13 then [92, 114]
     else if c = 9 then [92, 116]
     else if is_control c then [92, 117] @ hex4 c
     else [c])"

definition escape_json_string :: "ustring \<Rightarrow> ustring" where
  "escape_json_string s = concat (map escape_char s)"

section \<open>Canonical JSON\<close>

datatype 'n json =
    JNull
  | JBool bool
  | JNumber 'n
  | JString ustring
  | JArray "'n json list"
  | JObject "(ustring \<times> 'n json) list"

text \<open>The entries of an object, from its keys and the texts of its values.\<close>

definition object_text :: "(ustring \<times> ustring) list \<Rightarrow> ustring" where
  "object_text entries =
    u ''{'' @ join (u '','') (map (\<lambda>(k, text). [34] @ escape_json_string k @ [34, 58] @ text) (sort_key fst entries)) @ u ''}''"

primrec canonical_json :: "('n \<Rightarrow> ustring) \<Rightarrow> 'n json \<Rightarrow> ustring" where
  "canonical_json num JNull = u ''null''"
| "canonical_json num (JBool b) = (if b then u ''true'' else u ''false'')"
| "canonical_json num (JNumber n) = num n"
| "canonical_json num (JString s) = [34] @ escape_json_string s @ [34]"
| "canonical_json num (JArray vs) = u ''['' @ join (u '','') (map (canonical_json num) vs) @ u '']''"
| "canonical_json num (JObject kvs) = object_text (map (map_prod id (canonical_json num)) kvs)"

section \<open>Signatures\<close>

text \<open>UTF-8.\<close>

definition utf8_char :: "nat \<Rightarrow> nat list" where
  "utf8_char c =
    (if c < 128 then [c]
     else if c < 2048 then [192 + c div 64, 128 + c mod 64]
     else if c < 65536 then [224 + c div 4096, 128 + c div 64 mod 64, 128 + c mod 64]
     else [240 + c div 262144, 128 + c div 4096 mod 64, 128 + c div 64 mod 64, 128 + c mod 64])"

definition as_bytes :: "ustring \<Rightarrow> nat list" where
  "as_bytes s = concat (map utf8_char s)"

definition hex_bytes :: "nat list \<Rightarrow> ustring" where
  "hex_bytes bytes = concat (map (\<lambda>b. [hex_digit (b div 16), hex_digit (b mod 16)]) bytes)"

fun snapshot_text :: "('n \<Rightarrow> ustring) \<Rightarrow> 'n json option \<Rightarrow> ustring" where
  "snapshot_text num (Some (JObject kvs)) =
    object_text (map (map_prod id (canonical_json num)) (filter (\<lambda>(k, v). k \<noteq> u ''run_timestamp'') kvs))"
| "snapshot_text num (Some v) = canonical_json num v"
| "snapshot_text num None = u ''{}''"

definition build_snapshot_signature ::
  "('n \<Rightarrow> ustring) \<Rightarrow> (nat list \<Rightarrow> nat list) \<Rightarrow> 'n json option \<Rightarrow> ustring" where
  "build_snapshot_signature num sha256 snapshot = hex_bytes (sha256 (as_bytes (snapshot_text num snapshot)))"

section \<open>Escaping is a prefix code\<close>

lemma hex_digit_inj: "a < 16 \<Longrightarrow> b < 16 \<Longrightarrow> hex_digit a = hex_digit b \<longleftrightarrow> a = b"
  by (auto simp: hex_digit_def)

lemma hex4_inj:
  assumes "c < 256" "d < 256" "hex4 c = hex4 d"
  shows "c = d"
proof -
  have "c div 16 mod 16 = d div 16 mod 16" "c mod 16 = d mod 16"
    using assms(3) by (simp_all add: hex4_def hex_digit_inj)
  moreover have "c div 16 < 16" "d div 16 < 16" using assms(1,2) by auto
  ultimately show ?thesis by (metis div_mult_mod_eq mod_less)
qed

text \<open>What follows the backslash: one of five letters, or \<open>u\<close> and four digits.\<close>

definition escape_code :: "nat \<Rightarrow> ustring" where
  "escape_code c = (if c = 34 then [34] else if c = 92 then [92] else if c = 10 then [110]
    else if c = 13 then [114] else if c = 9 then [116] else 117 # hex4 c)"

definition escaped :: "nat \<Rightarrow> bool" where
  "escaped c \<longleftrightarrow> c = 34 \<or> c = 92 \<or> is_control c"

lemma escape_char_alt: "escape_char c = (if escaped c then 92 # escape_code c else [c])"
  by (auto simp: escape_char_def escape_code_def escaped_def is_control_def)

lemma escape_code_prefix:
  assumes "escaped c" "escaped d" "escape_code c @ x = escape_code d @ y"
  shows "c = d \<and> x = y"
proof -
  have b: "c < 256" "d < 256" using assms(1,2) by (auto simp: escaped_def is_control_def)
  have len: "length (hex4 a) = 4" for a by (simp add: hex4_def)
  show ?thesis
  proof (cases "hd (escape_code c) = 117")
    case True
    moreover have "hd (escape_code d) = 117"
      using assms(3) True by (cases "escape_code c"; cases "escape_code d") (auto simp: escape_code_def split: if_splits)
    ultimately have "escape_code c = 117 # hex4 c" "escape_code d = 117 # hex4 d"
      by (auto simp: escape_code_def split: if_splits)
    then show ?thesis using assms(3) hex4_inj [OF b] len by simp
  next
    case False
    then show ?thesis
      using assms(3) by (auto simp: escape_code_def split: if_splits)
  qed
qed

lemma escape_char_prefix:
  assumes "escape_char c @ x = escape_char d @ y"
  shows "c = d \<and> x = y"
proof (cases "escaped c")
  case c: True
  show ?thesis
  proof (cases "escaped d")
    case True
    then have "escape_code c @ x = escape_code d @ y" using assms c by (simp add: escape_char_alt)
    then show ?thesis using escape_code_prefix c True by blast
  next
    case False
    then have "d = 92" using assms c by (simp add: escape_char_alt)
    then show ?thesis using False by (simp add: escaped_def)
  qed
next
  case c: False
  show ?thesis
  proof (cases "escaped d")
    case True
    then have "c = 92" using assms c by (simp add: escape_char_alt)
    then show ?thesis using c by (simp add: escaped_def)
  next
    case False
    then show ?thesis using assms c by (simp add: escape_char_alt)
  qed
qed

lemma escape_char_hd: "escape_char c \<noteq> [] \<and> hd (escape_char c) \<noteq> 34"
  by (auto simp: escape_char_alt escaped_def)

lemma quoted_prefix:
  "escape_json_string s @ 34 # x = escape_json_string t @ 34 # y \<Longrightarrow> s = t \<and> x = y"
proof (induction s arbitrary: t)
  case Nil
  then show ?case
  proof (cases t)
    case (Cons d ds)
    then have "hd (escape_char d) = 34"
      using Nil escape_char_hd [of d] by (cases "escape_char d") (auto simp: escape_json_string_def)
    then show ?thesis using escape_char_hd by blast
  qed (simp add: escape_json_string_def)
next
  case (Cons c cs)
  show ?case
  proof (cases t)
    case Nil
    then have "hd (escape_char c) = 34"
      using Cons.prems escape_char_hd [of c] by (cases "escape_char c") (auto simp: escape_json_string_def)
    then show ?thesis using escape_char_hd by blast
  next
    case (Cons d ds)
    have "escape_char c @ (escape_json_string cs @ 34 # x) = escape_char d @ (escape_json_string ds @ 34 # y)"
      using Cons.prems Cons by (simp add: escape_json_string_def)
    from escape_char_prefix [OF this] show ?thesis using Cons.IH [of ds] Cons by simp
  qed
qed

section \<open>Canonical text determines the value up to the order of keys\<close>

text \<open>The reference: sort the entries of every object, then print in the order given.\<close>

primrec normal :: "'n json \<Rightarrow> 'n json" where
  "normal JNull = JNull"
| "normal (JBool b) = JBool b"
| "normal (JNumber n) = JNumber n"
| "normal (JString s) = JString s"
| "normal (JArray vs) = JArray (map normal vs)"
| "normal (JObject kvs) = JObject (sort_key fst (map (map_prod id normal) kvs))"

fun more_items :: "nat \<Rightarrow> ustring list \<Rightarrow> ustring" where
  "more_items close [] = [close]"
| "more_items close (x # xs) = 44 # x @ more_items close xs"

fun list_items :: "nat \<Rightarrow> ustring list \<Rightarrow> ustring" where
  "list_items close [] = [close]"
| "list_items close (x # xs) = x @ more_items close xs"

definition entry_text :: "ustring \<times> ustring \<Rightarrow> ustring" where
  "entry_text kv = 34 # escape_json_string (fst kv) @ 34 # 58 # snd kv"

primrec plain_json :: "('n \<Rightarrow> ustring) \<Rightarrow> 'n json \<Rightarrow> ustring" where
  "plain_json num JNull = u ''null''"
| "plain_json num (JBool b) = (if b then u ''true'' else u ''false'')"
| "plain_json num (JNumber n) = num n"
| "plain_json num (JString s) = 34 # escape_json_string s @ [34]"
| "plain_json num (JArray vs) = 91 # list_items 93 (map (plain_json num) vs)"
| "plain_json num (JObject kvs) = 123 # list_items 125 (map entry_text (map (map_prod id (plain_json num)) kvs))"

lemma join_items: "join [44] xs @ [close] = list_items close xs"
proof -
  have "join [44] (x # xs) @ [close] = x @ more_items close xs" for x
    by (induction xs arbitrary: x) simp_all
  then show ?thesis by (cases xs) simp_all
qed

lemma object_text_alt: "object_text es = 123 # list_items 125 (map entry_text (sort_key fst es))"
proof -
  have "(\<lambda>(k, text). [34] @ escape_json_string k @ [34, 58] @ text) = entry_text"
    by (auto simp: entry_text_def)
  then show ?thesis
    unfolding object_text_def by (simp add: u_def join_items)
qed

lemma insort_key_map_prod:
  "insort_key fst (map_prod id f x) (map (map_prod id f) xs) = map (map_prod id f) (insort_key fst x xs)"
  by (induction xs) auto

lemma sort_key_map_prod: "sort_key fst (map (map_prod id f) kvs) = map (map_prod id f) (sort_key fst kvs)"
  by (induction kvs) (simp_all add: insort_key_map_prod [unfolded id_def])

lemma canonical_json_normal: "canonical_json num v = plain_json num (normal v)"
proof (induction v)
  case (JArray vs)
  then have "map (canonical_json num) vs = map (plain_json num) (map normal vs)" by simp
  then show ?case by (simp add: u_def join_items del: map_map)
next
  case (JObject kvs)
  then have "map (map_prod id (canonical_json num)) kvs = map (map_prod id (plain_json num)) (map (map_prod id normal) kvs)"
    by (auto simp: snds.simps)
  then show ?case
    by (simp add: object_text_alt sort_key_map_prod del: map_map)
qed simp_all

definition number_chars :: "nat set" where
  "number_chars = {43, 45, 46, 69, 101} \<union> {48..57}"

text \<open>The text of numbers: distinct numbers have distinct texts, made of the characters of JSON numbers.\<close>

definition number_text :: "('n \<Rightarrow> ustring) \<Rightarrow> bool" where
  "number_text num \<longleftrightarrow> inj num \<and> (\<forall>n. num n \<noteq> [] \<and> set (num n) \<subseteq> number_chars)"

definition delimited :: "ustring \<Rightarrow> bool" where
  "delimited s \<longleftrightarrow> s = [] \<or> hd s \<in> {44, 93, 125}"

text \<open>A printer whose texts can be told apart where they are followed by a delimiter.\<close>

definition readable :: "('a \<Rightarrow> ustring) \<Rightarrow> 'a \<Rightarrow> bool" where
  "readable pr x \<longleftrightarrow> (\<forall>y s t. pr x @ s = pr y @ t \<longrightarrow> delimited s \<longrightarrow> delimited t \<longrightarrow> x = y \<and> s = t)"

lemma more_items_delimited: "close \<in> {93, 125} \<Longrightarrow> delimited (more_items close xs @ s)"
  by (cases xs) (auto simp: delimited_def)

lemma more_items_readable:
  assumes "close \<in> {93, 125}"
  shows "\<forall>x \<in> set xs. readable pr x \<Longrightarrow> more_items close (map pr xs) @ s = more_items close (map pr ys) @ t
    \<Longrightarrow> xs = ys \<and> s = t"
proof (induction xs arbitrary: ys)
  case Nil
  then show ?case using assms by (cases ys) auto
next
  case (Cons x xs)
  then obtain y ys' where ys: "ys = y # ys'" using assms by (cases ys) auto
  have "pr x @ more_items close (map pr xs) @ s = pr y @ more_items close (map pr ys') @ t"
    using Cons.prems(2) ys by simp
  then have "x = y \<and> more_items close (map pr xs) @ s = more_items close (map pr ys') @ t"
    using Cons.prems(1) more_items_delimited [OF assms] unfolding readable_def by simp
  then show ?case using Cons ys by simp
qed

lemma list_items_readable:
  assumes close: "close \<in> {93, 125}" and starts: "\<And>x. pr x \<noteq> [] \<and> \<not> delimited (pr x)"
    and xs: "\<forall>x \<in> set xs. readable pr x" and eq: "list_items close (map pr xs) @ s = list_items close (map pr ys) @ t"
  shows "xs = ys \<and> s = t"
proof -
  have no: "pr x @ z \<noteq> close # z'" for x z z'
    using starts [of x] close by (cases "pr x") (auto simp: delimited_def)
  show ?thesis
  proof (cases xs)
    case Nil
    then show ?thesis using eq no by (cases ys) (auto simp: eq_commute [of "_ # _" "_ @ _"])
  next
    case xs': (Cons x xs')
    then obtain y ys' where ys: "ys = y # ys'" using eq no by (cases ys) auto
    have "pr x @ more_items close (map pr xs') @ s = pr y @ more_items close (map pr ys') @ t"
      using eq xs' ys by simp
    then have "x = y \<and> more_items close (map pr xs') @ s = more_items close (map pr ys') @ t"
      using xs xs' more_items_delimited [OF close] unfolding readable_def by simp
    then show ?thesis using more_items_readable [OF close, of xs' pr s ys' t] xs xs' ys by simp
  qed
qed

text \<open>The first character tells the kinds of values apart.\<close>

fun starts_like :: "'n json \<Rightarrow> nat \<Rightarrow> bool" where
  "starts_like JNull c \<longleftrightarrow> c = 110"
| "starts_like (JBool b) c \<longleftrightarrow> c = (if b then 116 else 102)"
| "starts_like (JNumber _) c \<longleftrightarrow> c \<in> number_chars"
| "starts_like (JString _) c \<longleftrightarrow> c = 34"
| "starts_like (JArray _) c \<longleftrightarrow> c = 91"
| "starts_like (JObject _) c \<longleftrightarrow> c = 123"

lemma plain_json_starts:
  assumes "number_text num"
  obtains c cs where "plain_json num v = c # cs" "starts_like v c"
proof (cases v)
  case (JNumber n)
  then have "num n \<noteq> []" "set (num n) \<subseteq> number_chars" using assms by (auto simp: number_text_def)
  then show thesis using that JNumber by (cases "num n") auto
next
  case (JBool b)
  then show thesis using that by (cases b) (auto simp: u_def)
qed (auto simp: u_def intro: that)

lemma starts_undelimited:
  assumes "number_text num"
  shows "plain_json num v \<noteq> [] \<and> \<not> delimited (plain_json num v)"
proof -
  obtain c cs where "plain_json num v = c # cs" "starts_like v c" using plain_json_starts [OF assms] .
  then show ?thesis by (cases v) (auto simp: delimited_def number_chars_def split: if_splits)
qed

lemma same_start:
  assumes "number_text num" "plain_json num v @ s = plain_json num w @ t"
  obtains c where "starts_like v c" "starts_like w c"
proof -
  obtain c cs d ds where "plain_json num v = c # cs" "starts_like v c" "plain_json num w = d # ds" "starts_like w d"
    using plain_json_starts [OF assms(1)] by metis
  then show thesis using that assms(2) by simp
qed

lemma number_prefix:
  assumes "number_text num" "num n @ s = num m @ t" "delimited s" "delimited t"
  shows "n = m \<and> s = t"
proof -
  have "takeWhile (\<lambda>c. c \<in> number_chars) (num k @ z) = num k" if "delimited z" for k z
  proof -
    have "set (num k) \<subseteq> number_chars" using assms(1) by (simp add: number_text_def)
    moreover have "takeWhile (\<lambda>c. c \<in> number_chars) z = []"
      using that by (cases z) (auto simp: delimited_def number_chars_def)
    ultimately show ?thesis by (subst takeWhile_append2) auto
  qed
  then have "num n = num m" using assms(2-4) by metis
  then show ?thesis using assms(1,2) by (auto simp: number_text_def inj_def)
qed

lemma entry_readable:
  assumes "readable (plain_json num) v"
  shows "readable (\<lambda>kv. entry_text (map_prod id (plain_json num) kv)) (k, v)"
  unfolding readable_def
proof (intro allI impI)
  fix y s t
  assume eq: "entry_text (map_prod id (plain_json num) (k, v)) @ s = entry_text (map_prod id (plain_json num) y) @ t"
    and d: "delimited s" "delimited t"
  obtain k' w where y: "y = (k', w)" by fastforce
  have "escape_json_string k @ 34 # (58 # plain_json num v @ s) = escape_json_string k' @ 34 # (58 # plain_json num w @ t)"
    using eq y by (simp add: entry_text_def)
  from quoted_prefix [OF this] have "k = k'" "plain_json num v @ s = plain_json num w @ t" by simp_all
  then show "(k, v) = y \<and> s = t" using assms d y unfolding readable_def by blast
qed

lemma readable_by_start:
  assumes num: "number_text num"
    and same: "\<And>w s t c. starts_like v c \<Longrightarrow> starts_like w c \<Longrightarrow> plain_json num v @ s = plain_json num w @ t
      \<Longrightarrow> delimited s \<Longrightarrow> delimited t \<Longrightarrow> v = w \<and> s = t"
  shows "readable (plain_json num) v"
  unfolding readable_def
proof (intro allI impI)
  fix w s t
  assume eq: "plain_json num v @ s = plain_json num w @ t" and d: "delimited s" "delimited t"
  obtain c where "starts_like v c" "starts_like w c" using same_start [OF num eq] .
  then show "v = w \<and> s = t" using same eq d by blast
qed

lemma plain_json_readable:
  assumes num: "number_text num"
  shows "readable (plain_json num) v"
proof (induction v)
  case JNull
  show ?case
  proof (rule readable_by_start [OF num], goal_cases)
    case (1 w s t c)
    then show ?case by (cases w) (auto simp: number_chars_def split: if_splits)
  qed
next
  case (JBool b)
  show ?case
  proof (rule readable_by_start [OF num], goal_cases)
    case (1 w s t c)
    then have "w = JBool b" by (cases w) (auto simp: number_chars_def split: if_splits)
    then show ?case using 1(3) by simp
  qed
next
  case (JNumber n)
  show ?case
  proof (rule readable_by_start [OF num], goal_cases)
    case (1 w s t c)
    then obtain m where w: "w = JNumber m" by (cases w) (auto simp: number_chars_def split: if_splits)
    show ?case using 1(3) number_prefix [OF num _ 1(4,5), of n m] w by simp
  qed
next
  case (JString x)
  show ?case
  proof (rule readable_by_start [OF num], goal_cases)
    case (1 w s t c)
    then obtain y where "w = JString y" by (cases w) (auto simp: number_chars_def split: if_splits)
    then show ?case using 1(3) quoted_prefix [of x s y t] by simp
  qed
next
  case (JArray vs)
  show ?case
  proof (rule readable_by_start [OF num], goal_cases)
    case (1 w s t c)
    then obtain ws where "w = JArray ws" by (cases w) (auto simp: number_chars_def split: if_splits)
    then show ?case
      using 1(3) JArray list_items_readable [of 93 "plain_json num" vs s ws t] starts_undelimited [OF num] by simp
  qed
next
  case (JObject kvs)
  let ?pr = "\<lambda>kv. entry_text (map_prod id (plain_json num) kv)"
  have all: "\<forall>kv \<in> set kvs. readable ?pr kv"
  proof
    fix kv assume "kv \<in> set kvs"
    then have "readable (plain_json num) (snd kv)" using JObject by (cases kv) (auto simp: snds.simps)
    then show "readable ?pr kv" using entry_readable [of num "snd kv" "fst kv"] by simp
  qed
  have start: "?pr kv \<noteq> [] \<and> \<not> delimited (?pr kv)" for kv by (simp add: entry_text_def delimited_def)
  show ?case
  proof (rule readable_by_start [OF num], goal_cases)
    case (1 w s t c)
    then obtain ls where "w = JObject ls" by (cases w) (auto simp: number_chars_def split: if_splits)
    then show ?case
      using 1(3) all start list_items_readable [of 125 ?pr kvs s ls t] by (simp add: comp_def)
  qed
qed

text \<open>
  C11. The canonical text is canonical: two values have the same text exactly when they are equal
  up to the order of the entries of their objects, at every depth.
\<close>

theorem canonical_json_decides:
  assumes "number_text num"
  shows "canonical_json num v = canonical_json num w \<longleftrightarrow> normal v = normal w"
proof
  assume "canonical_json num v = canonical_json num w"
  then have "plain_json num (normal v) @ [] = plain_json num (normal w) @ []" by (simp add: canonical_json_normal)
  then show "normal v = normal w"
    using plain_json_readable [OF assms, of "normal v"] unfolding readable_def delimited_def by blast
qed (simp add: canonical_json_normal)

text \<open>Numbers in unary.\<close>

definition unary_text :: "nat \<Rightarrow> ustring" where
  "unary_text n = replicate (Suc n) 49"

theorem canonical_json_decides_witness:
  "canonical_json unary_text (JObject [(u ''b'', JNull), (u ''a'', JNumber 1)])
      = canonical_json unary_text (JObject [(u ''a'', JNumber 1), (u ''b'', JNull)])
    \<and> canonical_json unary_text (JArray [JNumber 1]) \<noteq> canonical_json unary_text (JArray [JNumber 2])"
proof -
  have "inj unary_text" by (rule injI) (metis Suc_inject length_replicate unary_text_def)
  then have num: "number_text unary_text" by (auto simp: number_text_def unary_text_def number_chars_def)
  show ?thesis
    using canonical_json_decides [OF num, of "JObject [(u ''b'', JNull), (u ''a'', JNumber 1)]"
        "JObject [(u ''a'', JNumber 1), (u ''b'', JNull)]"]
      canonical_json_decides [OF num, of "JArray [JNumber 1]" "JArray [JNumber 2]"]
    by (simp add: u_def)
qed

lemma signature_length:
  assumes "\<And>bytes. length (sha256 bytes) = 32"
  shows "length (build_snapshot_signature num sha256 snapshot) = 64"
proof -
  have "length (hex_bytes bytes) = 2 * length bytes" for bytes by (induction bytes) (simp_all add: hex_bytes_def)
  then show ?thesis using assms by (simp add: build_snapshot_signature_def)
qed

lemma signature_ignores_run_timestamp:
  "build_snapshot_signature num sha256 (Some (JObject kvs))
    = build_snapshot_signature num sha256 (Some (JObject (filter (\<lambda>(k, v). k \<noteq> u ''run_timestamp'') kvs)))"
  by (simp add: build_snapshot_signature_def)

end
