(* ===== verification/Web_Guards.thy ===== *)
theory Web_Guards
  imports Rust_Text
begin

text \<open>
  The guards at the HTTP edge: path validation (\<open>cherry-pit-web/src/middleware/path.rs\<close>) and the
  origin check of WebSocket upgrades (\<open>middleware/ws_auth.rs\<close>). Percent decoding comes from
  another package and is a parameter. Decoded paths and header values are byte strings; the
  characters the code looks for are ASCII. A header value converts to text when its bytes are
  visible ASCII or tabs.
\<close>

section \<open>Path segments\<close>

record path_segment_error =
  pse_field :: ustring
  pse_reason :: ustring

definition sanitize_path_segment :: "ustring \<Rightarrow> ustring \<Rightarrow> (path_segment_error, ustring) result" where
  "sanitize_path_segment value field_name =
    (if value = [] then Err \<lparr>pse_field = field_name, pse_reason = field_name @ u '' is empty''\<rparr>
     else if contains_str (u ''..'') value \<or> of_char (CHR ''/'') \<in> set value \<or> 92 \<in> set value
       \<or> of_char (CHR ''?'') \<in> set value \<or> of_char (CHR ''#'') \<in> set value
     then Err \<lparr>pse_field = field_name,
       pse_reason = field_name @ u '' contains invalid path characters: '' @ take 100 value\<rparr>
     else if \<exists>c \<in> set value. is_control c
     then Err \<lparr>pse_field = field_name, pse_reason = field_name @ u '' contains control characters''\<rparr>
     else Ok value)"

section \<open>Request paths\<close>

record normalized_path =
  np_key :: string
  np_trailing_slash :: bool

definition backslash :: char where
  "backslash = CHR 0x5C"

text \<open>The loop over the components: None at the first that contains two dots.\<close>

fun path_segments :: "string list \<Rightarrow> string list option" where
  "path_segments [] = Some []"
| "path_segments (seg # segs) =
    (if seg = [] \<or> seg = ''.'' then path_segments segs
     else if contains_str ''..'' seg then None
     else map_option (Cons seg) (path_segments segs))"

definition normalize_request_path :: "(string \<Rightarrow> string option) \<Rightarrow> string \<Rightarrow> normalized_path option" where
  "normalize_request_path percent_decode raw =
    (case percent_decode raw of
      None \<Rightarrow> None
    | Some decoded \<Rightarrow>
        if CHR 0x00 \<in> set decoded \<or> backslash \<in> set decoded then None
        else let has_trailing_slash = (decoded \<noteq> [] \<and> last decoded = CHR ''/'' \<and> length decoded > 1) in
          case path_segments (split_on (CHR ''/'') decoded) of
            None \<Rightarrow> None
          | Some segments \<Rightarrow>
              let joined = join ''/'' segments in
              if joined = [] then Some \<lparr>np_key = ''index.html'', np_trailing_slash = True\<rparr>
              else Some \<lparr>np_key = joined, np_trailing_slash = has_trailing_slash\<rparr>)"

section \<open>Headers\<close>

text \<open>A header map in order of insertion; names are lower case.\<close>

type_synonym header_map = "(string \<times> string) list"

definition header_get :: "header_map \<Rightarrow> string \<Rightarrow> string option" where
  "header_get headers name = map_of headers name"

definition header_get_all :: "header_map \<Rightarrow> string \<Rightarrow> string list" where
  "header_get_all headers name = map snd (filter (\<lambda>(n, v). n = name) headers)"

text \<open>\<open>HeaderMap::insert\<close> replaces every value of the name.\<close>

definition header_insert :: "string \<Rightarrow> string \<Rightarrow> header_map \<Rightarrow> header_map" where
  "header_insert name val headers = filter (\<lambda>(n, v). n \<noteq> name) headers @ [(name, val)]"

definition header_text :: "string \<Rightarrow> string option" where
  "header_text v =
    (if \<forall>c \<in> set v. (32 \<le> (of_char c :: nat) \<and> (of_char c :: nat) < 127) \<or> (of_char c :: nat) = 9
     then Some v else None)"

section \<open>WebSocket origins\<close>

datatype websocket_origin_policy = Strict | AllowAbsent

record ws_policy =
  ws_max_connections :: nat
  ws_origin_policy :: websocket_origin_policy

definition WsPolicy_new :: "nat \<Rightarrow> ws_policy" where
  "WsPolicy_new max_connections = \<lparr>ws_max_connections = max_connections, ws_origin_policy = Strict\<rparr>"

definition WsPolicy_permissive_for_tests :: ws_policy where
  "WsPolicy_permissive_for_tests = \<lparr>ws_max_connections = 1024, ws_origin_policy = AllowAbsent\<rparr>"

record authority =
  auth_host :: string
  auth_port :: "nat option"

text \<open>Host and port text of an authority, before the port is read.\<close>

definition authority_split :: "string \<Rightarrow> (string \<times> string option) option" where
  "authority_split raw =
    (if raw = [] \<or> CHR ''@'' \<in> set raw then None
     else case strip_prefix ''['' raw of
       Some rest \<Rightarrow>
         (case split_once (CHR '']'') rest of
           None \<Rightarrow> None
         | Some (inner, after) \<Rightarrow>
             if inner = [] \<or> CHR ''['' \<in> set inner then None
             else if after = [] then Some (inner, None)
             else map_option (\<lambda>port. (inner, Some port)) (strip_prefix '':'' after))
     | None \<Rightarrow>
         if CHR ''['' \<in> set raw \<or> CHR '']'' \<in> set raw then None
         else let (host, port) = (case rsplit_once (CHR '':'') raw of
             Some (host, port) \<Rightarrow> (host, Some port)
           | None \<Rightarrow> (raw, None)) in
           if host = [] \<or> CHR '':'' \<in> set host then None else Some (host, port))"

definition Authority_parse :: "string \<Rightarrow> nat \<Rightarrow> authority option" where
  "Authority_parse raw default_port =
    (case authority_split raw of
      None \<Rightarrow> None
    | Some (host, None) \<Rightarrow> Some \<lparr>auth_host = to_ascii_lowercase host, auth_port = None\<rparr>
    | Some (host, Some port) \<Rightarrow>
        (case from_str_radix 65535 10 port of
          None \<Rightarrow> None
        | Some parsed \<Rightarrow> Some \<lparr>auth_host = to_ascii_lowercase host,
            auth_port = (if parsed \<noteq> default_port then Some parsed else None)\<rparr>))"

definition scheme_port :: "string \<Rightarrow> nat option" where
  "scheme_port scheme =
    (if to_ascii_lowercase scheme = ''https'' then Some 443
     else if to_ascii_lowercase scheme = ''http'' then Some 80 else None)"

definition validate_ws_origin :: "header_map \<Rightarrow> websocket_origin_policy \<Rightarrow> bool" where
  "validate_ws_origin headers policy =
    (case header_get headers ''origin'' of
      None \<Rightarrow> policy = AllowAbsent
    | Some origin \<Rightarrow>
        (case header_text origin of
          None \<Rightarrow> False
        | Some origin_str \<Rightarrow>
            (case split_once_str ''://'' origin_str of
              None \<Rightarrow> False
            | Some (scheme, after_scheme) \<Rightarrow>
                (case scheme_port scheme of
                  None \<Rightarrow> False
                | Some default_port \<Rightarrow>
                    let origin_authority = (case split_once (CHR ''/'') after_scheme of
                        Some (head, _) \<Rightarrow> head | None \<Rightarrow> after_scheme) in
                    (case header_get headers ''host'' of
                      None \<Rightarrow> False
                    | Some host_hdr \<Rightarrow>
                        (case header_text host_hdr of
                          None \<Rightarrow> False
                        | Some host_str \<Rightarrow>
                            (case (Authority_parse origin_authority default_port, Authority_parse host_str default_port) of
                              (Some origin, Some host) \<Rightarrow> origin = host
                            | _ \<Rightarrow> False)))))))"

section \<open>Normalised paths are safe\<close>

lemma path_segments_safe:
  "path_segments segs = Some out \<Longrightarrow>
    set out \<subseteq> set segs \<and> (\<forall>seg \<in> set out. seg \<noteq> [] \<and> seg \<noteq> ''.'' \<and> \<not> contains_str ''..'' seg)"
  by (induction segs arbitrary: out) (auto split: if_splits)

lemma path_segments_fixed:
  "\<forall>seg \<in> set segs. seg \<noteq> [] \<and> seg \<noteq> ''.'' \<and> \<not> contains_str ''..'' seg \<Longrightarrow> path_segments segs = Some segs"
  by (induction segs) auto

lemma normalize_request_path_Some:
  assumes "normalize_request_path percent_decode raw = Some np"
  obtains decoded segs where "percent_decode raw = Some decoded" "CHR 0x00 \<notin> set decoded" "backslash \<notin> set decoded"
    "path_segments (split_on (CHR ''/'') decoded) = Some segs"
    "np_key np = (if join ''/'' segs = [] then ''index.html'' else join ''/'' segs)"
proof -
  obtain decoded where d: "percent_decode raw = Some decoded"
    using assms by (cases "percent_decode raw") (simp_all add: normalize_request_path_def)
  have clean: "\<not> (CHR 0x00 \<in> set decoded \<or> backslash \<in> set decoded)"
    using assms d by (simp add: normalize_request_path_def split: if_split_asm)
  obtain segs where segs: "path_segments (split_on (CHR ''/'') decoded) = Some segs"
    using assms d clean by (cases "path_segments (split_on (CHR ''/'') decoded)")
      (simp_all add: normalize_request_path_def)
  have "np_key np = (if join ''/'' segs = [] then ''index.html'' else join ''/'' segs)"
    using assms d clean segs by (cases "join ''/'' segs = []") (auto simp: normalize_request_path_def Let_def)
  then show ?thesis using that d clean segs by blast
qed

lemma normalized_key_components:
  assumes "normalize_request_path percent_decode raw = Some np"
  shows "np_key np \<noteq> []"
    "\<forall>seg \<in> set (split_on (CHR ''/'') (np_key np)). seg \<noteq> [] \<and> seg \<noteq> ''.'' \<and> \<not> contains_str ''..'' seg"
    "CHR 0x00 \<notin> set (np_key np)" "backslash \<notin> set (np_key np)"
    "join ''/'' (split_on (CHR ''/'') (np_key np)) = np_key np"
proof -
  obtain decoded segs where d: "percent_decode raw = Some decoded" "CHR 0x00 \<notin> set decoded" "backslash \<notin> set decoded"
      "path_segments (split_on (CHR ''/'') decoded) = Some segs"
    and np: "np_key np = (if join ''/'' segs = [] then ''index.html'' else join ''/'' segs)"
    using assms by (rule normalize_request_path_Some)
  have sub: "set segs \<subseteq> set (split_on (CHR ''/'') decoded)"
    and safe: "\<forall>seg \<in> set segs. seg \<noteq> [] \<and> seg \<noteq> ''.'' \<and> \<not> contains_str ''..'' seg"
    using path_segments_safe [OF d(4)] by simp_all
  have parts: "\<forall>seg \<in> set segs. CHR ''/'' \<notin> set seg" using sub split_on_parts [of "CHR ''/''" decoded] by (simp add: subset_iff)
  have key: "\<exists>ks. ks \<noteq> [] \<and> np_key np = join ''/'' ks \<and> split_on (CHR ''/'') (np_key np) = ks
      \<and> (\<forall>seg \<in> set ks. seg \<noteq> [] \<and> seg \<noteq> ''.'' \<and> \<not> contains_str ''..'' seg)
      \<and> CHR 0x00 \<notin> set (np_key np) \<and> backslash \<notin> set (np_key np)"
  proof (cases "segs = []")
    case True
    then show ?thesis
      using np by (intro exI [of _ "[''index.html'']"]) (simp add: backslash_def)
  next
    case False
    then obtain seg segs' where s: "segs = seg # segs'" by (cases segs) auto
    then have "join ''/'' segs \<noteq> []" using safe by (cases segs') auto
    then have k: "np_key np = join ''/'' segs" using np by simp
    have segs_chars: "(\<Union>seg \<in> set segs. set seg) \<subseteq> set decoded"
      using UN_mono [OF sub subset_refl] split_on_set [of "CHR ''/''" decoded] by (rule subset_trans)
    have "set (np_key np) \<subseteq> insert (CHR ''/'') (set decoded)"
      unfolding k using set_join [of "''/''" segs] segs_chars by simp blast
    then have "CHR 0x00 \<notin> set (np_key np)" "backslash \<notin> set (np_key np)"
      using d(2,3) by (auto simp: backslash_def)
    then show ?thesis using False k safe split_on_join [OF False parts] by auto
  qed
  then obtain ks where ks: "ks \<noteq> []" "np_key np = join ''/'' ks" "split_on (CHR ''/'') (np_key np) = ks"
    "\<forall>seg \<in> set ks. seg \<noteq> [] \<and> seg \<noteq> ''.'' \<and> \<not> contains_str ''..'' seg"
    "CHR 0x00 \<notin> set (np_key np)" "backslash \<notin> set (np_key np)" by blast
  obtain k0 ks' where "ks = k0 # ks'" using ks(1) by (cases ks) auto
  then have ne: "np_key np \<noteq> []" using ks(2,4) by (cases ks') auto
  show "np_key np \<noteq> []" by (rule ne)
  show "\<forall>seg \<in> set (split_on (CHR ''/'') (np_key np)). seg \<noteq> [] \<and> seg \<noteq> ''.'' \<and> \<not> contains_str ''..'' seg"
    "CHR 0x00 \<notin> set (np_key np)" "backslash \<notin> set (np_key np)" "join ''/'' (split_on (CHR ''/'') (np_key np)) = np_key np"
    using ks by simp_all
qed

lemma path_segments_None: "path_segments segs = None \<longleftrightarrow> (\<exists>seg \<in> set segs. contains_str ''..'' seg)"
  by (induction segs) auto

lemma path_segments_kept:
  "path_segments segs = Some out \<Longrightarrow> out = filter (\<lambda>seg. seg \<noteq> [] \<and> seg \<noteq> ''.'') segs"
  by (induction segs arbitrary: out) (auto split: if_splits)

lemma normalize_request_path_None:
  "normalize_request_path percent_decode raw = None \<longleftrightarrow>
    (case percent_decode raw of
      None \<Rightarrow> True
    | Some d \<Rightarrow> CHR 0x00 \<in> set d \<or> backslash \<in> set d
        \<or> (\<exists>seg \<in> set (split_on (CHR ''/'') d). contains_str ''..'' seg))"
proof (cases "percent_decode raw")
  case (Some d)
  then show ?thesis
    unfolding normalize_request_path_def path_segments_None [symmetric]
    by (cases "path_segments (split_on (CHR ''/'') d)") (simp_all add: Let_def)
qed (simp add: normalize_request_path_def)

lemma join_eq_Nil: "\<forall>seg \<in> set segs. seg \<noteq> [] \<Longrightarrow> join ''/'' segs = [] \<longleftrightarrow> segs = []"
  by (cases segs; cases "tl segs") auto

lemma normalize_request_path_result:
  assumes "percent_decode raw = Some d" "normalize_request_path percent_decode raw = Some np"
    and "kept = filter (\<lambda>seg. seg \<noteq> [] \<and> seg \<noteq> ''.'') (split_on (CHR ''/'') d)"
  shows "np = (if kept = [] then \<lparr>np_key = ''index.html'', np_trailing_slash = True\<rparr>
    else \<lparr>np_key = join ''/'' kept, np_trailing_slash = (length d > 1 \<and> last d = CHR ''/'')\<rparr>)"
proof -
  have clean: "\<not> (CHR 0x00 \<in> set d \<or> backslash \<in> set d)"
    using assms(1,2) by (simp add: normalize_request_path_def split: if_split_asm)
  obtain segs where segs: "path_segments (split_on (CHR ''/'') d) = Some segs"
    using assms(1,2) clean by (cases "path_segments (split_on (CHR ''/'') d)")
      (simp_all add: normalize_request_path_def)
  have kept: "segs = kept" using path_segments_kept [OF segs] assms(3) by simp
  have "join ''/'' kept = [] \<longleftrightarrow> kept = []" using assms(3) by (intro join_eq_Nil) simp
  then show ?thesis using assms(1,2) clean segs kept by (auto simp: normalize_request_path_def Let_def split: if_splits)
qed

text \<open>
  C15. The normalisation of a request path decides. It refuses exactly a path that does not decode,
  that holds a null byte or a backslash, or that has a component with two dots in a row. Otherwise
  the key is the sequence of the decoded components without the empty ones and the single dots,
  joined by slashes, or \<open>index.html\<close> when none is left, and the trailing slash is reported. So the
  key is safe: it is not empty, its components are neither empty nor a dot and contain no two dots
  in a row, and it holds neither null bytes nor backslashes. Normalising the key again gives the
  same key under every decoder that leaves the key as it is.
\<close>

theorem normalized_path_safe:
  "(normalize_request_path percent_decode raw = None \<longleftrightarrow>
      (case percent_decode raw of
        None \<Rightarrow> True
      | Some d \<Rightarrow> CHR 0x00 \<in> set d \<or> backslash \<in> set d
          \<or> (\<exists>seg \<in> set (split_on (CHR ''/'') d). contains_str ''..'' seg)))
    \<and> (\<forall>d np. percent_decode raw = Some d \<and> normalize_request_path percent_decode raw = Some np \<longrightarrow>
      np = (let kept = filter (\<lambda>seg. seg \<noteq> [] \<and> seg \<noteq> ''.'') (split_on (CHR ''/'') d) in
        if kept = [] then \<lparr>np_key = ''index.html'', np_trailing_slash = True\<rparr>
        else \<lparr>np_key = join ''/'' kept, np_trailing_slash = (length d > 1 \<and> last d = CHR ''/'')\<rparr>)
      \<and> np_key np \<noteq> []
      \<and> (\<forall>seg \<in> set (split_on (CHR ''/'') (np_key np)). seg \<noteq> [] \<and> seg \<noteq> ''.'' \<and> \<not> contains_str ''..'' seg)
      \<and> CHR 0x00 \<notin> set (np_key np) \<and> backslash \<notin> set (np_key np)
      \<and> (\<forall>decode. decode (np_key np) = Some (np_key np) \<longrightarrow>
          map_option np_key (normalize_request_path decode (np_key np)) = Some (np_key np)))"
proof (intro conjI allI impI normalize_request_path_None)
  fix d np
  assume "percent_decode raw = Some d \<and> normalize_request_path percent_decode raw = Some np"
  then have d: "percent_decode raw = Some d" and np: "normalize_request_path percent_decode raw = Some np" by simp_all
  note key = normalized_key_components [OF np]
  show "np = (let kept = filter (\<lambda>seg. seg \<noteq> [] \<and> seg \<noteq> ''.'') (split_on (CHR ''/'') d) in
        if kept = [] then \<lparr>np_key = ''index.html'', np_trailing_slash = True\<rparr>
        else \<lparr>np_key = join ''/'' kept, np_trailing_slash = (length d > 1 \<and> last d = CHR ''/'')\<rparr>)"
    unfolding Let_def by (rule normalize_request_path_result [OF d np refl])
  show "np_key np \<noteq> []" "CHR 0x00 \<notin> set (np_key np)" "backslash \<notin> set (np_key np)"
    "\<forall>seg \<in> set (split_on (CHR ''/'') (np_key np)). seg \<noteq> [] \<and> seg \<noteq> ''.'' \<and> \<not> contains_str ''..'' seg"
    by (fact key)+
  show "map_option np_key (normalize_request_path decode (np_key np)) = Some (np_key np)"
    if "decode (np_key np) = Some (np_key np)" for decode
    using that key path_segments_fixed [OF key(2)] by (simp add: normalize_request_path_def Let_def)
qed

theorem normalized_path_safe_witness:
  "normalize_request_path Some ''//a/./b/'' = Some \<lparr>np_key = ''a/b'', np_trailing_slash = True\<rparr>
    \<and> map_option np_key (normalize_request_path Some ''a/b'') = Some ''a/b''
    \<and> normalize_request_path Some ''/a/../b'' = None"
proof -
  have np: "normalize_request_path Some ''//a/./b/'' = Some \<lparr>np_key = ''a/b'', np_trailing_slash = True\<rparr>"
    by (simp add: normalize_request_path_def backslash_def)
  have "normalize_request_path Some ''/a/../b'' = None"
    by (subst normalized_path_safe [THEN conjunct1]) simp
  moreover have "map_option np_key (normalize_request_path Some ''a/b'') = Some ''a/b''"
    using normalized_path_safe [of Some "''//a/./b/''", THEN conjunct2, rule_format, OF conjI [OF refl np]] by simp
  ultimately show ?thesis using np by simp
qed

lemma sanitize_path_segment_ok:
  "sanitize_path_segment value field = Ok v \<longleftrightarrow>
    v = value \<and> value \<noteq> [] \<and> \<not> contains_str (u ''..'') value
    \<and> set value \<inter> {47, 92, 63, 35} = {} \<and> (\<forall>c \<in> set value. \<not> is_control c)"
  by (auto simp: sanitize_path_segment_def)

section \<open>The origin decision\<close>

definition port_suffix :: "string option \<Rightarrow> string" where
  "port_suffix p = (case p of None \<Rightarrow> [] | Some t \<Rightarrow> CHR '':'' # t)"

definition effective_port :: "nat \<Rightarrow> string option \<Rightarrow> nat option" where
  "effective_port d p = (case p of None \<Rightarrow> Some d | Some t \<Rightarrow> from_str_radix 65535 10 t)"

text \<open>
  The authorities the check understands, as a grammar: \<open>authority_text raw h p\<close> says that \<open>raw\<close> is
  the host \<open>h\<close>, bare and then without a colon or between brackets, followed by a colon and the port
  text when \<open>p\<close> has one. A host is not empty and holds no userinfo mark and no bracket.
\<close>

definition authority_text :: "string \<Rightarrow> string \<Rightarrow> string option \<Rightarrow> bool" where
  "authority_text raw h p \<longleftrightarrow>
    h \<noteq> [] \<and> set h \<inter> {CHR ''@'', CHR ''['', CHR '']''} = {}
    \<and> (raw = h @ port_suffix p \<and> CHR '':'' \<notin> set h \<or> raw = CHR ''['' # h @ CHR '']'' # port_suffix p)"

text \<open>
  An origin and a host header name the same place: the origin is an HTTP or HTTPS scheme, an authority
  and nothing or a path; the hosts are equal up to ASCII case; both ports are numbers of 16 bits or
  absent, and equal when the scheme's default stands for an absent one.
\<close>

definition same_origin :: "string \<Rightarrow> string \<Rightarrow> bool" where
  "same_origin origin host \<longleftrightarrow>
    (\<exists>scheme d raw tail oh op hh hp n.
      origin = scheme @ ''://'' @ raw @ tail \<and> CHR ''/'' \<notin> set raw \<and> (tail = [] \<or> hd tail = CHR ''/'')
      \<and> (to_ascii_lowercase scheme, d) \<in> {(''https'', 443), (''http'', 80)}
      \<and> authority_text raw oh op \<and> authority_text host hh hp
      \<and> to_ascii_lowercase oh = to_ascii_lowercase hh
      \<and> effective_port d op = Some n \<and> effective_port d hp = Some n)"

lemma digits_value_chars:
  "digits_value 10 acc ds = Some n \<Longrightarrow> c \<in> set ds \<Longrightarrow> 48 \<le> (of_char c :: nat) \<and> (of_char c :: nat) \<le> 57"
proof (induction ds arbitrary: acc)
  case (Cons d ds)
  obtain v where v: "digit_value 10 d = Some v" "digits_value 10 (acc * 10 + v) ds = Some n"
    using Cons.prems(1) by (auto split: option.splits)
  have "48 \<le> (of_char d :: nat) \<and> (of_char d :: nat) \<le> 57"
    using v(1) by (auto simp: digit_value_def Let_def split: if_splits)
  then show ?case using Cons.IH [OF v(2)] Cons.prems(2) by (cases "c = d") simp_all
qed simp

lemma port_text_chars:
  assumes "from_str_radix 65535 10 t = Some n"
  shows "set t \<inter> {CHR ''@'', CHR ''['', CHR '']'', CHR '':'', CHR ''/''} = {}"
proof -
  define ds where "ds = (case t of c # cs \<Rightarrow> if c = CHR ''+'' then cs else t | [] \<Rightarrow> [])"
  obtain m where "digits_value 10 0 ds = Some m"
    using assms by (auto simp: from_str_radix_def Let_def ds_def [symmetric] split: if_splits option.splits)
  then have "c \<in> set ds \<Longrightarrow> 48 \<le> (of_char c :: nat) \<and> (of_char c :: nat) \<le> 57" for c by (rule digits_value_chars)
  then have "set ds \<inter> {CHR ''@'', CHR ''['', CHR '']'', CHR '':'', CHR ''/''} = {}" by fastforce
  moreover have "set t \<subseteq> insert (CHR ''+'') (set ds)" unfolding ds_def by (cases t) auto
  ultimately show ?thesis by auto
qed

lemma authority_split_text:
  assumes "authority_split raw = Some (h, p)"
  shows "authority_text raw h p"
proof (cases "strip_prefix ''['' raw")
  case (Some rest)
  have at: "CHR ''@'' \<notin> set raw" using assms by (auto simp: authority_split_def split: if_splits)
  have raw: "raw = CHR ''['' # rest" using Some by (simp add: strip_prefix_Some)
  obtain inner after where i: "split_once (CHR '']'') rest = Some (inner, after)"
    using assms at Some by (cases "split_once (CHR '']'') rest") (auto simp: authority_split_def split: if_splits)
  have rest: "rest = inner @ CHR '']'' # after" "CHR '']'' \<notin> set inner" using i by (simp_all add: split_once_Some)
  have h: "h = inner" "inner \<noteq> []" "CHR ''['' \<notin> set inner" "after = port_suffix p"
    using assms at i raw
    by (cases after; auto simp: authority_split_def port_suffix_def strip_prefix_def split: if_splits)+
  then show ?thesis using at raw rest by (simp add: authority_text_def)
next
  case None
  obtain host port where hp: "(case rsplit_once (CHR '':'') raw of
      Some (host, port) \<Rightarrow> (host, Some port) | None \<Rightarrow> (raw, None)) = (host, port)" by (metis prod.exhaust)
  have ok: "CHR ''@'' \<notin> set raw" "CHR ''['' \<notin> set raw" "CHR '']'' \<notin> set raw" "h = host" "p = port"
      "host \<noteq> []" "CHR '':'' \<notin> set host"
    using assms None hp by (auto simp: authority_split_def split: if_splits)
  have "raw = host @ port_suffix port"
    using hp by (cases "rsplit_once (CHR '':'') raw") (auto simp: port_suffix_def rsplit_once_Some)
  then show ?thesis using ok by (simp add: authority_text_def)
qed

lemma authority_text_split:
  assumes "authority_text raw h p" "effective_port d p = Some n"
  shows "authority_split raw = Some (h, p)"
proof -
  have h: "h \<noteq> []" "CHR ''@'' \<notin> set h" "CHR ''['' \<notin> set h" "CHR '']'' \<notin> set h"
    using assms(1) by (simp_all add: authority_text_def)
  have port: "set (port_suffix p) \<inter> {CHR ''@'', CHR ''['', CHR '']''} = {}"
    using assms(2) port_text_chars by (auto simp: port_suffix_def effective_port_def split: option.splits)
  consider "raw = h @ port_suffix p" "CHR '':'' \<notin> set h" | "raw = CHR ''['' # h @ CHR '']'' # port_suffix p"
    using assms(1) by (auto simp: authority_text_def)
  then show ?thesis
  proof cases
    case 1
    have nb: "strip_prefix ''['' raw = None" using h(1,3) 1(1) by (cases h) (auto simp: strip_prefix_def)
    have "rsplit_once (CHR '':'') raw = (case p of None \<Rightarrow> None | Some t \<Rightarrow> Some (h, t))"
    proof (cases p)
      case None
      then show ?thesis using 1 by (simp add: rsplit_once_None port_suffix_def)
    next
      case (Some t)
      then have "CHR '':'' \<notin> set t" using assms(2) port_text_chars [of t] by (auto simp: effective_port_def)
      then show ?thesis using Some 1 by (simp add: rsplit_once_Some port_suffix_def)
    qed
    then show ?thesis using 1 h nb port by (cases p) (simp_all add: authority_split_def port_suffix_def)
  next
    case 2
    have "split_once (CHR '']'') (h @ CHR '']'' # port_suffix p) = Some (h, port_suffix p)"
      using h(4) by (simp add: split_once_Some)
    then show ?thesis using 2 h port
      by (cases p) (simp_all add: authority_split_def strip_prefix_def port_suffix_def)
  qed
qed

lemma Authority_parse_iff:
  "Authority_parse raw d = Some a \<longleftrightarrow>
    (\<exists>h p n. authority_text raw h p \<and> effective_port d p = Some n
      \<and> a = \<lparr>auth_host = to_ascii_lowercase h, auth_port = (if n \<noteq> d then Some n else None)\<rparr>)"
proof
  assume parse: "Authority_parse raw d = Some a"
  then obtain h p where hp: "authority_split raw = Some (h, p)"
    by (cases "authority_split raw") (auto simp: Authority_parse_def)
  obtain n where "effective_port d p = Some n"
      "a = \<lparr>auth_host = to_ascii_lowercase h, auth_port = (if n \<noteq> d then Some n else None)\<rparr>"
    using parse hp by (cases p) (auto simp: Authority_parse_def effective_port_def split: option.splits)
  then show "\<exists>h p n. authority_text raw h p \<and> effective_port d p = Some n
      \<and> a = \<lparr>auth_host = to_ascii_lowercase h, auth_port = (if n \<noteq> d then Some n else None)\<rparr>"
    using authority_split_text [OF hp] by blast
next
  assume "\<exists>h p n. authority_text raw h p \<and> effective_port d p = Some n
      \<and> a = \<lparr>auth_host = to_ascii_lowercase h, auth_port = (if n \<noteq> d then Some n else None)\<rparr>"
  then obtain h p n where hp: "authority_text raw h p" "effective_port d p = Some n"
      "a = \<lparr>auth_host = to_ascii_lowercase h, auth_port = (if n \<noteq> d then Some n else None)\<rparr>" by blast
  show "Authority_parse raw d = Some a"
    using authority_text_split [OF hp(1,2)] hp(2,3)
    by (cases p) (auto simp: Authority_parse_def effective_port_def split: option.splits)
qed

lemma authorities_agree_iff:
  "(case (Authority_parse raw d, Authority_parse host d) of (Some a, Some b) \<Rightarrow> a = b | _ \<Rightarrow> False) \<longleftrightarrow>
    (\<exists>oh op hh hp n. authority_text raw oh op \<and> authority_text host hh hp
      \<and> to_ascii_lowercase oh = to_ascii_lowercase hh \<and> effective_port d op = Some n \<and> effective_port d hp = Some n)"
proof -
  have "(case (Authority_parse raw d, Authority_parse host d) of (Some a, Some b) \<Rightarrow> a = b | _ \<Rightarrow> False) \<longleftrightarrow>
      (\<exists>a. Authority_parse raw d = Some a \<and> Authority_parse host d = Some a)"
    by (auto split: option.splits)
  also have "\<dots> \<longleftrightarrow> (\<exists>oh op hh hp n. authority_text raw oh op \<and> authority_text host hh hp
      \<and> to_ascii_lowercase oh = to_ascii_lowercase hh \<and> effective_port d op = Some n \<and> effective_port d hp = Some n)"
    unfolding Authority_parse_iff by (auto split: if_splits) blast+
  finally show ?thesis .
qed

lemma split_once_str_Some: "split_once_str p s = Some (a, r) \<Longrightarrow> s = a @ p @ r"
proof (induction s arbitrary: a)
  case (Cons x xs)
  show ?case
  proof (cases "take (length p) (x # xs) = p")
    case True
    then show ?thesis using Cons.prems append_take_drop_id [of "length p" "x # xs"] by auto
  next
    case False
    then show ?thesis using Cons by auto
  qed
qed (auto split: if_splits)

lemma split_once_str_fresh:
  "c \<notin> set a \<Longrightarrow> split_once_str (c # p) (a @ c # p @ r) = Some (a, r)"
  by (induction a) auto

lemma scheme_port_no_colon:
  assumes "scheme_port scheme = Some d" shows "CHR '':'' \<notin> set scheme"
proof
  assume "CHR '':'' \<in> set scheme"
  then have "CHR '':'' \<in> set (to_ascii_lowercase scheme)"
    unfolding to_ascii_lowercase_def by (auto simp: char_to_ascii_lowercase_def intro: rev_image_eqI)
  then show False using assms by (auto simp: scheme_port_def split: if_splits)
qed

lemma scheme_port_iff: "scheme_port scheme = Some d \<longleftrightarrow> (to_ascii_lowercase scheme, d) \<in> {(''https'', 443), (''http'', 80)}"
  by (auto simp: scheme_port_def)

lemma authority_head_iff:
  "(case split_once (CHR ''/'') after of Some (head, _) \<Rightarrow> head | None \<Rightarrow> after) = raw \<longleftrightarrow>
    (\<exists>tail. after = raw @ tail \<and> CHR ''/'' \<notin> set raw \<and> (tail = [] \<or> hd tail = CHR ''/''))"
proof (cases "split_once (CHR ''/'') after")
  case None
  then have "CHR ''/'' \<notin> set after" by (simp add: split_once_None)
  then show ?thesis using None by (auto simp: neq_Nil_conv) (metis list.set_sel(1))
next
  case (Some ab)
  then obtain a b where ab: "ab = (a, b)" "after = a @ CHR ''/'' # b" "CHR ''/'' \<notin> set a"
    by (cases ab) (simp add: split_once_Some)
  have "raw = a" if cut: "after = raw @ tail" "CHR ''/'' \<notin> set raw" "tail = [] \<or> hd tail = CHR ''/''" for tail
  proof -
    obtain t where "tail = CHR ''/'' # t" using cut ab(2) by (cases tail) auto
    then have "split_once (CHR ''/'') after = Some (raw, t)" using cut by (simp add: split_once_Some)
    then show ?thesis using Some ab(1) by simp
  qed
  then show ?thesis using Some ab by auto
qed

lemma same_origin_iff:
  "same_origin origin host \<longleftrightarrow>
    (case split_once_str ''://'' origin of
      None \<Rightarrow> False
    | Some (scheme, after) \<Rightarrow>
        (case scheme_port scheme of
          None \<Rightarrow> False
        | Some d \<Rightarrow>
            (case (Authority_parse (case split_once (CHR ''/'') after of Some (head, _) \<Rightarrow> head | None \<Rightarrow> after) d,
                Authority_parse host d) of (Some a, Some b) \<Rightarrow> a = b | _ \<Rightarrow> False)))" (is "_ \<longleftrightarrow> ?code")
proof
  assume "same_origin origin host"
  then obtain scheme d raw tail oh op hh hp n where o: "origin = scheme @ ''://'' @ raw @ tail"
      and raw: "CHR ''/'' \<notin> set raw" "tail = [] \<or> hd tail = CHR ''/''"
      and d: "scheme_port scheme = Some d"
      and same: "authority_text raw oh op" "authority_text host hh hp" "to_ascii_lowercase oh = to_ascii_lowercase hh"
        "effective_port d op = Some n" "effective_port d hp = Some n"
    unfolding same_origin_def scheme_port_iff [symmetric] by blast
  have split: "split_once_str ''://'' origin = Some (scheme, raw @ tail)"
    using split_once_str_fresh [OF scheme_port_no_colon [OF d], of "''//''" "raw @ tail"] o by simp
  have head: "(case split_once (CHR ''/'') (raw @ tail) of Some (head, _) \<Rightarrow> head | None \<Rightarrow> raw @ tail) = raw"
    unfolding authority_head_iff using raw by blast
  have "case (Authority_parse raw d, Authority_parse host d) of (Some a, Some b) \<Rightarrow> a = b | _ \<Rightarrow> False"
    unfolding authorities_agree_iff using same by blast
  then show ?code using split d head by simp
next
  assume code: ?code
  obtain scheme after where split: "split_once_str ''://'' origin = Some (scheme, after)"
    using code by (cases "split_once_str ''://'' origin") auto
  obtain d where d: "scheme_port scheme = Some d" using code split by (cases "scheme_port scheme") auto
  define raw where "raw = (case split_once (CHR ''/'') after of Some (head, _) \<Rightarrow> head | None \<Rightarrow> after)"
  obtain tail where "after = raw @ tail" "CHR ''/'' \<notin> set raw" "tail = [] \<or> hd tail = CHR ''/''"
    using raw_def [symmetric] unfolding authority_head_iff by blast
  moreover have "origin = scheme @ ''://'' @ after" using split by (rule split_once_str_Some)
  moreover have "case (Authority_parse raw d, Authority_parse host d) of (Some a, Some b) \<Rightarrow> a = b | _ \<Rightarrow> False"
    using code split d by (simp add: raw_def)
  ultimately show "same_origin origin host"
    unfolding authorities_agree_iff same_origin_def scheme_port_iff [symmetric] using d by blast
qed

text \<open>
  C16. The origin check of a WebSocket upgrade decides, for every list of headers. A request without
  an origin is accepted exactly under the permissive policy. A request with an origin is accepted,
  under either policy, exactly when it has a host header, both headers are text, and the two name
  the same place: a scheme HTTP or HTTPS in any case, two authorities of the grammar, hosts equal up
  to ASCII case, and ports equal with the default of the scheme for an absent one. So userinfo, a
  bracket out of place, an empty host, a bare host with a colon and a port that is no number of 16
  bits all refuse the upgrade.
\<close>

theorem ws_origin_decides:
  "validate_ws_origin headers policy \<longleftrightarrow>
    (case header_get headers ''origin'' of
      None \<Rightarrow> policy = AllowAbsent
    | Some origin \<Rightarrow> (case header_get headers ''host'' of
        None \<Rightarrow> False
      | Some host \<Rightarrow> header_text origin = Some origin \<and> header_text host = Some host \<and> same_origin origin host))"
proof (cases "header_get headers ''origin''")
  case None
  then show ?thesis by (simp add: validate_ws_origin_def)
next
  case o: (Some origin)
  have plain: "header_text v = Some v \<or> header_text v = None" for v by (simp add: header_text_def)
  show ?thesis
  proof (cases "header_get headers ''host''")
    case None
    then show ?thesis using o by (auto simp: validate_ws_origin_def split: option.splits)
  next
    case (Some host)
    then show ?thesis using o plain [of origin] plain [of host] unfolding same_origin_iff
      by (auto simp: validate_ws_origin_def Let_def split: option.splits)
  qed
qed

theorem ws_origin_decides_witness:
  "validate_ws_origin [(''origin'', ''https://Example.com''), (''host'', ''example.com:443'')] Strict"
proof -
  have lower: "to_ascii_lowercase ''Example.com'' = ''example.com''" "to_ascii_lowercase ''example.com'' = ''example.com''"
      "to_ascii_lowercase ''https'' = ''https''"
    by code_simp+
  have "same_origin ''https://Example.com'' ''example.com:443''"
    unfolding same_origin_def
    by (rule exI [of _ "''https''"], rule exI [of _ 443], rule exI [of _ "''Example.com''"], rule exI [of _ "[]"],
        rule exI [of _ "''Example.com''"], rule exI [of _ None], rule exI [of _ "''example.com''"],
        rule exI [of _ "Some ''443''"], rule exI [of _ 443])
      (simp add: lower authority_text_def port_suffix_def effective_port_def from_str_radix_def digit_value_def)
  then show ?thesis
    using ws_origin_decides [of "[(''origin'', ''https://Example.com''), (''host'', ''example.com:443'')]" Strict]
    by (simp add: header_text_def header_get_def)
qed

text \<open>
  Brackets are not checked to hold an IPv6 address: a bracketed name is taken for the bare one.
\<close>

lemma bracketed_name_is_accepted:
  "Authority_parse ''[example.com]'' d = Some \<lparr>auth_host = ''example.com'', auth_port = None\<rparr>
    \<and> Authority_parse ''example.com'' d = Authority_parse ''[example.com]'' d"
  by (simp add: Authority_parse_def authority_split_def strip_prefix_def rsplit_once_def to_ascii_lowercase_def
      char_to_ascii_lowercase_def)

end
