(* ===== verification/Web_Headers.thy ===== *)
theory Web_Headers
  imports Web_Guards
begin

text \<open>
  What the web crate reads from request headers and adds to responses: correlation and idempotency
  (\<open>middleware/correlation.rs\<close>, \<open>middleware/mod.rs\<close>), conditional requests (\<open>middleware/http.rs\<close>),
  entity tags and encodings (\<open>middleware/compression.rs\<close>) and the defensive response headers
  (\<open>middleware/security.rs\<close>). SHA-256, zstd and the text form of a UUID are parameters; a UUID is
  its 128-bit value.
\<close>

section \<open>Correlation\<close>

definition parse_traceparent :: "string \<Rightarrow> correlation_context option" where
  "parse_traceparent val =
    (if length val \<noteq> 55 then None
     else case split_on (CHR ''-'') val of
       [version, trace_id_hex, parent_span_hex, flags] \<Rightarrow>
         if version \<noteq> ''00'' then None
         else if length trace_id_hex \<noteq> 32 \<or> length parent_span_hex \<noteq> 16 \<or> length flags \<noteq> 2 then None
         else (case (from_str_radix (2 ^ 128 - 1) 16 trace_id_hex, from_str_radix (2 ^ 64 - 1) 16 parent_span_hex,
             from_str_radix 255 16 flags) of
           (Some trace_id, Some parent_span, Some _) \<Rightarrow>
             if trace_id = 0 \<or> parent_span = 0 then None
             else Some (CorrelationContext_new trace_id parent_span)
         | _ \<Rightarrow> None)
     | _ \<Rightarrow> None)"

definition extract_correlation :: "(string \<Rightarrow> uuid option) \<Rightarrow> header_map \<Rightarrow> correlation_context" where
  "extract_correlation parse_uuid headers =
    (case Option.bind (Option.bind (header_get headers ''traceparent'') header_text) parse_traceparent of
      Some ctx \<Rightarrow> ctx
    | None \<Rightarrow>
        (case Option.bind (Option.bind (header_get headers ''x-correlation-id'') header_text) (\<lambda>s. parse_uuid (trim s)) of
          Some i \<Rightarrow> CorrelationContext_correlated i
        | None \<Rightarrow> CorrelationContext_none))"

definition extract_idempotency_key :: "header_map \<Rightarrow> idempotency_key option" where
  "extract_idempotency_key headers =
    Option.bind (Option.bind (header_get headers ''idempotency-key'') header_text) from_header_value"

text \<open>
  \<open>from_str\<close> is \<open>HeaderValue::from_str\<close>, documented to take printable ASCII and to refuse control
  characters other than the tab; the last definition is a function that does so.
\<close>

definition header_value_contract :: "(string \<Rightarrow> string option) \<Rightarrow> bool" where
  "header_value_contract from_str \<longleftrightarrow>
    (\<forall>s. list_all (\<lambda>c. 32 \<le> (of_char c :: nat) \<and> (of_char c :: nat) < 127) s \<longrightarrow> from_str s = Some s)
    \<and> (\<forall>s. list_ex (\<lambda>c. (of_char c :: nat) < 32 \<and> (of_char c :: nat) \<noteq> 9) s \<longrightarrow> from_str s = None)"

definition printable_header_value :: "string \<Rightarrow> string option" where
  "printable_header_value s = (if list_all (\<lambda>c. 32 \<le> (of_char c :: nat) \<and> (of_char c :: nat) < 127) s then Some s else None)"

text \<open>The echo on a response, around whatever the inner service answers.\<close>

definition correlation_layer ::
  "(string \<Rightarrow> string option) \<Rightarrow> (string \<Rightarrow> uuid option) \<Rightarrow> (uuid \<Rightarrow> string) \<Rightarrow> header_map \<Rightarrow> (correlation_context \<Rightarrow> header_map \<times> 'b) \<Rightarrow> header_map \<times> 'b" where
  "correlation_layer from_str parse_uuid show_uuid request next_run =
    (let ctx = extract_correlation parse_uuid request; (headers, rest) = next_run ctx in
     case correlation_id ctx of
       Some corr \<Rightarrow>
         (case from_str (show_uuid corr) of
           Some val \<Rightarrow> (header_insert ''x-correlation-id'' val headers, rest)
         | None \<Rightarrow> (headers, rest))
     | None \<Rightarrow> (headers, rest))"

definition correlation_from_extensions :: "correlation_context option \<Rightarrow> correlation_context" where
  "correlation_from_extensions stashed = (case stashed of Some ctx \<Rightarrow> ctx | None \<Rightarrow> CorrelationContext_none)"

lemma printable_header_value_contract: "header_value_contract printable_header_value"
  by (auto simp: header_value_contract_def printable_header_value_def list_all_iff list_ex_iff)

section \<open>Conditional requests\<close>

definition strip_weak :: "string \<Rightarrow> string" where
  "strip_weak v = (case strip_prefix ''W/'' v of Some r \<Rightarrow> r | None \<Rightarrow> v)"

definition etag_weak_match :: "string \<Rightarrow> string \<Rightarrow> bool" where
  "etag_weak_match client_val server_val = (client_val = ''*'' \<or> strip_weak client_val = strip_weak server_val)"

definition if_none_match_matches :: "header_map \<Rightarrow> string \<Rightarrow> bool" where
  "if_none_match_matches headers server_etag =
    list_ex (\<lambda>candidate. etag_weak_match candidate server_etag)
      (map trim (concat (map (split_on (CHR '','')) (List.map_filter header_text (header_get_all headers ''if-none-match'')))))"

definition hex_char :: "nat \<Rightarrow> char" where
  "hex_char d = char_of (if d < 10 then 48 + d else 87 + d)"

definition hex_byte :: "nat \<Rightarrow> string" where
  "hex_byte b = [hex_char (b div 16), hex_char (b mod 16)]"

definition compute_etag :: "('body \<Rightarrow> nat list) \<Rightarrow> 'body \<Rightarrow> string" where
  "compute_etag sha256 body = ''W/'' @ [CHR 0x22] @ concat (map hex_byte (take 16 (sha256 body))) @ [CHR 0x22]"

section \<open>Encodings\<close>

definition MAX_PRECOMPRESS_BYTES :: nat where
  "MAX_PRECOMPRESS_BYTES = 2 ^ 20"

definition compress_zstd :: "('b list \<Rightarrow> 'b list option) \<Rightarrow> 'b list \<Rightarrow> 'b list option" where
  "compress_zstd encode_all body = (if length body > MAX_PRECOMPRESS_BYTES then None else encode_all body)"

datatype encoding = Zstd | Identity

text \<open>
  Reading a quality as an \<open>f32\<close> and comparing it with zero. The text is a sign, then infinity, not
  a number, or digits with an optional point and exponent. A positive decimal is positive as a
  float when it exceeds half of the least positive float.
\<close>

definition parse_exponent :: "string \<Rightarrow> int option" where
  "parse_exponent s =
    (case s of
      [] \<Rightarrow> None
    | c # cs \<Rightarrow>
        if c = CHR ''-'' then (if cs = [] then None else map_option (\<lambda>n. - int n) (digits_value 10 0 cs))
        else if c = CHR ''+'' then (if cs = [] then None else map_option int (digits_value 10 0 cs))
        else map_option int (digits_value 10 0 s))"

definition parse_decimal :: "string \<Rightarrow> (nat \<times> int) option" where
  "parse_decimal s =
    (let (mantissa, expo) = (case split_once (CHR ''e'') (map (\<lambda>c. if c = CHR ''E'' then CHR ''e'' else c) s) of
           Some (m, e) \<Rightarrow> (m, parse_exponent e) | None \<Rightarrow> (s, Some 0));
         (whole, frac) = (case split_once (CHR ''.'') mantissa of Some (w, f) \<Rightarrow> (w, f) | None \<Rightarrow> (mantissa, []))
     in if whole @ frac = [] then None
        else case (digits_value 10 0 (whole @ frac), expo) of
          (Some m, Some e) \<Rightarrow> Some (m, e - int (length frac)) | _ \<Rightarrow> None)"

definition f32_positive :: "nat \<Rightarrow> int \<Rightarrow> bool" where
  "f32_positive m e = (if 0 \<le> e then 0 < m else (10::int) ^ nat (- e) < int m * 2 ^ 150)"

definition parse_f32_positive :: "string \<Rightarrow> bool option" where
  "parse_f32_positive s =
    (let (negative, body) = (case s of
           c # cs \<Rightarrow> if c = CHR ''-'' then (True, cs) else if c = CHR ''+'' then (False, cs) else (False, s)
         | [] \<Rightarrow> (False, [])) in
     if to_ascii_lowercase body = ''inf'' \<or> to_ascii_lowercase body = ''infinity'' then Some (\<not> negative)
     else if to_ascii_lowercase body = ''nan'' then Some False
     else map_option (\<lambda>(m, e). \<not> negative \<and> f32_positive m e) (parse_decimal body))"

fun find_quality :: "string list \<Rightarrow> bool option" where
  "find_quality [] = None"
| "find_quality (param # params) =
    (case Option.bind (strip_prefix ''q='' (trim param)) (\<lambda>v. parse_f32_positive (trim v)) of
      Some q \<Rightarrow> Some q
    | None \<Rightarrow> find_quality params)"

text \<open>The name of an entry and whether its quality is positive.\<close>

definition encoding_entry :: "string \<Rightarrow> string \<times> bool" where
  "encoding_entry part =
    (case split_once (CHR '';'') (trim part) of
      Some (n, p) \<Rightarrow>
        (trim n, case find_quality (split_on (CHR '';'') (trim p)) of Some q \<Rightarrow> q | None \<Rightarrow> True)
    | None \<Rightarrow> (trim part, True))"

fun negotiate_loop :: "bool \<Rightarrow> string list \<Rightarrow> encoding" where
  "negotiate_loop zstd_acceptable [] = (if zstd_acceptable then Zstd else Identity)"
| "negotiate_loop zstd_acceptable (part # parts) =
    (let (name, positive) = encoding_entry part in
     if name \<noteq> ''zstd'' then negotiate_loop zstd_acceptable parts
     else if positive then negotiate_loop True parts else Identity)"

definition negotiate_encoding :: "string \<Rightarrow> encoding" where
  "negotiate_encoding accept =
    (case header_text accept of
      None \<Rightarrow> Identity
    | Some s \<Rightarrow>
        if s = ''zstd'' then Zstd
        else if CHR '';'' \<notin> set s then
          (if list_ex (\<lambda>part. trim part = ''zstd'') (split_on (CHR '','') s) then Zstd else Identity)
        else negotiate_loop False (split_on (CHR '','') s))"

section \<open>Defensive response headers\<close>

definition DEFAULT_CSP :: string where
  "DEFAULT_CSP = concat [''default-src '', [CHR 0x27], ''self'', [CHR 0x27], ''; style-src '', [CHR 0x27], ''self'', [CHR 0x27],
    ''; script-src '', [CHR 0x27], ''self'', [CHR 0x27], ''; connect-src '', [CHR 0x27], ''self'', [CHR 0x27],
    ''; base-uri '', [CHR 0x27], ''none'', [CHR 0x27], ''; form-action '', [CHR 0x27], ''none'', [CHR 0x27]]"

definition SVG_CSP :: string where
  "SVG_CSP = concat [''default-src '', [CHR 0x27], ''none'', [CHR 0x27], ''; style-src '', [CHR 0x27], ''unsafe-inline'', [CHR 0x27],
    ''; img-src '', [CHR 0x27], ''self'', [CHR 0x27]]"

definition security_headers :: "string \<Rightarrow> header_map \<Rightarrow> header_map" where
  "security_headers csp headers =
    (let h1 = header_insert ''x-frame-options'' ''DENY'' headers;
         h2 = header_insert ''x-content-type-options'' ''nosniff'' h1;
         h3 = (if header_get h2 ''content-security-policy'' = None
               then header_insert ''content-security-policy'' csp h2 else h2);
         h4 = header_insert ''referrer-policy'' ''no-referrer'' h3;
         h5 = header_insert ''permissions-policy'' ''camera=(), microphone=(), geolocation=()'' h4
     in header_insert ''strict-transport-security'' ''max-age=63072000; includeSubDomains'' h5)"

section \<open>Facts about headers\<close>

lemma header_get_insert [simp]:
  "header_get (header_insert n v h) m = (if m = n then Some v else header_get h m)"
proof -
  have "map_of (filter (\<lambda>(k, w). k \<noteq> n) h) m = (if m = n then None else map_of h m)"
    by (induction h) auto
  then show ?thesis by (auto simp: header_get_def header_insert_def map_add_def split: option.splits)
qed

lemma header_get_Nil [simp]: "header_get [] m = None"
  by (simp add: header_get_def)

lemma header_get_all_insert:
  "header_get_all (header_insert n v h) m = (if m = n then [v] else header_get_all h m)"
  by (induction h) (auto simp: header_get_all_def header_insert_def)

text \<open>
  The response headers set by the security layer, whatever the inner service answered: all six
  are present with a single value each, a policy of the response itself wins over the configured
  one, every other header is as before, and applying the layer twice is applying it once.
\<close>

theorem security_headers_complete:
  "header_get_all (security_headers csp h) ''x-frame-options'' = [''DENY'']
    \<and> header_get_all (security_headers csp h) ''x-content-type-options'' = [''nosniff'']
    \<and> header_get_all (security_headers csp h) ''referrer-policy'' = [''no-referrer'']
    \<and> header_get_all (security_headers csp h) ''permissions-policy'' = [''camera=(), microphone=(), geolocation=()'']
    \<and> header_get_all (security_headers csp h) ''strict-transport-security'' = [''max-age=63072000; includeSubDomains'']
    \<and> header_get (security_headers csp h) ''content-security-policy'' =
        Some (case header_get h ''content-security-policy'' of Some own \<Rightarrow> own | None \<Rightarrow> csp)
    \<and> (\<forall>name. name \<notin> {''x-frame-options'', ''x-content-type-options'', ''referrer-policy'', ''permissions-policy'',
        ''strict-transport-security'', ''content-security-policy''} \<longrightarrow>
        header_get_all (security_headers csp h) name = header_get_all h name)
    \<and> (\<forall>name. header_get_all (security_headers csp (security_headers csp h)) name
        = header_get_all (security_headers csp h) name)"
  by (auto simp: security_headers_def Let_def header_get_all_insert split: option.splits)

section \<open>Trace parents\<close>

fun hex_fixed :: "nat \<Rightarrow> nat \<Rightarrow> string" where
  "hex_fixed 0 n = []"
| "hex_fixed (Suc w) n = hex_fixed w (n div 16) @ [hex_char (n mod 16)]"

definition render_traceparent :: "nat \<Rightarrow> nat \<Rightarrow> nat \<Rightarrow> string" where
  "render_traceparent trace_id parent_span flags =
    join ''-'' [''00'', hex_fixed 32 trace_id, hex_fixed 16 parent_span, hex_fixed 2 flags]"

lemma hex_char_code: "d < 16 \<Longrightarrow> (of_char (hex_char d) :: nat) = (if d < 10 then 48 + d else 87 + d)"
  by (simp add: hex_char_def)

lemma digit_value_hex_char: "d < 16 \<Longrightarrow> digit_value 16 (hex_char d) = Some d"
  by (simp add: digit_value_def hex_char_code Let_def)

lemma hex_char_plain: "d < 16 \<Longrightarrow> hex_char d \<noteq> CHR ''+'' \<and> hex_char d \<noteq> CHR ''-''"
  using hex_char_code [of d] by (auto split: if_splits)

lemma length_hex_fixed [simp]: "length (hex_fixed w n) = w"
  by (induction w arbitrary: n) simp_all

lemma digits_value_append:
  "digits_value r acc (xs @ ys) = Option.bind (digits_value r acc xs) (\<lambda>a. digits_value r a ys)"
  by (induction xs arbitrary: acc) (auto split: option.splits)

lemma digits_value_hex_fixed: "digits_value 16 0 (hex_fixed w n) = Some (n mod 16 ^ w)"
proof (induction w arbitrary: n)
  case (Suc w)
  have "n mod 16 ^ Suc w = 16 * (n div 16 mod 16 ^ w) + n mod 16"
    by (simp add: mod_mult2_eq)
  then show ?case
    using Suc by (simp add: digits_value_append digit_value_hex_char mult.commute)
qed simp

lemma hex_fixed_chars: "c \<in> set (hex_fixed w n) \<Longrightarrow> c \<noteq> CHR ''+'' \<and> c \<noteq> CHR ''-''"
proof (induction w arbitrary: n)
  case (Suc w)
  then show ?case using hex_char_plain [of "n mod 16"] by auto
qed simp

lemma from_str_radix_hex_fixed:
  assumes "0 < w" "n < 16 ^ w" "n \<le> limit"
  shows "from_str_radix limit 16 (hex_fixed w n) = Some n"
proof -
  have ne: "hex_fixed w n \<noteq> []" using assms(1) length_hex_fixed [of w n] by (metis length_greater_0_conv)
  obtain c cs where c: "hex_fixed w n = c # cs" using ne by (cases "hex_fixed w n") auto
  then have "c \<noteq> CHR ''+''" using hex_fixed_chars [of c w n] by simp
  then show ?thesis
    using c digits_value_hex_fixed [of w n] assms by (simp add: from_str_radix_def)
qed

lemma parse_traceparent_fields:
  assumes "from_str_radix (2 ^ 128 - 1) 16 t = Some trace_id" "from_str_radix (2 ^ 64 - 1) 16 p = Some parent_span"
    and "from_str_radix 255 16 f = Some flags" "length t = 32" "length p = 16" "length f = 2"
    and "CHR ''-'' \<notin> set t" "CHR ''-'' \<notin> set p" "CHR ''-'' \<notin> set f" "0 < trace_id" "0 < parent_span"
  shows "parse_traceparent (join ''-'' [''00'', t, p, f]) = Some (CorrelationContext_new trace_id parent_span)"
proof -
  have split: "split_on (CHR ''-'') (join ''-'' [''00'', t, p, f]) = [''00'', t, p, f]"
    using assms by (intro split_on_join) simp_all
  have "length (join ''-'' [''00'', t, p, f]) = 55" using assms by simp
  with split show ?thesis using assms unfolding parse_traceparent_def by simp
qed

text \<open>
  C34. Trace context round trip: the text of a trace parent with an identifier of 128 bits, a span
  of 64 bits, neither zero, and flags of 8 bits is read back as exactly these two, and a request that
  carries it as its header has that correlation context, whatever else it carries. A request with
  neither of the two headers has no correlation: nothing is invented.
\<close>

theorem traceparent_roundtrip:
  assumes "0 < trace_id" "trace_id < 2 ^ 128" "0 < parent_span" "parent_span < 2 ^ 64" "flags < 256"
    and "header_text (render_traceparent trace_id parent_span flags) = Some (render_traceparent trace_id parent_span flags)"
  shows "parse_traceparent (render_traceparent trace_id parent_span flags) = Some (CorrelationContext_new trace_id parent_span)
    \<and> (header_get headers ''traceparent'' = Some (render_traceparent trace_id parent_span flags) \<longrightarrow>
      extract_correlation parse_uuid headers = CorrelationContext_new trace_id parent_span)
    \<and> (header_get headers ''traceparent'' = None \<and> header_get headers ''x-correlation-id'' = None \<longrightarrow>
      extract_correlation parse_uuid headers = CorrelationContext_none)"
proof -
  have "from_str_radix (2 ^ 128 - 1) 16 (hex_fixed 32 trace_id) = Some trace_id"
      "from_str_radix (2 ^ 64 - 1) 16 (hex_fixed 16 parent_span) = Some parent_span"
      "from_str_radix 255 16 (hex_fixed 2 flags) = Some flags"
    using assms by (intro from_str_radix_hex_fixed; simp)+
  then have "parse_traceparent (render_traceparent trace_id parent_span flags) = Some (CorrelationContext_new trace_id parent_span)"
    unfolding render_traceparent_def using assms(1,3) hex_fixed_chars by (intro parse_traceparent_fields) auto
  then show ?thesis using assms(6) by (simp add: extract_correlation_def)
qed

theorem traceparent_roundtrip_witness:
  "extract_correlation (\<lambda>_. None) [(''traceparent'', render_traceparent 10 11 1)] = CorrelationContext_new 10 11"
proof -
  have "header_text (render_traceparent 10 11 1) = Some (render_traceparent 10 11 1)" by code_simp
  then show ?thesis
    using traceparent_roundtrip [of 10 11 1 "[(''traceparent'', render_traceparent 10 11 1)]" "\<lambda>_. None"]
    by (simp add: header_get_def)
qed

text \<open>A plus sign passes for a digit: this value is no trace parent of the W3C format.\<close>

lemma traceparent_accepts_plus_sign:
  "parse_traceparent (join ''-'' [''00'', CHR ''+'' # hex_fixed 31 10, hex_fixed 16 11, hex_fixed 2 1])
    = Some (CorrelationContext_new 10 11)"
proof (rule parse_traceparent_fields)
  have "hex_fixed 31 10 \<noteq> []" using length_hex_fixed [of 31 10] by (metis list.size(3) zero_neq_numeral)
  then show "from_str_radix (2 ^ 128 - 1) 16 (CHR ''+'' # hex_fixed 31 10) = Some 10"
    using digits_value_hex_fixed [of 31 10] by (simp add: from_str_radix_def)
  show "from_str_radix (2 ^ 64 - 1) 16 (hex_fixed 16 11) = Some 11" "from_str_radix 255 16 (hex_fixed 2 1) = Some 1"
    by (intro from_str_radix_hex_fixed; simp)+
qed (use hex_fixed_chars in auto)

section \<open>Negotiation\<close>

lemma negotiate_loop_Zstd:
  "negotiate_loop acc parts = Zstd \<longleftrightarrow>
    (acc \<or> (\<exists>part \<in> set parts. fst (encoding_entry part) = ''zstd''))
    \<and> (\<forall>part \<in> set parts. fst (encoding_entry part) = ''zstd'' \<longrightarrow> snd (encoding_entry part))"
proof (induction parts arbitrary: acc)
  case (Cons part parts)
  then show ?case by (cases "encoding_entry part") (auto simp: Let_def)
qed simp

lemma trim_subset: "set (trim s) \<subseteq> set s"
  using trim_decomp [of s] by auto (metis Un_iff set_append)

lemma encoding_entry_bare: "CHR '';'' \<notin> set part \<Longrightarrow> encoding_entry part = (trim part, True)"
proof -
  assume "CHR '';'' \<notin> set part"
  then have "split_once (CHR '';'') (trim part) = None" using trim_subset [of part] unfolding split_once_None by blast
  then show ?thesis by (simp add: encoding_entry_def)
qed

text \<open>
  The encoding of a response. The two shortcuts and the early exit of the loop do not matter: on
  every header value the answer is zstd exactly when the value is text, one of its comma-separated
  entries names zstd and no entry that names zstd has a quality that is not positive. So a refusal
  wins wherever it stands, and a client that does not mention zstd never gets it.
\<close>

theorem negotiate_encoding_decides:
  "negotiate_encoding accept = Zstd \<longleftrightarrow>
    (\<exists>s. header_text accept = Some s
      \<and> (\<exists>part \<in> set (split_on (CHR '','') s). fst (encoding_entry part) = ''zstd'')
      \<and> (\<forall>part \<in> set (split_on (CHR '','') s). fst (encoding_entry part) = ''zstd'' \<longrightarrow> snd (encoding_entry part)))"
proof (cases "header_text accept")
  case (Some s)
  have bare: "encoding_entry part = (trim part, True)" if "CHR '';'' \<notin> set s" "part \<in> set (split_on (CHR '','') s)" for part
    using that split_on_set [of "CHR '',''" s] by (intro encoding_entry_bare) blast
  show ?thesis
  proof (cases "CHR '';'' \<in> set s")
    case True
    then have "s \<noteq> ''zstd''" by auto
    then show ?thesis using Some True by (simp add: negotiate_encoding_def negotiate_loop_Zstd)
  next
    case False
    have single: "split_on (CHR '','') ''zstd'' = [''zstd'']" "trim ''zstd'' = ''zstd''" by code_simp+
    have "negotiate_encoding accept = Zstd \<longleftrightarrow> (\<exists>part \<in> set (split_on (CHR '','') s). trim part = ''zstd'')"
      using Some False single by (auto simp: negotiate_encoding_def list_ex_iff)
    then show ?thesis using Some bare [OF False] by auto
  qed
qed (simp add: negotiate_encoding_def)

theorem negotiate_encoding_decides_witness:
  "negotiate_encoding ''gzip, zstd;q=0.5'' = Zstd \<and> negotiate_encoding ''zstd, zstd;q=0'' = Identity"
proof -
  have texts: "header_text ''gzip, zstd;q=0.5'' = Some ''gzip, zstd;q=0.5''" "header_text ''zstd, zstd;q=0'' = Some ''zstd, zstd;q=0''"
    by code_simp+
  have "list_ex (\<lambda>part. fst (encoding_entry part) = ''zstd'') (split_on (CHR '','') ''gzip, zstd;q=0.5'')
      \<and> list_all (\<lambda>part. fst (encoding_entry part) = ''zstd'' \<longrightarrow> snd (encoding_entry part)) (split_on (CHR '','') ''gzip, zstd;q=0.5'')"
      "\<not> list_all (\<lambda>part. fst (encoding_entry part) = ''zstd'' \<longrightarrow> snd (encoding_entry part)) (split_on (CHR '','') ''zstd, zstd;q=0'')"
    by code_simp+
  then have entries: "(\<exists>part \<in> set (split_on (CHR '','') ''gzip, zstd;q=0.5''). fst (encoding_entry part) = ''zstd'')
      \<and> (\<forall>part \<in> set (split_on (CHR '','') ''gzip, zstd;q=0.5''). fst (encoding_entry part) = ''zstd'' \<longrightarrow> snd (encoding_entry part))"
      "\<not> (\<forall>part \<in> set (split_on (CHR '','') ''zstd, zstd;q=0''). fst (encoding_entry part) = ''zstd'' \<longrightarrow> snd (encoding_entry part))"
    unfolding list_ex_iff list_all_iff .
  have "negotiate_encoding ''gzip, zstd;q=0.5'' = Zstd"
    unfolding negotiate_encoding_decides using texts(1) entries(1) by blast
  moreover have "negotiate_encoding ''zstd, zstd;q=0'' \<noteq> Zstd"
    unfolding negotiate_encoding_decides texts(2) option.inject using entries(2) by blast
  ultimately show ?thesis by (cases "negotiate_encoding ''zstd, zstd;q=0''") auto
qed

text \<open>
  The comment on \<open>negotiate_encoding\<close> says that every value with an entry that starts with zstd is
  still accepted; this one is not.
\<close>

lemma negotiation_is_no_superset:
  "list_ex (\<lambda>part. take 4 (trim part) = ''zstd'') (split_on (CHR '','') ''zstd-fast'')
    \<and> negotiate_encoding ''zstd-fast'' = Identity"
  by code_simp

section \<open>Entity tags\<close>

lemma if_none_match_iff:
  "if_none_match_matches headers tag \<longleftrightarrow>
    (\<exists>v \<in> set (header_get_all headers ''if-none-match''). \<exists>s. header_text v = Some s
      \<and> (\<exists>candidate \<in> set (split_on (CHR '','') s). etag_weak_match (trim candidate) tag))"
proof -
  have filter: "s \<in> set (List.map_filter header_text vs) \<longleftrightarrow> (\<exists>v \<in> set vs. header_text v = Some s)" for s vs
    by (induction vs) (auto simp: List.map_filter_simps split: option.splits)
  show ?thesis unfolding if_none_match_matches_def list_ex_iff by (simp add: filter bex_simps) (use filter in blast)
qed

lemma hex_char_inj: "x < 16 \<Longrightarrow> y < 16 \<Longrightarrow> hex_char x = hex_char y \<Longrightarrow> x = y"
  by (metis digit_value_hex_char option.inject)

lemma hex_byte_inj: "a < 256 \<Longrightarrow> b < 256 \<Longrightarrow> hex_byte a = hex_byte b \<Longrightarrow> a = b"
proof -
  assume ab: "a < 256" "b < 256" "hex_byte a = hex_byte b"
  have "a div 16 = b div 16" by (rule hex_char_inj) (use ab in \<open>simp_all add: hex_byte_def\<close>)
  moreover have "a mod 16 = b mod 16" by (rule hex_char_inj) (use ab in \<open>simp_all add: hex_byte_def\<close>)
  ultimately show "a = b" by (metis div_mult_mod_eq)
qed

lemma hex_byte_length: "length (hex_byte b) = 2"
  by (simp add: hex_byte_def)

lemma hex_bytes_inj:
  "\<forall>b \<in> set xs. b < 256 \<Longrightarrow> \<forall>b \<in> set ys. b < 256 \<Longrightarrow>
    concat (map hex_byte xs) = concat (map hex_byte ys) \<Longrightarrow> xs = ys"
proof (induction xs arbitrary: ys)
  case Nil
  then show ?case by (cases ys) (simp_all add: hex_byte_def)
next
  case (Cons x xs)
  obtain y ys' where ys: "ys = y # ys'" using Cons.prems(3) by (cases ys) (simp_all add: hex_byte_def)
  have "hex_byte x = hex_byte y" "concat (map hex_byte xs) = concat (map hex_byte ys')"
    using Cons.prems(3) ys append_eq_append_conv [of "hex_byte x" "hex_byte y"] by (simp_all add: hex_byte_length)
  then show ?case using Cons.IH [of ys'] Cons.prems(1,2) ys hex_byte_inj [of x y] by simp
qed

end
