(* ===== verification/Web_Errors.thy ===== *)
theory Web_Errors
  imports Web_Headers Core_Errors
begin

text \<open>
  Errors as HTTP responses (\<open>cherry-pit-web/src/middleware/error.rs\<close>): status, headers and body of
  every error of dispatch, store and bus. A mapping returns the response together with what it logs,
  the code and the withheld text. The message of a rejection is the text of the domain error, which
  the consumer supplies as \<open>show_domain\<close>.
\<close>

section \<open>Bodies\<close>

datatype opaque_code =
    OpaqueIndeterminate
  | OpaqueConcurrencyConflict
  | OpaqueAggregateNotFound
  | OpaqueInfrastructure
  | OpaqueStoreLocked
  | OpaqueCorruptData
  | OpaqueBus
  | AcceptedUnknown

fun OpaqueCode_wire :: "opaque_code \<Rightarrow> string" where
  "OpaqueCode_wire OpaqueIndeterminate = ''indeterminate''"
| "OpaqueCode_wire OpaqueConcurrencyConflict = ''concurrency_conflict''"
| "OpaqueCode_wire OpaqueAggregateNotFound = ''aggregate_not_found''"
| "OpaqueCode_wire OpaqueInfrastructure = ''infrastructure''"
| "OpaqueCode_wire OpaqueStoreLocked = ''store_locked''"
| "OpaqueCode_wire OpaqueCorruptData = ''corrupt_data''"
| "OpaqueCode_wire OpaqueBus = ''bus''"
| "OpaqueCode_wire AcceptedUnknown = ''accepted_unknown''"

text \<open>The dash of the last message in UTF-8.\<close>

definition em_dash :: string where
  "em_dash = [CHR 0xE2, CHR 0x80, CHR 0x94]"

fun OpaqueCode_message :: "opaque_code \<Rightarrow> string" where
  "OpaqueCode_message OpaqueIndeterminate = ''operation outcome unknown; reconciliation required before further action''"
| "OpaqueCode_message OpaqueConcurrencyConflict = ''the aggregate changed concurrently; reload and retry''"
| "OpaqueCode_message OpaqueAggregateNotFound = ''aggregate not found''"
| "OpaqueCode_message OpaqueInfrastructure = ''infrastructure failure; retry is safe''"
| "OpaqueCode_message OpaqueStoreLocked = ''store temporarily unavailable; retry is safe''"
| "OpaqueCode_message OpaqueCorruptData = ''the stored data failed validation''"
| "OpaqueCode_message OpaqueBus = ''event publication failed; retry is safe''"
| "OpaqueCode_message AcceptedUnknown = ''command persisted; outcome delivery cancelled '' @ em_dash @ '' replay is safe''"

record error_body =
  body_code :: string
  body_message :: string
  body_correlation_id :: "string option"

definition ErrorBody_domain :: "string \<Rightarrow> string \<Rightarrow> error_body" where
  "ErrorBody_domain code msg = \<lparr>body_code = code, body_message = msg, body_correlation_id = None\<rparr>"

definition ErrorBody_opaque :: "opaque_code \<Rightarrow> error_body" where
  "ErrorBody_opaque code = \<lparr>body_code = OpaqueCode_wire code, body_message = OpaqueCode_message code, body_correlation_id = None\<rparr>"

definition with_correlation :: "(uuid \<Rightarrow> string) \<Rightarrow> correlation_context \<Rightarrow> error_body \<Rightarrow> error_body" where
  "with_correlation show_uuid ctx body = body\<lparr>body_correlation_id := map_option show_uuid (correlation_id ctx)\<rparr>"

section \<open>Responses\<close>

type_synonym error_response = "nat \<times> header_map \<times> error_body"
type_synonym error_log = "(string \<times> string) list"

definition RETRY_AFTER_SECONDS :: string where
  "RETRY_AFTER_SECONDS = ''1''"

definition retry_after_headers :: header_map where
  "retry_after_headers = header_insert ''retry-after'' RETRY_AFTER_SECONDS []"

definition no_headers :: header_map where
  "no_headers = []"

definition opaque_body :: "opaque_code \<Rightarrow> string \<Rightarrow> error_body \<times> error_log" where
  "opaque_body code err = (ErrorBody_opaque code, [(OpaqueCode_wire code, err)])"

definition respond :: "nat \<Rightarrow> header_map \<Rightarrow> error_body \<times> error_log \<Rightarrow> error_response \<times> error_log" where
  "respond status headers b = ((status, headers, fst b), snd b)"

fun DispatchError_fmt :: "(uuid \<Rightarrow> string) \<Rightarrow> ('d \<Rightarrow> string) \<Rightarrow> 'd dispatch_error \<Rightarrow> string" where
  "DispatchError_fmt show_uuid show_domain (DispatchIndeterminate e) = ''dispatch outcome indeterminate: '' @ boxed_fmt show_uuid e"
| "DispatchError_fmt show_uuid show_domain (Rejected e) = ''command rejected: '' @ show_domain e"
| "DispatchError_fmt show_uuid show_domain (AggregateNotFound i) = ''aggregate not found: '' @ AggregateId_fmt i"
| "DispatchError_fmt show_uuid show_domain (DispatchConflict i e a) =
    ''concurrency conflict on '' @ AggregateId_fmt i @ '': expected sequence '' @ show_nat e @ '', actual '' @ show_nat a"
| "DispatchError_fmt show_uuid show_domain (DispatchInfrastructure e) = ''infrastructure error: '' @ boxed_fmt show_uuid e"

definition map_dispatch_error ::
  "(uuid \<Rightarrow> string) \<Rightarrow> ('d \<Rightarrow> string) \<Rightarrow> 'd dispatch_error \<Rightarrow> error_response \<times> error_log" where
  "map_dispatch_error show_uuid show_domain err =
    (let detail = DispatchError_fmt show_uuid show_domain err in
     case err of
       DispatchIndeterminate _ \<Rightarrow> respond 500 no_headers (opaque_body OpaqueIndeterminate detail)
     | Rejected _ \<Rightarrow> respond 422 no_headers (ErrorBody_domain ''rejected'' detail, [])
     | DispatchConflict _ _ _ \<Rightarrow> respond 409 no_headers (opaque_body OpaqueConcurrencyConflict detail)
     | AggregateNotFound _ \<Rightarrow> respond 404 no_headers (opaque_body OpaqueAggregateNotFound detail)
     | DispatchInfrastructure _ \<Rightarrow> respond 503 retry_after_headers (opaque_body OpaqueInfrastructure detail))"

definition map_store_error :: "(uuid \<Rightarrow> string) \<Rightarrow> store_error \<Rightarrow> error_response \<times> error_log" where
  "map_store_error show_uuid err =
    (let detail = StoreError_fmt show_uuid err in
     case err of
       Indeterminate _ \<Rightarrow> respond 500 no_headers (opaque_body OpaqueIndeterminate detail)
     | ConcurrencyConflict _ _ _ \<Rightarrow> respond 409 no_headers (opaque_body OpaqueConcurrencyConflict detail)
     | StoreLocked _ \<Rightarrow> respond 503 retry_after_headers (opaque_body OpaqueStoreLocked detail)
     | CorruptData _ \<Rightarrow> respond 500 no_headers (opaque_body OpaqueCorruptData detail)
     | Infrastructure _ \<Rightarrow> respond 503 retry_after_headers (opaque_body OpaqueInfrastructure detail)
     | JoinFailure _ \<Rightarrow> respond 503 retry_after_headers (opaque_body OpaqueInfrastructure detail))"

definition map_bus_error :: "(uuid \<Rightarrow> string) \<Rightarrow> bus_error \<Rightarrow> error_response \<times> error_log" where
  "map_bus_error show_uuid err = respond 503 retry_after_headers (opaque_body OpaqueBus (BusError_fmt show_uuid err))"

definition post_persist_cancellation_response :: error_response where
  "post_persist_cancellation_response = (202, no_headers, ErrorBody_opaque AcceptedUnknown)"

section \<open>Opacity and retry advice\<close>

text \<open>The class of an error: the error with everything it carries forgotten.\<close>

definition dispatch_class :: "'d dispatch_error \<Rightarrow> opaque_code option" where
  "dispatch_class err = (case err of
      DispatchIndeterminate _ \<Rightarrow> Some OpaqueIndeterminate
    | Rejected _ \<Rightarrow> None
    | DispatchConflict _ _ _ \<Rightarrow> Some OpaqueConcurrencyConflict
    | AggregateNotFound _ \<Rightarrow> Some OpaqueAggregateNotFound
    | DispatchInfrastructure _ \<Rightarrow> Some OpaqueInfrastructure)"

definition store_class :: "store_error \<Rightarrow> opaque_code" where
  "store_class err = (case err of
      Indeterminate _ \<Rightarrow> OpaqueIndeterminate
    | ConcurrencyConflict _ _ _ \<Rightarrow> OpaqueConcurrencyConflict
    | StoreLocked _ \<Rightarrow> OpaqueStoreLocked
    | CorruptData _ \<Rightarrow> OpaqueCorruptData
    | Infrastructure _ \<Rightarrow> OpaqueInfrastructure
    | JoinFailure _ \<Rightarrow> OpaqueInfrastructure)"

definition retry_advised :: "error_response \<Rightarrow> bool" where
  "retry_advised r = (header_get (fst (snd r)) ''retry-after'' \<noteq> None)"

lemmas error_response_simps = map_dispatch_error_def map_store_error_def map_bus_error_def respond_def
  opaque_body_def ErrorBody_opaque_def ErrorBody_domain_def dispatch_class_def store_class_def
  retry_advised_def retry_after_headers_def no_headers_def Let_def

text \<open>
  Retry advice follows the category, with two exceptions: a conflict is retryable and gets none, and
  the failure to join a blocking task is terminal and is answered like an infrastructure failure.
\<close>

lemma store_retry_advice:
  "retry_advised (fst (map_store_error su s)) \<longleftrightarrow>
    StoreError_category s = Retryable \<and> store_class s \<noteq> OpaqueConcurrencyConflict \<or> (\<exists>b. s = JoinFailure b)"
  by (cases s) (simp_all add: error_response_simps)

lemma dispatch_retry_advice:
  "retry_advised (fst (map_dispatch_error su sd e)) \<longleftrightarrow>
    DispatchError_category e = Retryable \<and> dispatch_class e \<noteq> Some OpaqueConcurrencyConflict"
  by (cases e) (simp_all add: error_response_simps)



end
