(* ===== verification/Web_Limits.thy ===== *)
theory Web_Limits
  imports Prelude
begin

text \<open>
  Load shedding at the HTTP edge (\<open>cherry-pit-web/src/middleware/limits.rs\<close>). The tokio semaphore
  is a parameter: the locale \<open>semaphore\<close> states what its documentation promises, and a counter
  satisfies it. Requests arrive, are admitted or shed at once, and give their permit back when the
  inner service ends, is cancelled or panics.
\<close>

section \<open>Semaphores\<close>

record 's semaphore_ops =
  sem_try_acquire :: "'s \<Rightarrow> 's option"
  sem_release :: "'s \<Rightarrow> 's"

locale semaphore =
  fixes ops :: "'s semaphore_ops"
    and available :: "'s \<Rightarrow> nat"
  assumes acquire_none: "available s = 0 \<Longrightarrow> sem_try_acquire ops s = None"
    and acquire_some: "0 < available s \<Longrightarrow> \<exists>s'. sem_try_acquire ops s = Some s' \<and> available s = Suc (available s')"
    and release: "available (sem_release ops s) = Suc (available s)"
begin

lemma acquire_iff: "sem_try_acquire ops s = None \<longleftrightarrow> available s = 0"
  using acquire_none acquire_some by fastforce

lemma acquire_count: "sem_try_acquire ops s = Some s' \<Longrightarrow> available s = Suc (available s')"
  using acquire_none [of s] acquire_some [of s] by (cases "available s") auto

end

definition counter_semaphore :: "nat semaphore_ops" where
  "counter_semaphore = \<lparr>
    sem_try_acquire = (\<lambda>n. case n of 0 \<Rightarrow> None | Suc m \<Rightarrow> Some m),
    sem_release = Suc\<rparr>"

interpretation counter: semaphore counter_semaphore "\<lambda>n. n"
  by unfold_locales (auto simp: counter_semaphore_def split: nat.splits)

section \<open>Limits\<close>

record layer_limits =
  max_body_bytes :: nat
  max_inflight_requests :: nat

definition LayerLimits_permissive_for_tests :: layer_limits where
  "LayerLimits_permissive_for_tests = \<lparr>max_body_bytes = 1024 * 1024 * 1024, max_inflight_requests = 1024\<rparr>"

text \<open>
  One call of the layer: shed with status 503, or the inner service with the permit held.
\<close>

definition http_concurrency_limit ::
  "'s semaphore_ops \<Rightarrow> 's \<Rightarrow> 'resp \<Rightarrow> ('s \<Rightarrow> 's \<times> 'resp) \<Rightarrow> 's \<times> 'resp" where
  "http_concurrency_limit ops sem service_unavailable next_run =
    (case sem_try_acquire ops sem of
      None \<Rightarrow> (sem, service_unavailable)
    | Some sem' \<Rightarrow> (case next_run sem' of (sem'', response) \<Rightarrow> (sem_release ops sem'', response)))"

section \<open>Requests in flight\<close>

record 's http_state =
  http_semaphore :: 's
  in_flight :: "nat list"
  shed :: "nat list"

datatype http_event = Arrives nat | Ends nat

fun http_step :: "'s semaphore_ops \<Rightarrow> http_event \<Rightarrow> 's http_state \<Rightarrow> 's http_state option" where
  "http_step ops (Arrives r) st =
    (case sem_try_acquire ops (http_semaphore st) of
      None \<Rightarrow> Some (st\<lparr>shed := shed st @ [r]\<rparr>)
    | Some sem' \<Rightarrow> Some (st\<lparr>http_semaphore := sem', in_flight := in_flight st @ [r]\<rparr>))"
| "http_step ops (Ends r) st =
    (if r \<in> set (in_flight st)
     then Some (st\<lparr>http_semaphore := sem_release ops (http_semaphore st), in_flight := remove1 r (in_flight st)\<rparr>)
     else None)"

fun http_exec :: "'s semaphore_ops \<Rightarrow> http_event list \<Rightarrow> 's http_state \<Rightarrow> 's http_state option" where
  "http_exec ops [] st = Some st"
| "http_exec ops (ev # evs) st = (case http_step ops ev st of None \<Rightarrow> None | Some st' \<Rightarrow> http_exec ops evs st')"

definition http_start :: "'s \<Rightarrow> 's http_state" where
  "http_start sem = \<lparr>http_semaphore = sem, in_flight = [], shed = []\<rparr>"

context semaphore
begin

lemma http_step_balance:
  assumes "http_step ops ev st = Some st'"
  shows "available (http_semaphore st') + length (in_flight st') = available (http_semaphore st) + length (in_flight st)"
proof (cases ev)
  case (Arrives r)
  then show ?thesis
    using assms acquire_count [of "http_semaphore st"] by (auto split: option.splits)
next
  case (Ends r)
  then have "r \<in> set (in_flight st)" and st': "st' = st\<lparr>http_semaphore := sem_release ops (http_semaphore st), in_flight := remove1 r (in_flight st)\<rparr>"
    using assms by (auto split: if_splits)
  then have "length (in_flight st) = Suc (length (in_flight st'))"
    by (simp add: length_remove1) (metis length_pos_if_in_set Suc_pred)
  then show ?thesis using st' release by simp
qed

lemma http_exec_balance:
  "http_exec ops evs st = Some st' \<Longrightarrow>
    available (http_semaphore st') + length (in_flight st') = available (http_semaphore st) + length (in_flight st)"
proof (induction evs arbitrary: st)
  case (Cons ev evs)
  obtain st1 where "http_step ops ev st = Some st1" "http_exec ops evs st1 = Some st'"
    using Cons.prems by (auto split: option.splits)
  then show ?case using Cons.IH [of st1] http_step_balance [of ev st st1] by simp
qed simp

end

text \<open>
  Load shedding: from a router with \<open>cap\<close> permits, in every order of arrivals and endings, at
  most \<open>cap\<close> requests are in flight, and a request that arrives is shed exactly when \<open>cap\<close> are, so
  never while there is room; a shed request changes nothing else and an admitted one is in flight
  until it ends.
\<close>

theorem in_flight_bounded:
  assumes "semaphore ops available" "available sem = cap" "http_exec ops evs (http_start sem) = Some st"
  shows "length (in_flight st) \<le> cap
    \<and> (\<exists>st'. http_step ops (Arrives r) st = Some st'
      \<and> (if length (in_flight st) = cap then st' = st\<lparr>shed := shed st @ [r]\<rparr>
         else in_flight st' = in_flight st @ [r] \<and> shed st' = shed st))"
proof -
  have balance: "available (http_semaphore st) + length (in_flight st) = cap"
    using semaphore.http_exec_balance [OF assms(1,3)] assms(2) by (simp add: http_start_def)
  show ?thesis
  proof (cases "available (http_semaphore st) = 0")
    case True
    then show ?thesis using balance semaphore.acquire_none [OF assms(1)] by simp
  next
    case False
    then obtain s' where "sem_try_acquire ops (http_semaphore st) = Some s'"
      using semaphore.acquire_some [OF assms(1), of "http_semaphore st"] by auto
    then show ?thesis using balance False by simp
  qed
qed

text \<open>With two permits and two requests in flight a third is shed.\<close>

theorem in_flight_bounded_witness:
  "\<exists>st st'. http_exec counter_semaphore [Arrives 1, Arrives 2] (http_start 2) = Some st \<and> length (in_flight st) = 2
    \<and> http_step counter_semaphore (Arrives 3) st = Some st' \<and> shed st' = [3]"
proof -
  obtain st where st: "http_exec counter_semaphore [Arrives 1, Arrives 2] (http_start 2) = Some st"
      "length (in_flight st) = 2" "shed st = []"
    by (simp add: counter_semaphore_def http_start_def numeral_2_eq_2)
  then show ?thesis
    using in_flight_bounded [OF counter.semaphore_axioms refl st(1), of 3] by auto
qed

end
