(* ===== verification/Web_Router.thy ===== *)
theory Web_Router
  imports Web_Errors Web_Limits Mem_Store
begin

text \<open>
  The command and query routes of \<open>cherry-pit-web/src/router.rs\<close> with the state and the port they
  use (\<open>state.rs\<close>, \<open>command_router.rs\<close>). The consumer's router is a record of its two operations
  over a world that holds gateway and store; the store is any record of event-store operations.
  Matching a request to a route, reading path and body, and the body-size layer belong to axum and
  tower: they are the parameter \<open>extract\<close>, which gives the call or the refusal.
\<close>

section \<open>The consumer's router\<close>

datatype dispatch_outcome = Created aggregate_id | Sent

record ('wire, 'w) command_router =
  router_dispatch :: "correlation_context \<Rightarrow> idempotency_key option \<Rightarrow> 'wire \<Rightarrow> 'w
    \<Rightarrow> (error_response, dispatch_outcome) result \<times> 'w"
  target_aggregate_id :: "'wire \<Rightarrow> aggregate_id option"

record ('wire, 'w, 'e) app_services =
  svc_store :: "('w, 'e) event_store_ops"
  svc_router :: "('wire, 'w) command_router"

section \<open>Bodies\<close>

record 'e loaded_event =
  loaded_event_id :: uuid
  loaded_sequence :: nat
  loaded_event_type :: string
  loaded_payload :: 'e

datatype 'e response_body =
    NoBody
  | CreatedBody aggregate_id
  | LoadedBody aggregate_id "'e loaded_event list"
  | ErrorJson error_body

type_synonym ('e, 'w) response = "header_map \<times> nat \<times> 'e response_body \<times> 'w"

definition misroute :: "(uuid \<Rightarrow> string) \<Rightarrow> correlation_context \<Rightarrow> string \<Rightarrow> error_body" where
  "misroute show_uuid echo msg =
    with_correlation show_uuid echo \<lparr>body_code = ''router_misroute'', body_message = msg, body_correlation_id = None\<rparr>"

section \<open>Create\<close>

definition create_handler ::
  "(string \<Rightarrow> uuid option) \<Rightarrow> (uuid \<Rightarrow> string) \<Rightarrow> ('wire, 'w, 'e) app_services \<Rightarrow> header_map \<Rightarrow> 'wire \<Rightarrow> 'w \<Rightarrow> ('e, 'w) response" where
  "create_handler parse_uuid show_uuid state headers wire w =
    (let ctx = extract_correlation parse_uuid headers;
         idempotency = extract_idempotency_key headers;
         (outcome, w') = router_dispatch (svc_router state) ctx idempotency wire w
     in case outcome of
       Inr (Created i) \<Rightarrow> ([], 201, CreatedBody i, w')
     | Inr Sent \<Rightarrow> ([], 500, ErrorJson (misroute show_uuid ctx ''router returned Sent on create endpoint''), w')
     | Inl (status, h, body) \<Rightarrow> (h, status, ErrorJson body, w'))"

section \<open>Send\<close>

datatype path_body_agreement = Agrees | Mismatch | BodyDeclaresNoTarget

definition PathBodyAgreement_resolve :: "aggregate_id \<Rightarrow> aggregate_id option \<Rightarrow> path_body_agreement" where
  "PathBodyAgreement_resolve path body = (case body of
      Some target \<Rightarrow> if target = path then Agrees else Mismatch
    | None \<Rightarrow> BodyDeclaresNoTarget)"

definition refusal_of :: "path_body_agreement \<Rightarrow> error_body option" where
  "refusal_of a = (case a of
      Agrees \<Rightarrow> None
    | Mismatch \<Rightarrow> Some \<lparr>body_code = ''path_body_target_mismatch'',
        body_message = ''path aggregate id disagrees with the command'' @ [CHR 0x27] @ ''s target aggregate'', body_correlation_id = None\<rparr>
    | BodyDeclaresNoTarget \<Rightarrow> Some \<lparr>body_code = ''path_body_target_absent'',
        body_message = ''command names no target aggregate, so the path aggregate id cannot be confirmed'', body_correlation_id = None\<rparr>)"

definition send_handler ::
  "(string \<Rightarrow> uuid option) \<Rightarrow> (uuid \<Rightarrow> string) \<Rightarrow> ('wire, 'w, 'e) app_services \<Rightarrow> nat \<Rightarrow> header_map \<Rightarrow> 'wire \<Rightarrow> 'w \<Rightarrow> ('e, 'w) response" where
  "send_handler parse_uuid show_uuid state i headers wire w =
    (let ctx = extract_correlation parse_uuid headers in
     case refusal_of (PathBodyAgreement_resolve (AggregateId_new i) (target_aggregate_id (svc_router state) wire)) of
       Some body \<Rightarrow> ([], 400, ErrorJson (with_correlation show_uuid ctx body), w)
     | None \<Rightarrow>
         let idempotency = extract_idempotency_key headers;
             (outcome, w') = router_dispatch (svc_router state) ctx idempotency wire w
         in case outcome of
           Inr Sent \<Rightarrow> ([], 200, NoBody, w')
         | Inr (Created j) \<Rightarrow> ([], 500, ErrorJson (misroute show_uuid ctx
             (''router returned Created('' @ AggregateId_fmt j @ '') on send endpoint'')), w')
         | Inl (status, h, body) \<Rightarrow> (h, status, ErrorJson body, w'))"

section \<open>Load\<close>

definition LoadedEvent_of :: "('e \<Rightarrow> string) \<Rightarrow> 'e event_envelope \<Rightarrow> 'e loaded_event" where
  "LoadedEvent_of event_type env = \<lparr>loaded_event_id = env_event_id env, loaded_sequence = env_sequence env,
    loaded_event_type = event_type (env_payload env), loaded_payload = env_payload env\<rparr>"

definition load_handler ::
  "(uuid \<Rightarrow> string) \<Rightarrow> ('e \<Rightarrow> string) \<Rightarrow> ('wire, 'w, 'e) app_services \<Rightarrow> nat \<Rightarrow> 'w \<Rightarrow> ('e, 'w) response" where
  "load_handler show_uuid event_type state i w =
    (case es_load (svc_store state) (AggregateId_new i) w of
      Inr envelopes \<Rightarrow> ([], 200, LoadedBody (AggregateId_new i) (map (LoadedEvent_of event_type) envelopes), w)
    | Inl err \<Rightarrow> (case fst (map_store_error show_uuid err) of (status, h, body) \<Rightarrow> (h, status, ErrorJson body, w)))"

section \<open>The assembled router\<close>

datatype 'wire v1_call = PostAggregates 'wire | GetAggregate nat | PostCommands nat 'wire

definition v1_routes ::
  "(string \<Rightarrow> uuid option) \<Rightarrow> (uuid \<Rightarrow> string) \<Rightarrow> ('e \<Rightarrow> string) \<Rightarrow> ('wire, 'w, 'e) app_services \<Rightarrow> header_map \<Rightarrow> 'wire v1_call \<Rightarrow> 'w \<Rightarrow> ('e, 'w) response" where
  "v1_routes parse_uuid show_uuid event_type state headers c w = (case c of
      PostAggregates wire \<Rightarrow> create_handler parse_uuid show_uuid state headers wire w
    | GetAggregate i \<Rightarrow> load_handler show_uuid event_type state i w
    | PostCommands i wire \<Rightarrow> send_handler parse_uuid show_uuid state i headers wire w)"

text \<open>
  \<open>extract\<close> sees the body limit: it refuses, answers for the consumer's extra routes, or gives the
  call. The layers from the outside in are the concurrency limit, the body limit and the correlation.
\<close>

definition build_router ::
  "'s semaphore_ops \<Rightarrow> layer_limits \<Rightarrow> (string \<Rightarrow> string option) \<Rightarrow> (string \<Rightarrow> uuid option) \<Rightarrow> (uuid \<Rightarrow> string) \<Rightarrow> ('e \<Rightarrow> string) \<Rightarrow> ('wire, 'w, 'e) app_services
    \<Rightarrow> (nat \<Rightarrow> 'req \<Rightarrow> (header_map \<times> nat) option) \<Rightarrow> ('req \<Rightarrow> ('w \<Rightarrow> ('e, 'w) response) + 'wire v1_call) \<Rightarrow> ('req \<Rightarrow> header_map)
    \<Rightarrow> 's \<Rightarrow> 'req \<Rightarrow> 'w \<Rightarrow> 's \<times> ('e, 'w) response" where
  "build_router ops limits from_str parse_uuid show_uuid event_type state body_limit extract headers_of sem req w =
    http_concurrency_limit ops sem ([], 503, NoBody, w) (\<lambda>sem'. (sem',
      case body_limit (max_body_bytes limits) req of
        Some (h, status) \<Rightarrow> (h, status, NoBody, w)
      | None \<Rightarrow> correlation_layer from_str parse_uuid show_uuid (headers_of req) (\<lambda>_.
          (case extract req of
            Inl answer \<Rightarrow> answer w
          | Inr c \<Rightarrow> v1_routes parse_uuid show_uuid event_type state (headers_of req) c w))))"

section \<open>Routing facts\<close>

text \<open>
  C29. Path and body on the send endpoint are two authorities over one identity and neither wins: the
  command is dispatched, once and with the context of the request, exactly when the body names the
  aggregate of the path. Otherwise the answer is 400 with a code that tells a mismatch from an
  absent target, and nothing at all has happened. The statuses of a dispatched command follow the
  outcome, and an outcome of the wrong kind is a server error.
\<close>

theorem send_dispatches_iff_agreed:
  assumes "send_handler parse_uuid show_uuid state i headers wire w = (h, status, body, w')"
    and "router_dispatch (svc_router state) (extract_correlation parse_uuid headers) (extract_idempotency_key headers) wire w = (outcome, w1)"
  shows "case target_aggregate_id (svc_router state) wire of
      None \<Rightarrow> status = 400 \<and> w' = w \<and> (\<exists>b. body = ErrorJson b \<and> body_code b = ''path_body_target_absent'')
    | Some target \<Rightarrow>
        if target \<noteq> AggregateId i
        then status = 400 \<and> w' = w \<and> (\<exists>b. body = ErrorJson b \<and> body_code b = ''path_body_target_mismatch'')
        else w' = w1 \<and> (case outcome of
            Inr Sent \<Rightarrow> status = 200 \<and> body = NoBody
          | Inr (Created j) \<Rightarrow> status = 500 \<and> (\<exists>b. body = ErrorJson b \<and> body_code b = ''router_misroute'')
          | Inl (s, eh, b) \<Rightarrow> status = s \<and> h = eh \<and> body = ErrorJson b)"
  using assms
  by (cases "target_aggregate_id (svc_router state) wire"; cases outcome)
    (auto simp: send_handler_def PathBodyAgreement_resolve_def refusal_of_def with_correlation_def misroute_def
      AggregateId_new_def split: dispatch_outcome.splits)

definition sample_router :: "(nat, nat) command_router" where
  "sample_router = \<lparr>router_dispatch = (\<lambda>ctx key wire w. (Ok Sent, w + wire)), target_aggregate_id = (\<lambda>wire. Some (AggregateId wire))\<rparr>"

definition sample_services :: "(nat, nat, nat) app_services" where
  "sample_services = \<lparr>svc_store = \<lparr>es_load = (\<lambda>_ _. Ok []), es_create = (\<lambda>_ _ w. (Err (StoreLocked []), w)),
    es_append = (\<lambda>_ _ _ _ w. (Err (StoreLocked []), w))\<rparr>, svc_router = sample_router\<rparr>"

text \<open>A command for aggregate 5 sent to the path of 5 is dispatched, sent to the path of 6 it is refused.\<close>

theorem send_dispatches_iff_agreed_witness:
  "(\<exists>h body. send_handler (\<lambda>_. None) show_nat sample_services 5 [] 5 100 = (h, 200, body, 105))
    \<and> (\<exists>h body. send_handler (\<lambda>_. None) show_nat sample_services 6 [] 5 100 = (h, 400, body, 100))"
proof -
  have d: "router_dispatch (svc_router sample_services) (extract_correlation (\<lambda>_. None) []) (extract_idempotency_key []) 5 100 = (Ok Sent, 105)"
    by (simp add: sample_services_def sample_router_def)
  have t: "target_aggregate_id (svc_router sample_services) 5 = Some (AggregateId 5)"
    by (simp add: sample_services_def sample_router_def)
  obtain h status body w' where s: "send_handler (\<lambda>_. None) show_nat sample_services 5 [] 5 100 = (h, status, body, w')"
    by (cases "send_handler (\<lambda>_. None) show_nat sample_services 5 [] 5 100") auto
  obtain h2 status2 body2 w2 where s2: "send_handler (\<lambda>_. None) show_nat sample_services 6 [] 5 100 = (h2, status2, body2, w2)"
    by (cases "send_handler (\<lambda>_. None) show_nat sample_services 6 [] 5 100") auto
  show ?thesis
    using send_dispatches_iff_agreed [OF s d] send_dispatches_iff_agreed [OF s2 d] s s2 t by simp
qed

text \<open>
  C30. Reading over HTTP, on the in-memory store: the answer for any aggregate is 200 with the events
  of its history in order, with their ids, sequence numbers from one and payloads; an aggregate that
  does not exist has none, and is no error. Right after a creation it lists exactly the created
  events, and the route changes nothing.
\<close>

theorem load_route_shows_history:
  assumes "mem_inv v7 w" "svc_store state = mem_ops v7 ts"
  shows "load_handler show_uuid event_type state i w =
      ([], 200, LoadedBody (AggregateId i) (map (LoadedEvent_of event_type) (mem_stream w (AggregateId i))), w)
    \<and> map loaded_sequence (map (LoadedEvent_of event_type) (mem_stream w (AggregateId i))) = [1..<Suc (length (mem_stream w (AggregateId i)))]
    \<and> (mem_create v7 ts evs ctx w = (Ok (AggregateId i, envs), w') \<longrightarrow>
      load_handler show_uuid event_type state i w' = ([], 200, LoadedBody (AggregateId i) (map (LoadedEvent_of event_type) envs), w')
      \<and> map loaded_payload (map (LoadedEvent_of event_type) envs) = evs)"
proof -
  have load: "load_handler show_uuid event_type state i u =
      ([], 200, LoadedBody (AggregateId i) (map (LoadedEvent_of event_type) (mem_stream u (AggregateId i))), u)"
    if "mem_inv v7 u" for u
    using assms(2) mem_load_eq [OF that] by (simp add: load_handler_def mem_ops_def AggregateId_new_def)
  have fields: "map loaded_sequence (map (LoadedEvent_of event_type) es) = map env_sequence es"
    "map loaded_payload (map (LoadedEvent_of event_type) es) = map env_payload es" for es :: "'a event_envelope list"
    by (simp_all add: LoadedEvent_of_def)
  have "map env_sequence (mem_stream w (AggregateId i)) = [1..<Suc (length (mem_stream w (AggregateId i)))]"
    using mem.stream_valid [OF assms(1), of "AggregateId i"] by (simp add: valid_stream_def)
  moreover have "load_handler show_uuid event_type state i w' = ([], 200, LoadedBody (AggregateId i) (map (LoadedEvent_of event_type) envs), w')
      \<and> map env_payload envs = evs" if c: "mem_create v7 ts evs ctx w = (Ok (AggregateId i, envs), w')"
  proof -
    have "mem_inv v7 w'" using mem.create_inv [OF assms(1), of ts evs ctx] c by (simp add: mem_ops_def)
    moreover have "mem_stream w' (AggregateId i) = envs" "records evs ctx envs"
      using mem.create_ok [OF assms(1), of ts evs ctx] c by (simp_all add: mem_ops_def)
    ultimately show ?thesis using load by (simp add: records_def)
  qed
  ultimately show ?thesis using load [OF assms(1)] by (simp only: fields) blast
qed

definition sample_mem_services :: "(nat, bool mem_world, bool) app_services" where
  "sample_mem_services = \<lparr>svc_store = mem_ops Suc (\<lambda>_. 0),
    svc_router = \<lparr>router_dispatch = (\<lambda>_ _ _ w. (Ok Sent, w)), target_aggregate_id = (\<lambda>_. None)\<rparr>\<rparr>"

text \<open>The one event of aggregate 1, and no event for aggregate 9.\<close>

theorem load_route_shows_history_witness:
  "(\<exists>e. load_handler show_nat (\<lambda>_. ''e'') sample_mem_services 1 one_event_store
      = ([], 200, LoadedBody (AggregateId 1) [e], one_event_store) \<and> loaded_sequence e = 1)
    \<and> mem_stream one_event_store (AggregateId 9) = []
    \<and> load_handler show_nat (\<lambda>_. ''e'') sample_mem_services 9 one_event_store
      = ([], 200, LoadedBody (AggregateId 9) [], one_event_store)"
proof -
  have st: "svc_store sample_mem_services = mem_ops Suc (\<lambda>_. 0)" by (simp add: sample_mem_services_def)
  obtain env where one: "mem_stream one_event_store (AggregateId 1) = [env]"
    using one_event_store_length by (auto simp: length_Suc_conv)
  have none: "mem_stream one_event_store (AggregateId 9) = []"
    by (simp add: one_event_store_def mem_run_def mem_eval mem_stream_def stream_of_def)
  show ?thesis
    using load_route_shows_history [OF one_event_store_inv st, of show_nat "\<lambda>_. ''e''" 1]
      load_route_shows_history [OF one_event_store_inv st, of show_nat "\<lambda>_. ''e''" 9] one none
    by simp
qed

text \<open>
  The layers of the router. When no permit is free the answer is 503 and the world is as it was.
  Otherwise the permit is returned, a request refused for its size changes nothing, and any other
  answer is that of the handler with its status, body and world, carrying the correlation id of the
  request when it has one and no such header of the router's own when it has none.
\<close>

theorem router_layers:
  assumes "semaphore ops available"
    and "header_value_contract from_str" "\<forall>i. list_all (\<lambda>c. 32 \<le> (of_char c :: nat) \<and> (of_char c :: nat) < 127) (show_uuid i)"
    and "build_router ops limits from_str parse_uuid show_uuid event_type state body_limit extract headers_of sem req w
      = (sem', h, status, body, w')"
    and "(case extract req of Inl answer \<Rightarrow> answer w
      | Inr c \<Rightarrow> v1_routes parse_uuid show_uuid event_type state (headers_of req) c w) = (h0, status0, body0, w0)"
  shows "available sem' = available sem \<and>
    (if available sem = 0 then status = 503 \<and> w' = w
     else case body_limit (max_body_bytes limits) req of
       Some (bh, bs) \<Rightarrow> status = bs \<and> w' = w
     | None \<Rightarrow> status = status0 \<and> body = body0 \<and> w' = w0
         \<and> (case correlation_id (extract_correlation parse_uuid (headers_of req)) of
             Some c \<Rightarrow> header_get_all h ''x-correlation-id'' = [show_uuid c]
           | None \<Rightarrow> h = h0))"
proof (cases "available sem = 0")
  case True
  then show ?thesis
    using assms(4) semaphore.acquire_none [OF assms(1) True] by (auto simp: build_router_def http_concurrency_limit_def)
next
  case False
  then obtain s1 where s1: "sem_try_acquire ops sem = Some s1" "available sem = Suc (available s1)"
    using semaphore.acquire_some [OF assms(1), of sem] by auto
  then have "sem' = sem_release ops s1"
    using assms(4) by (simp add: build_router_def http_concurrency_limit_def)
  then have avail: "available sem' = available sem" using semaphore.release [OF assms(1)] s1(2) by simp
  show ?thesis
  proof (cases "body_limit (max_body_bytes limits) req")
    case None
    have eq: "(h, status, body, w') = correlation_layer from_str parse_uuid show_uuid (headers_of req) (\<lambda>_. (h0, status0, body0, w0))"
      using assms(4) s1(1) None unfolding build_router_def http_concurrency_limit_def assms(5) by simp
    have shown: "\<forall>i. from_str (show_uuid i) = Some (show_uuid i)" using assms(2,3) by (simp add: header_value_contract_def)
    show ?thesis
      using eq avail False None shown by (auto simp: correlation_layer_def Let_def header_get_all_insert split: option.splits)
  next
    case (Some r)
    then show ?thesis
      using assms(4) s1(1) avail False by (cases r) (auto simp: build_router_def http_concurrency_limit_def)
  qed
qed

theorem router_layers_witness:
  "\<exists>sem' h status body w'. build_router counter_semaphore LayerLimits_permissive_for_tests printable_header_value (\<lambda>_. Some 7) (\<lambda>_. ''7'') show_nat sample_services
      (\<lambda>_ _. None) (\<lambda>r. Inr (PostCommands 5 r)) (\<lambda>_. [(''x-correlation-id'', ''7'')]) 1 5 100 = (sem', h, status, body, w')
    \<and> status = 200 \<and> w' = 105 \<and> header_get_all h ''x-correlation-id'' = [''7'']"
proof -
  let ?hs = "[(''x-correlation-id'', ''7'')]"
  have ok: "\<forall>i :: uuid. list_all (\<lambda>c. 32 \<le> (of_char c :: nat) \<and> (of_char c :: nat) < 127) ''7''" by simp
  have ctx: "correlation_id (extract_correlation (\<lambda>_. Some 7) ?hs) = Some 7"
    by (simp add: extract_correlation_def header_get_def header_text_def CorrelationContext_correlated_def)
  obtain h0 st0 b0 w0 where inner: "send_handler (\<lambda>_. Some 7) (\<lambda>_. ''7'') sample_services 5 ?hs 5 100 = (h0, st0, b0, w0)"
      "st0 = 200" "w0 = 105"
    by (simp add: send_handler_def sample_services_def sample_router_def PathBodyAgreement_resolve_def refusal_of_def AggregateId_new_def)
  obtain sem' h status body w' where call: "build_router counter_semaphore LayerLimits_permissive_for_tests printable_header_value (\<lambda>_. Some 7) (\<lambda>_. ''7'') show_nat
      sample_services (\<lambda>_ _. None) (\<lambda>r. Inr (PostCommands 5 r)) (\<lambda>_. ?hs) 1 5 100 = (sem', h, status, body, w')"
    by (metis prod.exhaust)
  show ?thesis
    using router_layers [OF counter.semaphore_axioms printable_header_value_contract ok call, of h0 st0 b0 w0] inner ctx call by (simp add: v1_routes_def)
qed

end
