(* ===== verification/Web_Pages.thy ===== *)
theory Web_Pages
  imports Web_Headers
begin

text \<open>
  The read surface over a projection (\<open>cherry-pit-web/src/projection/\<close>): cached pages
  (\<open>state.rs\<close>), page lookup, page responses and probes (\<open>handlers.rs\<close>). Bodies are byte strings.
  SHA-256, zstd and percent decoding are parameters. A response is its status, the headers the code
  sets and its body; what axum adds (a content type for plain text, an empty body for \<open>HEAD\<close>) is
  left out.
\<close>

section \<open>Content types\<close>

definition file_ext :: "string \<Rightarrow> string option" where
  "file_ext filename = (case rsplit_once (CHR ''.'') filename of
      Some (before, after) \<Rightarrow> if before = [] then None else Some after
    | None \<Rightarrow> None)"

definition ext_table :: "(string \<times> string \<times> bool) list" where
  "ext_table = [
    (''html'', ''text/html; charset=utf-8'', True),
    (''css'', ''text/css; charset=utf-8'', True),
    (''js'', ''text/javascript; charset=utf-8'', True),
    (''mjs'', ''text/javascript; charset=utf-8'', True),
    (''json'', ''application/json; charset=utf-8'', True),
    (''map'', ''application/json; charset=utf-8'', True),
    (''xml'', ''application/xml; charset=utf-8'', True),
    (''svg'', ''image/svg+xml'', True),
    (''txt'', ''text/plain; charset=utf-8'', True),
    (''png'', ''image/png'', False),
    (''jpg'', ''image/jpeg'', False),
    (''jpeg'', ''image/jpeg'', False),
    (''gif'', ''image/gif'', False),
    (''webp'', ''image/webp'', False),
    (''avif'', ''image/avif'', False),
    (''ico'', ''image/x-icon'', False),
    (''woff'', ''font/woff'', False),
    (''woff2'', ''font/woff2'', False),
    (''ttf'', ''font/ttf'', False),
    (''otf'', ''font/otf'', False),
    (''wasm'', ''application/wasm'', False)]"

definition lookup_ext :: "string option \<Rightarrow> (string \<times> bool) option" where
  "lookup_ext ext = (case ext of None \<Rightarrow> None | Some e \<Rightarrow> map_of ext_table (to_ascii_lowercase e))"

definition content_type_for_ext :: "string option \<Rightarrow> string" where
  "content_type_for_ext ext = (case lookup_ext ext of Some (ct, _) \<Rightarrow> ct | None \<Rightarrow> ''application/octet-stream'')"

definition is_compressible_ext :: "string option \<Rightarrow> bool" where
  "is_compressible_ext ext = (case lookup_ext ext of Some (_, compressible) \<Rightarrow> compressible | None \<Rightarrow> False)"

definition content_length_header :: "nat \<Rightarrow> string" where
  "content_length_header len = show_nat len"

section \<open>Pages\<close>

record page_entry =
  pe_body :: string
  pe_body_zstd :: "string option"
  pe_content_type :: string
  pe_etag :: string
  pe_content_length :: string
  pe_content_length_zstd :: "string option"

definition PageEntry_new :: "(string \<Rightarrow> nat list) \<Rightarrow> (string \<Rightarrow> string option) \<Rightarrow> string \<Rightarrow> string \<Rightarrow> page_entry" where
  "PageEntry_new sha256 encode_all filename body =
    (let ext = file_ext filename;
         body_zstd = (if is_compressible_ext ext then compress_zstd encode_all body else None)
     in \<lparr>pe_body = body, pe_body_zstd = body_zstd, pe_content_type = content_type_for_ext ext,
         pe_etag = compute_etag sha256 body, pe_content_length = content_length_header (length body),
         pe_content_length_zstd = map_option (\<lambda>b. content_length_header (length b)) body_zstd\<rparr>)"

type_synonym http_response = "nat \<times> header_map \<times> string"

definition wants_zstd :: "header_map \<Rightarrow> bool" where
  "wants_zstd request_headers = (case header_get request_headers ''accept-encoding'' of
    Some h \<Rightarrow> negotiate_encoding h = Zstd | None \<Rightarrow> False)"

text \<open>Bytes, content encoding and content length.\<close>

definition negotiated_body :: "page_entry \<Rightarrow> header_map \<Rightarrow> string \<times> string option \<times> string option" where
  "negotiated_body page request_headers =
    (case (if wants_zstd request_headers then pe_body_zstd page else None) of
      Some zstd_body \<Rightarrow> (zstd_body, Some ''zstd'', pe_content_length_zstd page)
    | None \<Rightarrow> (pe_body page, None, Some (pe_content_length page)))"

definition insert_opt :: "string \<Rightarrow> string option \<Rightarrow> header_map \<Rightarrow> header_map" where
  "insert_opt name val headers = (case val of Some v \<Rightarrow> header_insert name v headers | None \<Rightarrow> headers)"

definition serve_page :: "page_entry \<Rightarrow> header_map \<Rightarrow> nat \<Rightarrow> http_response" where
  "serve_page page request_headers status =
    (let vary = insert_opt ''vary'' (if pe_body_zstd page \<noteq> None then Some ''Accept-Encoding'' else None)
     in if if_none_match_matches request_headers (pe_etag page)
        then (304, vary (header_insert ''cache-control'' ''no-cache'' (header_insert ''etag'' (pe_etag page) [])), [])
        else case negotiated_body page request_headers of
          (body_bytes, content_encoding, content_length) \<Rightarrow>
            (status, vary (insert_opt ''content-encoding'' content_encoding (insert_opt ''content-length'' content_length
              (header_insert ''cache-control'' ''no-cache'' (header_insert ''etag'' (pe_etag page)
                (header_insert ''content-type'' (pe_content_type page) []))))), body_bytes))"

section \<open>Lookup\<close>

definition trim_end_slashes :: "string \<Rightarrow> string" where
  "trim_end_slashes s = rev (dropWhile (\<lambda>c. c = CHR ''/'') (rev s))"

definition ends_with :: "string \<Rightarrow> string \<Rightarrow> bool" where
  "ends_with tail s = (strip_suffix tail s \<noteq> None)"

definition no_extension :: "string \<Rightarrow> bool" where
  "no_extension trimmed = (CHR ''.'' \<notin> set (last (split_on (CHR ''/'') trimmed)))"

definition resolve_page :: "(string \<times> 'p) list \<Rightarrow> string \<Rightarrow> 'p option" where
  "resolve_page snapshot key =
    (case hm_get snapshot key of
      Some page \<Rightarrow> Some page
    | None \<Rightarrow>
        let trimmed = trim_end_slashes key;
            trailing_slash = (ends_with ''/'' key \<and> 1 < length key);
            no_ext = no_extension trimmed;
            by_index = (if (trailing_slash \<or> no_ext) \<and> trimmed \<noteq> ''index.html'' \<and> \<not> ends_with ''/index.html'' trimmed
              then hm_get snapshot (if trimmed = [] then ''index.html'' else trimmed @ ''/index.html'') else None)
        in case by_index of
          Some page \<Rightarrow> Some page
        | None \<Rightarrow> if \<not> trailing_slash \<and> no_ext \<and> trimmed \<noteq> [] then hm_get snapshot (trimmed @ ''.html'') else None)"

section \<open>Handlers\<close>

record http_request =
  req_method :: string
  req_path :: string
  req_headers :: header_map

record page_source =
  ps_snapshot :: "(string \<times> page_entry) list option"
  ps_is_ready :: bool

definition method_not_allowed :: http_response where
  "method_not_allowed = (405, [(''allow'', ''GET, HEAD'')], ''method not allowed'')"

definition snapshot_get :: "(string \<Rightarrow> string option) \<Rightarrow> page_source \<Rightarrow> http_request \<Rightarrow> http_response" where
  "snapshot_get percent_decode state request =
    (if req_method request \<noteq> ''GET'' \<and> req_method request \<noteq> ''HEAD'' then method_not_allowed
     else case ps_snapshot state of
       None \<Rightarrow> (503, [], ''snapshot not yet available'')
     | Some snapshot \<Rightarrow>
         let stripped = (case strip_prefix ''/v1'' (req_path request) of Some s \<Rightarrow> s | None \<Rightarrow> req_path request) in
         case normalize_request_path percent_decode stripped of
           None \<Rightarrow> (404, [], ''not found'')
         | Some normalized \<Rightarrow>
             (case resolve_page snapshot (np_key normalized) of
               None \<Rightarrow> (404, [], ''not found'')
             | Some page \<Rightarrow> serve_page page (req_headers request) 200))"

definition quoted :: "string \<Rightarrow> string" where
  "quoted s = [CHR 0x22] @ s @ [CHR 0x22]"

definition probe_body :: "string \<Rightarrow> string" where
  "probe_body status = ''{'' @ quoted ''v'' @ '':1,'' @ quoted ''status'' @ '':'' @ quoted status @ ''}''"

definition healthz :: http_response where
  "healthz = (200, [(''content-type'', ''application/json'')], probe_body ''ok'')"

definition readyz :: "page_source \<Rightarrow> http_response" where
  "readyz state = (if ps_is_ready state
    then (200, [(''content-type'', ''application/json'')], probe_body ''ready'')
    else (503, [(''content-type'', ''application/json'')], probe_body ''not_ready''))"

definition projection_default_csp :: "http_response \<Rightarrow> http_response" where
  "projection_default_csp response = (case response of (status, headers, body) \<Rightarrow>
    (status, if header_get headers ''content-security-policy'' = None
      then header_insert ''content-security-policy'' DEFAULT_CSP headers else headers, body))"

section \<open>What a page response carries\<close>

text \<open>
  The documented behaviour of zstd: what was compressed decompresses to itself, up to the number of
  bytes asked for, and no more is ever produced.
\<close>

definition zstd_contract :: "(string \<Rightarrow> string option) \<Rightarrow> (nat \<Rightarrow> string \<Rightarrow> string option) \<Rightarrow> bool" where
  "zstd_contract encode_all decode_up_to \<longleftrightarrow>
    (\<forall>b z n. encode_all b = Some z \<longrightarrow> decode_up_to n z = Some (take n b))
    \<and> (\<forall>n z out. decode_up_to n z = Some out \<longrightarrow> length out \<le> n)"

definition decodes_to :: "(nat \<Rightarrow> string \<Rightarrow> string option) \<Rightarrow> header_map \<Rightarrow> string \<Rightarrow> string \<Rightarrow> bool" where
  "decodes_to decode_up_to headers sent body \<longleftrightarrow>
    (case header_get headers ''content-encoding'' of
      None \<Rightarrow> sent = body
    | Some enc \<Rightarrow> enc = ''zstd'' \<and> (\<forall>n. length body \<le> n \<longrightarrow> decode_up_to n sent = Some body))"

lemma header_get_insert_opt [simp]:
  "header_get (insert_opt n v h) m = (if m = n \<and> v \<noteq> None then v else header_get h m)"
  by (cases v) (auto simp: insert_opt_def)

lemma PageEntry_new_fields [simp]:
  "pe_body (PageEntry_new sha256 encode_all filename body) = body"
  "pe_etag (PageEntry_new sha256 encode_all filename body) = compute_etag sha256 body"
  "pe_content_type (PageEntry_new sha256 encode_all filename body) = content_type_for_ext (file_ext filename)"
  "pe_content_length (PageEntry_new sha256 encode_all filename body) = show_nat (length body)"
  "pe_content_length_zstd (PageEntry_new sha256 encode_all filename body)
    = map_option (\<lambda>z. show_nat (length z)) (pe_body_zstd (PageEntry_new sha256 encode_all filename body))"
  by (simp_all add: PageEntry_new_def Let_def content_length_header_def)

lemma PageEntry_zstd_decodes:
  assumes "zstd_contract encode_all decode_up_to" "pe_body_zstd (PageEntry_new sha256 encode_all filename body) = Some z"
  shows "length body \<le> n \<Longrightarrow> decode_up_to n z = Some body"
proof -
  have "encode_all body = Some z" using assms(2) by (auto simp: PageEntry_new_def Let_def compress_zstd_def split: if_splits)
  then have "decode_up_to n z = Some (take n body)" for n using assms(1) by (simp add: zstd_contract_def)
  then show "length body \<le> n \<Longrightarrow> decode_up_to n z = Some body" by simp
qed

lemma PageEntry_zstd_iff:
  "pe_body_zstd (PageEntry_new sha256 encode_all filename body)
    = (if is_compressible_ext (file_ext filename) \<and> length body \<le> MAX_PRECOMPRESS_BYTES then encode_all body else None)"
  by (simp add: PageEntry_new_def Let_def compress_zstd_def)

text \<open>
  C32. A page response. Every answer for a page carries the entity tag of its body and asks caches to
  revalidate. It carries \<open>Vary: Accept-Encoding\<close>, on 304 too, exactly when the page has a compressed
  form, which it has when its extension is compressible, its body is within the limit of compression
  ahead of time and the compressor succeeded. It is 304 with no body exactly when the request names
  the tag. Otherwise it has the status asked for and the type
  of the extension; it names zstd exactly when the client negotiated it and the page has a
  compressed form; the bytes sent decode under the named encoding to the body; and the announced
  length is the number of bytes sent.
\<close>

theorem page_response:
  assumes "zstd_contract encode_all decode_up_to"
    and "serve_page (PageEntry_new sha256 encode_all filename body) request_headers status = (st, h, sent)"
    and "has_compressed =
      (is_compressible_ext (file_ext filename) \<and> length body \<le> MAX_PRECOMPRESS_BYTES \<and> encode_all body \<noteq> None)"
  shows "header_get h ''etag'' = Some (compute_etag sha256 body)
    \<and> header_get h ''cache-control'' = Some ''no-cache''
    \<and> header_get h ''vary'' = (if has_compressed then Some ''Accept-Encoding'' else None)
    \<and> (if if_none_match_matches request_headers (compute_etag sha256 body) then st = 304 \<and> sent = []
       else st = status \<and> decodes_to decode_up_to h sent body
         \<and> header_get h ''content-type'' = Some (content_type_for_ext (file_ext filename))
         \<and> header_get h ''content-length'' = Some (show_nat (length sent))
         \<and> header_get h ''content-encoding'' = (if has_compressed
             \<and> (\<exists>a. header_get request_headers ''accept-encoding'' = Some a \<and> negotiate_encoding a = Zstd)
           then Some ''zstd'' else None))"
proof -
  define page where "page = PageEntry_new sha256 encode_all filename body"
  have fields: "pe_body page = body" "pe_etag page = compute_etag sha256 body" "pe_content_length page = show_nat (length body)"
    "pe_content_length_zstd page = map_option (\<lambda>z. show_nat (length z)) (pe_body_zstd page)"
    "pe_content_type page = content_type_for_ext (file_ext filename)"
    by (simp_all add: page_def)
  have compressed: "has_compressed \<longleftrightarrow> pe_body_zstd page \<noteq> None"
    unfolding page_def PageEntry_zstd_iff assms(3) by auto
  have resp: "serve_page page request_headers status = (st, h, sent)" using assms(2) by (simp add: page_def)
  have wants: "(\<exists>a. header_get request_headers ''accept-encoding'' = Some a \<and> negotiate_encoding a = Zstd)
      \<longleftrightarrow> wants_zstd request_headers"
    by (auto simp: wants_zstd_def split: option.splits)
  have "\<forall>n. length body \<le> n \<longrightarrow> decode_up_to n z = Some body" if "pe_body_zstd page = Some z" for z
    using PageEntry_zstd_decodes [OF assms(1)] that unfolding page_def by blast
  then show ?thesis
    unfolding compressed wants using resp fields
    by (cases "if_none_match_matches request_headers (compute_etag sha256 body)"; cases "wants_zstd request_headers";
        cases "pe_body_zstd page") (auto simp: serve_page_def negotiated_body_def decodes_to_def)
qed

text \<open>A stand-in for zstd that satisfies the contract: the identity.\<close>

lemma identity_zstd_contract: "zstd_contract Some (\<lambda>n z. Some (take n z))"
  by (auto simp: zstd_contract_def)

theorem page_response_witness:
  "case serve_page (PageEntry_new (\<lambda>b. map of_char b) Some ''a.html'' ''hi'') [(''accept-encoding'', ''zstd'')] 200 of
    (st, h, sent) \<Rightarrow> st = 200 \<and> header_get h ''content-length'' = Some (show_nat (length sent))
      \<and> header_get h ''vary'' = Some ''Accept-Encoding'' \<and> header_get h ''content-encoding'' = Some ''zstd''
      \<and> decodes_to (\<lambda>n z. Some (take n z)) h sent ''hi''"
proof -
  obtain st h sent where r: "serve_page (PageEntry_new (\<lambda>b. map of_char b) Some ''a.html'' ''hi'') [(''accept-encoding'', ''zstd'')] 200
      = (st, h, sent)" by (metis prod.exhaust)
  have "\<not> if_none_match_matches [(''accept-encoding'', ''zstd'')] tag" for tag
    by (simp add: if_none_match_iff header_get_all_def)
  moreover have "is_compressible_ext (file_ext ''a.html'')" by code_simp
  moreover have "negotiate_encoding ''zstd'' = Zstd" by code_simp
  ultimately show ?thesis using page_response [OF identity_zstd_contract r refl] r
    by (simp add: header_get_def MAX_PRECOMPRESS_BYTES_def)
qed

section \<open>Revalidation\<close>

lemma hex_char_visible:
  assumes "d < 16"
  shows "32 < (of_char (hex_char d) :: nat)" "(of_char (hex_char d) :: nat) < 127" "hex_char d \<noteq> CHR '',''"
  using hex_char_code [OF assms] assms by (auto split: if_splits)

lemma hex_bytes_visible:
  assumes "\<forall>b \<in> set bs. b < 256" "c \<in> set (concat (map hex_byte bs))"
  shows "32 < (of_char c :: nat) \<and> (of_char c :: nat) < 127 \<and> c \<noteq> CHR '',''"
proof -
  obtain b where "b < 256" "c = hex_char (b div 16) \<or> c = hex_char (b mod 16)"
    using assms by (auto simp: hex_byte_def)
  moreover from this have "b div 16 < 16" by simp
  ultimately show ?thesis using hex_char_visible [of "b div 16"] hex_char_visible [of "b mod 16"] by auto
qed

lemma compute_etag_text:
  assumes "\<forall>b \<in> set (sha256 body). b < 256"
  shows "header_text (compute_etag sha256 body) = Some (compute_etag sha256 body)"
    "split_on (CHR '','') (compute_etag sha256 body) = [compute_etag sha256 body]"
    "trim (compute_etag sha256 body) = compute_etag sha256 body"
proof -
  have "\<forall>b \<in> set (take 16 (sha256 body)). b < 256" using assms by (meson in_set_takeD)
  then have vis: "c \<in> set (concat (map hex_byte (take 16 (sha256 body)))) \<Longrightarrow>
      32 < (of_char c :: nat) \<and> (of_char c :: nat) < 127 \<and> c \<noteq> CHR '',''" for c
    by (rule hex_bytes_visible)
  show "header_text (compute_etag sha256 body) = Some (compute_etag sha256 body)"
    using vis unfolding header_text_def compute_etag_def by fastforce
  have "CHR '','' \<notin> set (compute_etag sha256 body)"
    using vis [of "CHR '',''"] by (auto simp: compute_etag_def)
  then show "split_on (CHR '','') (compute_etag sha256 body) = [compute_etag sha256 body]"
    by (rule split_on_none)
  show "trim (compute_etag sha256 body) = compute_etag sha256 body"
    by (simp add: compute_etag_def trim_def trim_start_def is_whitespace_def)
qed

lemma etag_match_iff:
  assumes "\<forall>b \<in> set (sha256 b1). b < 256" "\<forall>b \<in> set (sha256 b2). b < 256"
  shows "etag_weak_match (compute_etag sha256 b1) (compute_etag sha256 b2) \<longleftrightarrow> take 16 (sha256 b1) = take 16 (sha256 b2)"
proof -
  have "strip_weak (compute_etag sha256 x) = [CHR 0x22] @ concat (map hex_byte (take 16 (sha256 x))) @ [CHR 0x22]" for x
    by (simp add: strip_weak_def compute_etag_def strip_prefix_def)
  moreover have "compute_etag sha256 b1 \<noteq> ''*''" by (simp add: compute_etag_def)
  moreover have "\<forall>b \<in> set (take 16 (sha256 b1)). b < 256" "\<forall>b \<in> set (take 16 (sha256 b2)). b < 256"
    using assms by (meson in_set_takeD)+
  ultimately show ?thesis
    using hex_bytes_inj [of "take 16 (sha256 b1)" "take 16 (sha256 b2)"] unfolding etag_weak_match_def by auto
qed

text \<open>
  Revalidation. A client that holds the tag of the body it got and sends it back is told 304
  exactly as long as the truncated digests of that body and of the published one agree: never when
  the page is unchanged is it sent again, and a changed page is withheld only if the first 16 bytes
  of the two SHA-256 digests collide.
\<close>

theorem revalidation:
  assumes "\<forall>body. \<forall>b \<in> set (sha256 body). b < 256"
    and "header_get_all request_headers ''if-none-match'' = [compute_etag sha256 held]"
  shows "fst (serve_page (PageEntry_new sha256 encode_all filename published) request_headers 200) =
    (if take 16 (sha256 held) = take 16 (sha256 published) then 304 else 200)"
proof -
  have bytes: "\<forall>b \<in> set (sha256 held). b < 256" "\<forall>b \<in> set (sha256 published). b < 256" using assms(1) by blast+
  have "if_none_match_matches request_headers (compute_etag sha256 published) \<longleftrightarrow>
      etag_weak_match (compute_etag sha256 held) (compute_etag sha256 published)"
    using compute_etag_text [of sha256 held, OF bytes(1)] unfolding if_none_match_iff assms(2) by simp
  then have "if_none_match_matches request_headers (compute_etag sha256 published) \<longleftrightarrow>
      take 16 (sha256 held) = take 16 (sha256 published)"
    using etag_match_iff [of sha256 held published, OF bytes] by simp
  moreover have "fst (serve_page (PageEntry_new sha256 encode_all filename published) request_headers 200) =
      (if if_none_match_matches request_headers (compute_etag sha256 published) then 304 else 200)"
    by (simp add: serve_page_def split_beta Let_def)
  ultimately show ?thesis by simp
qed

theorem revalidation_witness:
  "fst (serve_page (PageEntry_new (\<lambda>b. map of_char b) Some ''a.html'' ''new'')
      [(''if-none-match'', compute_etag (\<lambda>b. map of_char b) ''old'')] 200) = 200
    \<and> fst (serve_page (PageEntry_new (\<lambda>b. map of_char b) Some ''a.html'' ''old'')
      [(''if-none-match'', compute_etag (\<lambda>b. map of_char b) ''old'')] 200) = 304"
proof -
  have bytes: "\<forall>body. \<forall>b \<in> set (map of_char body :: nat list). b < 256" by auto
  show ?thesis
    using revalidation [OF bytes, of "[(''if-none-match'', compute_etag (\<lambda>b. map of_char b) ''old'')]" "''old''" Some "''a.html''" "''new''"]
      revalidation [OF bytes, of "[(''if-none-match'', compute_etag (\<lambda>b. map of_char b) ''old'')]" "''old''" Some "''a.html''" "''old''"]
    by (simp add: header_get_all_def)
qed

section \<open>Which page is served\<close>

definition candidate_keys :: "string \<Rightarrow> string list" where
  "candidate_keys key = (if no_extension key then [key, key @ ''/index.html'', key @ ''.html''] else [key])"

fun first_hit :: "(string \<times> 'p) list \<Rightarrow> string list \<Rightarrow> 'p option" where
  "first_hit snapshot [] = None"
| "first_hit snapshot (k # ks) = (case hm_get snapshot k of Some page \<Rightarrow> Some page | None \<Rightarrow> first_hit snapshot ks)"

lemma first_hit_None: "first_hit snapshot ks = None \<longleftrightarrow> (\<forall>k \<in> set ks. hm_get snapshot k = None)"
  by (induction ks) (auto split: option.splits)

lemma first_hit_Some: "first_hit snapshot ks = Some page \<Longrightarrow> \<exists>k \<in> set ks. hm_get snapshot k = Some page"
  by (induction ks) (auto split: option.splits)

lemma ends_with_iff: "ends_with t s \<longleftrightarrow> (\<exists>r. s = r @ t)"
  unfolding ends_with_def by (simp add: strip_suffix_Some)

lemma no_extension_not_index:
  assumes "no_extension key" shows "key \<noteq> ''index.html''" "\<not> ends_with ''/index.html'' key"
proof -
  show "key \<noteq> ''index.html''" using assms by (auto simp: no_extension_def)
  have "\<not> no_extension (r @ ''/index.html'')" for r
    using split_on_append_general [of "CHR ''/''" r "''index.html''"] by (simp add: no_extension_def)
  then show "\<not> ends_with ''/index.html'' key" using assms by (auto simp: ends_with_iff)
qed

lemma resolve_page_candidates:
  assumes "key \<noteq> []" "last key \<noteq> CHR ''/''"
  shows "resolve_page snapshot key = first_hit snapshot (candidate_keys key)"
proof -
  obtain k c where key: "key = k @ [c]" "c \<noteq> CHR ''/''" using assms by (cases key rule: rev_cases) auto
  then have "trim_end_slashes key = key" by (simp add: trim_end_slashes_def)
  moreover have "\<not> ends_with ''/'' key" using key by (simp add: ends_with_iff)
  ultimately show ?thesis
    using no_extension_not_index [of key] assms(1)
    by (auto simp: resolve_page_def candidate_keys_def Let_def split: option.splits)
qed

lemma normalized_key_end:
  assumes "normalize_request_path percent_decode raw = Some np"
  shows "last (np_key np) \<noteq> CHR ''/''"
proof
  assume slash: "last (np_key np) = CHR ''/''"
  have "np_key np = butlast (np_key np) @ CHR ''/'' # []"
    using normalized_key_components(1) [OF assms] slash by (metis append_butlast_last_id)
  then have "[] \<in> set (split_on (CHR ''/'') (np_key np))"
    using split_on_append_general [of "CHR ''/''" "butlast (np_key np)" "[]"] by (metis Un_iff list.set_intros(1) set_append split_on.simps(1))
  then show False using normalized_key_components(2) [OF assms] by blast
qed

text \<open>
  The read endpoint serves the published snapshot and nothing else. Methods other than \<open>GET\<close> and
  \<open>HEAD\<close> get 405; before the first snapshot the answer is 503. After it, the path below the version
  prefix is normalised to a key without empty, dot or double-dot components, and the page is the
  first published one under the key itself and, for a last component without a dot, under the key
  as a directory with its index and the key with the suffix \<open>.html\<close>. The answer is that page's
  response; with no such page, or a path that does not normalise, it is 404.
\<close>

theorem snapshot_get_outcomes:
  assumes "req_method request \<in> {''GET'', ''HEAD''}" "ps_snapshot state = Some snapshot"
    and "req_path request = ''/v1'' @ path"
  shows "snapshot_get percent_decode state request =
    (case normalize_request_path percent_decode path of
      None \<Rightarrow> (404, [], ''not found'')
    | Some np \<Rightarrow> (case first_hit snapshot (candidate_keys (np_key np)) of
        None \<Rightarrow> (404, [], ''not found'')
      | Some page \<Rightarrow> serve_page page (req_headers request) 200))
    \<and> (\<forall>other. other \<notin> {''GET'', ''HEAD''} \<longrightarrow> snapshot_get percent_decode st (request\<lparr>req_method := other\<rparr>) = method_not_allowed)
    \<and> snapshot_get percent_decode (state\<lparr>ps_snapshot := None\<rparr>) request = (503, [], ''snapshot not yet available'')"
proof -
  have strip: "strip_prefix ''/v1'' (req_path request) = Some path" using assms(3) by (simp add: strip_prefix_Some)
  have "snapshot_get percent_decode state request =
    (case normalize_request_path percent_decode path of
      None \<Rightarrow> (404, [], ''not found'')
    | Some np \<Rightarrow> (case resolve_page snapshot (np_key np) of
        None \<Rightarrow> (404, [], ''not found'')
      | Some page \<Rightarrow> serve_page page (req_headers request) 200))"
    using assms(1,2) strip by (auto simp: snapshot_get_def)
  moreover have "resolve_page snapshot (np_key np) = first_hit snapshot (candidate_keys (np_key np))"
    if "normalize_request_path percent_decode path = Some np" for np
    using normalized_key_components(1) [OF that] normalized_key_end [OF that] by (rule resolve_page_candidates)
  ultimately show ?thesis using assms(1) by (auto simp: snapshot_get_def split: option.splits)
qed

definition sample_page :: page_entry where
  "sample_page = PageEntry_new (\<lambda>b. map of_char b) Some ''about.html'' ''hi''"

definition sample_source :: page_source where
  "sample_source = \<lparr>ps_snapshot = Some [(''about.html'', sample_page)], ps_is_ready = True\<rparr>"

definition sample_get :: "string \<Rightarrow> http_request" where
  "sample_get path = \<lparr>req_method = ''GET'', req_path = ''/v1'' @ path, req_headers = []\<rparr>"

theorem snapshot_get_outcomes_witness:
  "snapshot_get Some sample_source (sample_get ''/about'') = serve_page sample_page [] 200
    \<and> fst (snapshot_get Some sample_source (sample_get ''/a/../about'')) = 404"
proof -
  have np: "normalize_request_path Some ''/about'' = Some \<lparr>np_key = ''about'', np_trailing_slash = False\<rparr>"
      "normalize_request_path Some ''/a/../about'' = None" by code_simp+
  have "first_hit [(''about.html'', sample_page)] (candidate_keys ''about'') = Some sample_page"
    by (simp add: candidate_keys_def no_extension_def hm_get_def)
  then show ?thesis
    using snapshot_get_outcomes [of "sample_get ''/about''" sample_source "[(''about.html'', sample_page)]" "''/about''" Some]
      snapshot_get_outcomes [of "sample_get ''/a/../about''" sample_source "[(''about.html'', sample_page)]" "''/a/../about''" Some] np
    by (simp add: sample_get_def sample_source_def)
qed

text \<open>
  The comment on \<open>resolve_page\<close> keeps the suffix rule for paths without a trailing slash; since the
  normalisation has dropped the slash before, the rule applies with one as well.
\<close>

lemma trailing_slash_is_ignored:
  "snapshot_get Some sample_source (sample_get ''/about/'') = serve_page sample_page [] 200"
proof -
  have "normalize_request_path Some ''/about/'' = Some \<lparr>np_key = ''about'', np_trailing_slash = True\<rparr>" by code_simp
  moreover have "resolve_page [(''about.html'', sample_page)] ''about'' = Some sample_page"
    by (subst resolve_page_candidates) (simp_all add: candidate_keys_def no_extension_def hm_get_def)
  ultimately show ?thesis by (simp add: snapshot_get_def sample_get_def sample_source_def strip_prefix_def)
qed

end
