(* ===== verification/Web_Session.thy ===== *)
theory Web_Session
  imports Web_Limits Web_Pages
begin

text \<open>
  WebSocket sessions of the two read surfaces: the upgrade (\<open>ws_handler\<close> of
  \<open>cherry-pit-web/src/projection/handlers.rs\<close> and \<open>serve/runtime.rs\<close>), keepalive, sending under a
  timeout, and the session loops. The branches of \<open>tokio::select!\<close> are the inputs of a step function;
  the broadcast channel, the socket and the timers are the environment, which picks the input, the
  instant it is handled at and how long a send takes. Instants are milliseconds.
\<close>

section \<open>Upgrades\<close>

definition ws_handler :: "'s semaphore_ops \<Rightarrow> ws_policy \<Rightarrow> header_map \<Rightarrow> 's \<Rightarrow> nat \<times> 's" where
  "ws_handler ops policy headers sem =
    (if \<not> validate_ws_origin headers (ws_origin_policy policy) then (403, sem)
     else case sem_try_acquire ops sem of
       None \<Rightarrow> (503, sem)
     | Some sem' \<Rightarrow> (101, sem'))"

record 's ws_world =
  ws_sem :: 's
  ws_sessions :: "header_map list"

datatype ws_event = Upgrade header_map | SessionEnds nat

fun ws_world_step :: "'s semaphore_ops \<Rightarrow> ws_policy \<Rightarrow> ws_event \<Rightarrow> 's ws_world \<Rightarrow> nat \<times> 's ws_world" where
  "ws_world_step ops policy (Upgrade headers) w =
    (case ws_handler ops policy headers (ws_sem w) of
      (status, sem') \<Rightarrow> (status, if status = 101 then w\<lparr>ws_sem := sem', ws_sessions := headers # ws_sessions w\<rparr> else w))"
| "ws_world_step ops policy (SessionEnds i) w =
    (if i < length (ws_sessions w)
     then (0, w\<lparr>ws_sem := sem_release ops (ws_sem w), ws_sessions := take i (ws_sessions w) @ drop (Suc i) (ws_sessions w)\<rparr>)
     else (0, w))"

definition ws_world_run :: "'s semaphore_ops \<Rightarrow> ws_policy \<Rightarrow> ws_event list \<Rightarrow> 's ws_world \<Rightarrow> 's ws_world" where
  "ws_world_run ops policy evs w = fold (\<lambda>ev w. snd (ws_world_step ops policy ev w)) evs w"

text \<open>
  The data plane of both routers: a request of it holds a permit while its handler runs, which may
  take a permit of the sessions.
\<close>

record 's route_sems =
  data_semaphore :: 's
  ws_semaphore :: 's

definition ws_upgrade :: "'s semaphore_ops \<Rightarrow> ws_policy \<Rightarrow> http_request \<Rightarrow> 's \<Rightarrow> 's \<times> http_response" where
  "ws_upgrade ops policy request permits =
    (case ws_handler ops policy (req_headers request) permits of (status, permits') \<Rightarrow> (permits', status, [], []))"

definition answering :: "http_response \<Rightarrow> 'x \<Rightarrow> 'x \<times> http_response" where
  "answering answer x = (x, answer)"

definition data_plane :: "'s semaphore_ops \<Rightarrow> ('s \<Rightarrow> 's \<times> http_response) \<Rightarrow> 's route_sems \<Rightarrow> 's route_sems \<times> http_response" where
  "data_plane ops handler sems =
    (case http_concurrency_limit ops (data_semaphore sems) (ws_semaphore sems, 503, [], []) (\<lambda>held. (held, handler (ws_semaphore sems))) of
      (data', ws', response) \<Rightarrow> (\<lparr>data_semaphore = data', ws_semaphore = ws'\<rparr>, response))"

section \<open>Keepalive\<close>

record keepalive_state =
  pong_deadline :: "nat option"
  pong_duration :: nat

definition KeepaliveState_new :: "nat \<Rightarrow> keepalive_state" where
  "KeepaliveState_new d = \<lparr>pong_deadline = None, pong_duration = d\<rparr>"

definition arm_ping :: "nat \<Rightarrow> keepalive_state \<Rightarrow> keepalive_state" where
  "arm_ping now k = k\<lparr>pong_deadline := Some (now + pong_duration k)\<rparr>"

definition is_expired :: "nat \<Rightarrow> keepalive_state \<Rightarrow> bool" where
  "is_expired now k = (case pong_deadline k of Some d \<Rightarrow> d \<le> now | None \<Rightarrow> False)"

definition record_pong :: "nat \<Rightarrow> keepalive_state \<Rightarrow> bool \<times> keepalive_state" where
  "record_pong now k = (if is_expired now k then (False, k) else (True, k\<lparr>pong_deadline := None\<rparr>))"

section \<open>Sending\<close>

definition WS_SEND_TIMEOUT :: nat where
  "WS_SEND_TIMEOUT = 5000"

definition WS_PONG_DEADLINE :: nat where
  "WS_PONG_DEADLINE = 10000"

definition WS_CLOSE_GOING_AWAY :: nat where
  "WS_CLOSE_GOING_AWAY = 1001"

datatype send_outcome = SendDone nat | SendFails nat | SendNever

definition send_limit :: "nat \<Rightarrow> nat option \<Rightarrow> nat option" where
  "send_limit now deadline = (case deadline of
      Some d \<Rightarrow> if d \<le> now then None else Some (min (d - now) WS_SEND_TIMEOUT)
    | None \<Rightarrow> Some WS_SEND_TIMEOUT)"

text \<open>Whether the message went out, and the instant the call returns at.\<close>

definition send_with_timeout :: "nat \<Rightarrow> nat option \<Rightarrow> send_outcome \<Rightarrow> bool \<times> nat" where
  "send_with_timeout now deadline outcome = (case send_limit now deadline of
      None \<Rightarrow> (False, now)
    | Some limit \<Rightarrow> (case outcome of
        SendDone t \<Rightarrow> if t \<le> limit then (True, now + t) else (False, now + limit)
      | SendFails t \<Rightarrow> (False, now + min t limit)
      | SendNever \<Rightarrow> (False, now + limit)))"

text \<open>\<open>best_effort_close\<close> and \<open>best_effort_flush\<close>: a send whose failure is ignored.\<close>

definition best_effort :: "nat \<Rightarrow> send_outcome \<Rightarrow> bool \<times> nat" where
  "best_effort now outcome = send_with_timeout now None outcome"

section \<open>The session loop of the projection surface\<close>

datatype ws_frame = TextFrame string | PingFrame | CloseFrame "(nat \<times> string) option"

record ws_session =
  s_frames :: "(nat \<times> ws_frame) list"
  s_keepalive :: keepalive_state
  s_open :: bool
  s_now :: nat

datatype ws_input =
    ClientPong | ClientClose | ClientGone | ClientOther
  | Update string | Lagged | BroadcastClosed
  | PingTick | PongDeadlinePassed

definition connected_frame :: string where
  "connected_frame = ''{'' @ quoted ''v'' @ '':1,'' @ quoted ''type'' @ '':'' @ quoted ''connected'' @ ''}''"

definition emit :: "bool \<times> nat \<Rightarrow> ws_frame \<Rightarrow> ws_session \<Rightarrow> ws_session" where
  "emit sent frame s = s\<lparr>s_frames := (if fst sent then s_frames s @ [(snd sent, frame)] else s_frames s), s_now := snd sent\<rparr>"

definition ws_session_start :: "nat \<Rightarrow> send_outcome \<Rightarrow> ws_session" where
  "ws_session_start now outcome =
    (let sent = send_with_timeout now None outcome in
     emit sent (TextFrame connected_frame)
       \<lparr>s_frames = [], s_keepalive = KeepaliveState_new WS_PONG_DEADLINE, s_open = fst sent, s_now = now\<rparr>)"

text \<open>After the loop: the closing frame unless one was sent or the socket is gone.\<close>

definition leave :: "bool \<Rightarrow> send_outcome \<Rightarrow> ws_session \<Rightarrow> ws_session" where
  "leave sent_close closing s =
    (if sent_close then s\<lparr>s_open := False\<rparr>
     else (emit (best_effort (s_now s) closing) (CloseFrame None) s)\<lparr>s_open := False\<rparr>)"

text \<open>
  One turn of the loop at instant \<open>now\<close>: \<open>outcome\<close> is that of the turn's own send, \<open>closing\<close> that of
  the closing frame. A turn that cannot happen is None.
\<close>

definition ws_step :: "ws_input \<Rightarrow> nat \<Rightarrow> send_outcome \<Rightarrow> send_outcome \<Rightarrow> ws_session \<Rightarrow> ws_session option" where
  "ws_step input now outcome closing s0 =
    (if \<not> s_open s0 \<or> now < s_now s0 then None
     else let s = s0\<lparr>s_now := now\<rparr>; k = s_keepalive s0 in
       case input of
         ClientPong \<Rightarrow> (case record_pong now k of
             (True, k') \<Rightarrow> Some (s\<lparr>s_keepalive := k'\<rparr>)
           | (False, _) \<Rightarrow> Some (leave False closing s))
       | ClientClose \<Rightarrow> Some (leave True closing (s\<lparr>s_now := snd (best_effort now outcome)\<rparr>))
       | ClientGone \<Rightarrow> Some (leave True closing s)
       | ClientOther \<Rightarrow> Some s
       | Update json \<Rightarrow>
           (let sent = send_with_timeout now (pong_deadline k) outcome; s' = emit sent (TextFrame json) s
            in Some (if fst sent then s' else leave True closing s'))
       | Lagged \<Rightarrow> Some (leave True closing
           (emit (best_effort now outcome) (CloseFrame (Some (WS_CLOSE_GOING_AWAY, ''lagged; resync via snapshot''))) s))
       | BroadcastClosed \<Rightarrow> Some (leave False closing s)
       | PingTick \<Rightarrow>
           if pong_deadline k \<noteq> None then Some s
           else (let sent = send_with_timeout now None outcome; s' = emit sent PingFrame s
             in Some (if fst sent then s'\<lparr>s_keepalive := arm_ping (snd sent) k\<rparr> else leave True closing s'))
       | PongDeadlinePassed \<Rightarrow> (case pong_deadline k of
             Some d \<Rightarrow> if d \<le> now then Some (leave False closing s) else None
           | None \<Rightarrow> None))"

type_synonym ws_turn = "ws_input \<times> nat \<times> send_outcome \<times> send_outcome"

fun ws_run :: "ws_turn list \<Rightarrow> ws_session \<Rightarrow> ws_session option" where
  "ws_run [] s = Some s"
| "ws_run ((input, now, outcome, closing) # turns) s =
    (case ws_step input now outcome closing s of None \<Rightarrow> None | Some s' \<Rightarrow> ws_run turns s')"

section \<open>The session loop of the serve surface\<close>

text \<open>
  Sends have no timeout here: one that does not end leaves the session waiting for it, and no other
  branch is looked at. The payload of an update is the same pre-serialised text.
\<close>

record serve_session =
  v_frames :: "ws_frame list"
  v_awaiting_pong :: bool
  v_pong_timeout :: nat
  v_open :: bool
  v_stuck :: bool

definition serve_connected :: string where
  "serve_connected = ''{'' @ quoted ''type'' @ '':'' @ quoted ''connected'' @ ''}''"

definition serve_reload :: string where
  "serve_reload = ''{'' @ quoted ''type'' @ '':'' @ quoted ''reload'' @ ''}''"

text \<open>A send that succeeds, fails, or never returns.\<close>

definition serve_send :: "ws_frame \<Rightarrow> send_outcome \<Rightarrow> serve_session \<Rightarrow> bool \<times> serve_session" where
  "serve_send frame outcome v = (case outcome of
      SendDone _ \<Rightarrow> (True, v\<lparr>v_frames := v_frames v @ [frame]\<rparr>)
    | SendFails _ \<Rightarrow> (False, v)
    | SendNever \<Rightarrow> (True, v\<lparr>v_stuck := True\<rparr>))"

definition serve_leave :: "send_outcome \<Rightarrow> serve_session \<Rightarrow> serve_session" where
  "serve_leave closing v = (snd (serve_send (CloseFrame None) closing v))\<lparr>v_open := False\<rparr>"

definition serve_session_start :: "nat \<Rightarrow> send_outcome \<Rightarrow> serve_session" where
  "serve_session_start far_future outcome =
    (let (ok, v) = serve_send (TextFrame serve_connected) outcome
       \<lparr>v_frames = [], v_awaiting_pong = False, v_pong_timeout = far_future, v_open = True, v_stuck = False\<rparr>
     in v\<lparr>v_open := ok\<rparr>)"

definition serve_ws_step ::
  "nat \<Rightarrow> ws_input \<Rightarrow> nat \<Rightarrow> send_outcome \<Rightarrow> send_outcome \<Rightarrow> serve_session \<Rightarrow> serve_session option" where
  "serve_ws_step far_future input now outcome closing v =
    (if \<not> v_open v \<or> v_stuck v then None
     else case input of
       ClientPong \<Rightarrow> Some (v\<lparr>v_awaiting_pong := False, v_pong_timeout := far_future\<rparr>)
     | ClientClose \<Rightarrow> Some (serve_leave closing v)
     | ClientGone \<Rightarrow> Some (serve_leave closing v)
     | ClientOther \<Rightarrow> Some v
     | Update json \<Rightarrow> (case serve_send (TextFrame json) outcome v of
           (True, v') \<Rightarrow> Some v' | (False, v') \<Rightarrow> Some (serve_leave closing v'))
     | Lagged \<Rightarrow> (case serve_send (TextFrame serve_reload) outcome v of
           (True, v') \<Rightarrow> Some v' | (False, v') \<Rightarrow> Some (serve_leave closing v'))
     | BroadcastClosed \<Rightarrow> Some (serve_leave closing v)
     | PingTick \<Rightarrow>
         if v_awaiting_pong v then Some v
         else (case serve_send PingFrame outcome v of
           (True, v') \<Rightarrow> Some (if v_stuck v' then v' else v'\<lparr>v_awaiting_pong := True, v_pong_timeout := now + WS_PONG_DEADLINE\<rparr>)
         | (False, v') \<Rightarrow> Some (serve_leave closing v'))
     | PongDeadlinePassed \<Rightarrow> if v_awaiting_pong v \<and> v_pong_timeout v \<le> now then Some (serve_leave closing v) else None)"

fun serve_ws_run :: "nat \<Rightarrow> ws_turn list \<Rightarrow> serve_session \<Rightarrow> serve_session option" where
  "serve_ws_run far_future [] v = Some v"
| "serve_ws_run far_future ((input, now, outcome, closing) # turns) v =
    (case serve_ws_step far_future input now outcome closing v of None \<Rightarrow> None | Some v' \<Rightarrow> serve_ws_run far_future turns v')"

section \<open>Upgrades are bounded\<close>

context semaphore
begin

lemma ws_world_step_inv:
  assumes "ws_world_step ops policy ev w = (status, w')"
    and "available (ws_sem w) + length (ws_sessions w) = cap"
    and "\<forall>h \<in> set (ws_sessions w). validate_ws_origin h (ws_origin_policy policy)"
  shows "available (ws_sem w') + length (ws_sessions w') = cap
    \<and> (\<forall>h \<in> set (ws_sessions w'). validate_ws_origin h (ws_origin_policy policy))"
proof (cases ev)
  case (Upgrade h)
  show ?thesis
  proof (cases "validate_ws_origin h (ws_origin_policy policy) \<and> sem_try_acquire ops (ws_sem w) \<noteq> None")
    case True
    then obtain s' where s': "sem_try_acquire ops (ws_sem w) = Some s'" by blast
    then show ?thesis using assms Upgrade True acquire_count [OF s'] by (auto simp: ws_handler_def)
  next
    case False
    then have "w' = w" using assms(1) Upgrade by (auto simp: ws_handler_def split: option.splits if_splits)
    then show ?thesis using assms by simp
  qed
next
  case (SessionEnds i)
  show ?thesis
  proof (cases "i < length (ws_sessions w)")
    case True
    then have w': "w' = w\<lparr>ws_sem := sem_release ops (ws_sem w), ws_sessions := take i (ws_sessions w) @ drop (Suc i) (ws_sessions w)\<rparr>"
      using assms(1) SessionEnds by simp
    have "set (ws_sessions w') \<subseteq> set (ws_sessions w)" using w' by (auto dest: in_set_takeD in_set_dropD)
    then show ?thesis using w' assms(2,3) True release [of "ws_sem w"] by (auto simp: min_def)
  qed (use assms SessionEnds in simp)
qed

lemma ws_world_run_inv:
  "available (ws_sem w) + length (ws_sessions w) = cap \<Longrightarrow>
    \<forall>h \<in> set (ws_sessions w). validate_ws_origin h (ws_origin_policy policy) \<Longrightarrow>
    available (ws_sem (ws_world_run ops policy evs w)) + length (ws_sessions (ws_world_run ops policy evs w)) = cap
    \<and> (\<forall>h \<in> set (ws_sessions (ws_world_run ops policy evs w)). validate_ws_origin h (ws_origin_policy policy))"
proof (induction evs arbitrary: w)
  case (Cons ev evs)
  obtain status w1 where step: "ws_world_step ops policy ev w = (status, w1)" by (cases "ws_world_step ops policy ev w")
  note inv = ws_world_step_inv [OF step Cons.prems]
  have "ws_world_run ops policy (ev # evs) w = ws_world_run ops policy evs w1" using step by (simp add: ws_world_run_def)
  then show ?case using Cons.IH [of w1] inv by simp
qed (simp add: ws_world_run_def)

lemma data_plane_result:
  assumes "data_plane ops handler sems = (sems', response)"
  shows "available (data_semaphore sems') = available (data_semaphore sems)"
    and "(ws_semaphore sems', response) =
      (if available (data_semaphore sems) = 0 then (ws_semaphore sems, 503, [], []) else handler (ws_semaphore sems))"
proof -
  show "available (data_semaphore sems') = available (data_semaphore sems)"
    using assms acquire_count [of "data_semaphore sems"] release
    by (auto simp: data_plane_def http_concurrency_limit_def split: option.splits prod.splits)
  show "(ws_semaphore sems', response) =
      (if available (data_semaphore sems) = 0 then (ws_semaphore sems, 503, [], []) else handler (ws_semaphore sems))"
    using assms acquire_iff [of "data_semaphore sems"]
    by (auto simp: data_plane_def http_concurrency_limit_def split: option.splits prod.splits)
qed

lemma ws_upgrade_takes:
  assumes "ws_upgrade ops policy request ws = (ws', status, headers, body)"
  shows "available ws = available ws' + (if status = 101 then 1 else 0)"
  using assms acquire_count [of ws] by (auto simp: ws_upgrade_def ws_handler_def split: if_splits option.splits)

end

text \<open>
  C37. WebSocket sessions. In every order of upgrades and endings at most the configured number of
  sessions is open, each of them passed the origin check when it was upgraded, and an upgrade that is
  refused for its origin, whatever it costs the client, takes no permit: the answer is 403 exactly
  when the check fails, else 503 exactly when all permits are taken.
\<close>

theorem ws_sessions_bounded:
  assumes "semaphore ops available" "available sem = ws_max_connections policy"
    and "w = ws_world_run ops policy evs \<lparr>ws_sem = sem, ws_sessions = []\<rparr>"
  shows "length (ws_sessions w) \<le> ws_max_connections policy
    \<and> (\<forall>h \<in> set (ws_sessions w). validate_ws_origin h (ws_origin_policy policy))
    \<and> fst (ws_world_step ops policy (Upgrade headers) w) =
      (if \<not> validate_ws_origin headers (ws_origin_policy policy) then 403
       else if length (ws_sessions w) = ws_max_connections policy then 503 else 101)
    \<and> (fst (ws_world_step ops policy (Upgrade headers) w) \<noteq> 101 \<longrightarrow> snd (ws_world_step ops policy (Upgrade headers) w) = w)"
proof -
  have inv: "available (ws_sem w) + length (ws_sessions w) = ws_max_connections policy"
      "\<forall>h \<in> set (ws_sessions w). validate_ws_origin h (ws_origin_policy policy)"
    using semaphore.ws_world_run_inv [OF assms(1), of "\<lparr>ws_sem = sem, ws_sessions = []\<rparr>" "ws_max_connections policy" policy evs]
      assms(2,3) by simp_all
  have none: "sem_try_acquire ops (ws_sem w) = None \<longleftrightarrow> length (ws_sessions w) = ws_max_connections policy"
    using inv(1) semaphore.acquire_iff [OF assms(1), of "ws_sem w"] by auto
  then have "fst (ws_world_step ops policy (Upgrade headers) w) =
      (if \<not> validate_ws_origin headers (ws_origin_policy policy) then 403
       else if length (ws_sessions w) = ws_max_connections policy then 503 else 101)"
    by (auto simp: ws_handler_def split: option.splits)
  moreover have "fst (ws_world_step ops policy (Upgrade headers) w) \<noteq> 101 \<longrightarrow> snd (ws_world_step ops policy (Upgrade headers) w) = w"
    by (simp split: prod.splits)
  ultimately show ?thesis using inv by simp
qed

theorem ws_sessions_bounded_witness:
  "fst (ws_world_step counter_semaphore \<lparr>ws_max_connections = 1, ws_origin_policy = AllowAbsent\<rparr> (Upgrade [])
      (ws_world_run counter_semaphore \<lparr>ws_max_connections = 1, ws_origin_policy = AllowAbsent\<rparr> [Upgrade []] \<lparr>ws_sem = 1, ws_sessions = []\<rparr>)) = 503"
proof -
  let ?p = "\<lparr>ws_max_connections = 1, ws_origin_policy = AllowAbsent\<rparr>"
  have "validate_ws_origin [] AllowAbsent" by (simp add: validate_ws_origin_def header_get_def)
  moreover from this have "length (ws_sessions (ws_world_run counter_semaphore ?p [Upgrade []] \<lparr>ws_sem = 1, ws_sessions = []\<rparr>)) = 1"
    by (simp add: ws_world_run_def ws_handler_def counter_semaphore_def)
  ultimately show ?thesis
    using ws_sessions_bounded [OF counter.semaphore_axioms, of 1 ?p _ "[Upgrade []]" "[]"] by simp
qed

section \<open>What a session sends\<close>

definition text_of :: "ws_frame \<Rightarrow> string list" where
  "text_of f = (case f of TextFrame x \<Rightarrow> [x] | _ \<Rightarrow> [])"

definition is_close :: "ws_frame \<Rightarrow> bool" where
  "is_close f = (case f of CloseFrame _ \<Rightarrow> True | _ \<Rightarrow> False)"

definition session_texts :: "ws_session \<Rightarrow> string list" where
  "session_texts s = concat (map (text_of \<circ> snd) (s_frames s))"

definition session_closes :: "ws_session \<Rightarrow> bool list" where
  "session_closes s = map (is_close \<circ> snd) (s_frames s)"

fun updates_of :: "ws_turn list \<Rightarrow> string list" where
  "updates_of [] = []"
| "updates_of ((Update json, _) # turns) = json # updates_of turns"
| "updates_of (_ # turns) = updates_of turns"

lemmas session_simps = session_texts_def session_closes_def text_of_def is_close_def emit_def leave_def

lemma send_with_timeout_bounds:
  assumes "send_with_timeout now deadline outcome = (ok, t)"
  shows "now \<le> t" "t \<le> now + WS_SEND_TIMEOUT" "ok \<Longrightarrow> deadline = Some d \<Longrightarrow> t \<le> d"
  using assms by (auto simp: send_with_timeout_def send_limit_def split: option.splits if_splits send_outcome.splits)

text \<open>The shape of one turn: it goes on, perhaps with one frame, or it ends, perhaps with a close.\<close>

datatype turn_shape = Quiet | Sent nat ws_frame | Ended "(nat \<times> ws_frame) list"

definition turn_result :: "ws_session \<Rightarrow> nat \<Rightarrow> ws_session \<Rightarrow> turn_shape \<Rightarrow> bool" where
  "turn_result s now s' shape \<longleftrightarrow> (case shape of
      Quiet \<Rightarrow> s_open s' \<and> s_frames s' = s_frames s \<and> s_now s' = now
        \<and> pong_deadline (s_keepalive s') \<in> {pong_deadline (s_keepalive s), None}
    | Sent t f \<Rightarrow> s_open s' \<and> s_frames s' = s_frames s @ [(t, f)] \<and> s_now s' = t \<and> now \<le> t \<and> t \<le> now + WS_SEND_TIMEOUT
        \<and> (\<forall>d. pong_deadline (s_keepalive s) = Some d \<longrightarrow> t \<le> d)
        \<and> pong_deadline (s_keepalive s') = (if f = PingFrame then Some (t + pong_duration (s_keepalive s)) else pong_deadline (s_keepalive s))
        \<and> (f = PingFrame \<longrightarrow> pong_deadline (s_keepalive s) = None)
    | Ended fs \<Rightarrow> \<not> s_open s' \<and> s_frames s' = s_frames s @ fs \<and> length fs \<le> 1 \<and> list_all (is_close \<circ> snd) fs
        \<and> s_keepalive s' = s_keepalive s \<and> now \<le> s_now s' \<and> s_now s' \<le> now + 2 * WS_SEND_TIMEOUT)
    \<and> pong_duration (s_keepalive s') = pong_duration (s_keepalive s)"

lemma turn_result_leave:
  assumes "now \<le> s_now s1" "s_now s1 \<le> now + WS_SEND_TIMEOUT" "s_frames s1 = s_frames s @ fs"
    "if sent_close then length fs \<le> 1 \<and> list_all (is_close \<circ> snd) fs else fs = []"
    "s_keepalive s1 = s_keepalive s"
  shows "\<exists>fs. turn_result s now (leave sent_close closing s1) (Ended fs)"
proof (cases sent_close)
  case True
  then have "turn_result s now (leave sent_close closing s1) (Ended fs)"
    using assms by (simp add: turn_result_def leave_def)
  then show ?thesis ..
next
  case False
  obtain ok t where be: "best_effort (s_now s1) closing = (ok, t)" by fastforce
  note b = send_with_timeout_bounds(1,2) [OF be [unfolded best_effort_def]]
  have "turn_result s now (leave sent_close closing s1) (Ended (if ok then [(t, CloseFrame None)] else []))"
    using assms b be False by (simp add: turn_result_def leave_def emit_def is_close_def)
  then show ?thesis ..
qed

lemma turn_result_send:
  assumes "send_with_timeout now deadline outcome = (True, t)" "pong_deadline (s_keepalive s) = deadline"
    "s' = (emit (True, t) f (s\<lparr>s_now := now\<rparr>))\<lparr>s_keepalive := k\<rparr>"
    "k = (if f = PingFrame then arm_ping t (s_keepalive s) else s_keepalive s)" "f = PingFrame \<longrightarrow> deadline = None" "s_open s"
  shows "turn_result s now s' (Sent t f)"
  using assms send_with_timeout_bounds [OF assms(1)] by (auto simp: turn_result_def emit_def arm_ping_def)

text \<open>What a turn on a given input does.\<close>

definition shape_for :: "ws_input \<Rightarrow> turn_shape \<Rightarrow> bool" where
  "shape_for input shape = (case shape of
      Quiet \<Rightarrow> (case input of Update _ \<Rightarrow> False | Lagged \<Rightarrow> False | BroadcastClosed \<Rightarrow> False | PongDeadlinePassed \<Rightarrow> False | _ \<Rightarrow> True)
    | Sent t f \<Rightarrow> (case input of Update json \<Rightarrow> f = TextFrame json | PingTick \<Rightarrow> f = PingFrame | _ \<Rightarrow> False)
    | Ended _ \<Rightarrow> True)"

lemma ws_step_shape:
  assumes "ws_step input now outcome closing s = Some s'"
  shows "\<exists>shape. turn_result s now s' shape \<and> shape_for input shape"
proof -
  have op: "s_open s" using assms by (auto simp: ws_step_def split: if_splits)
  let ?s = "s\<lparr>s_now := now\<rparr>" and ?k = "s_keepalive s"
  have ended: "\<exists>shape. turn_result s now s' shape \<and> shape_for input shape"
    if "s' = leave sent_close closing s1" "now \<le> s_now s1" "s_now s1 \<le> now + WS_SEND_TIMEOUT" "s_frames s1 = s_frames s @ fs"
      "if sent_close then length fs \<le> 1 \<and> list_all (is_close \<circ> snd) fs else fs = []" "s_keepalive s1 = ?k"
    for sent_close s1 fs
  proof -
    from turn_result_leave [OF that(2-5)] that(6) obtain fs' where "turn_result s now (leave sent_close closing s1) (Ended fs')"
      by auto
    then show ?thesis using that(1) by (auto simp: shape_for_def)
  qed
  note leave_now = ended [of _ ?s "[]"]
  show ?thesis
  proof (cases input)
    case ClientPong
    show ?thesis
    proof (cases "is_expired now ?k")
      case True
      then show ?thesis using assms op ClientPong leave_now [of False] by (simp add: ws_step_def record_pong_def split: if_splits)
    next
      case False
      then have "turn_result s now s' Quiet" using assms op ClientPong
        by (auto simp: ws_step_def record_pong_def turn_result_def split: if_splits)
      then show ?thesis using ClientPong by (auto simp: shape_for_def intro!: exI [of _ Quiet])
    qed
  next
    case ClientClose
    obtain ok t where be: "best_effort now outcome = (ok, t)" by fastforce
    show ?thesis using assms op ClientClose be ended [of True "?s\<lparr>s_now := t\<rparr>" "[]"]
        send_with_timeout_bounds(1,2) [OF be [unfolded best_effort_def]]
      by (simp add: ws_step_def split: if_splits)
  next
    case ClientGone
    then show ?thesis using assms op leave_now [of True] by (simp add: ws_step_def split: if_splits)
  next
    case ClientOther
    then have "turn_result s now s' Quiet" using assms op by (auto simp: ws_step_def turn_result_def split: if_splits)
    then show ?thesis using ClientOther by (auto simp: shape_for_def intro!: exI [of _ Quiet])
  next
    case (Update json)
    obtain ok t where sent: "send_with_timeout now (pong_deadline ?k) outcome = (ok, t)" by fastforce
    note b = send_with_timeout_bounds(1,2) [OF sent]
    show ?thesis
    proof (cases ok)
      case True
      then have "turn_result s now s' (Sent t (TextFrame json))"
        using assms op Update sent
        by (intro turn_result_send [of _ "pong_deadline ?k" outcome _ _ _ ?k]) (auto simp: ws_step_def emit_def split: if_splits)
      then show ?thesis using Update by (auto simp: shape_for_def intro!: exI [of _ "Sent t (TextFrame json)"])
    next
      case False
      then show ?thesis using assms op Update sent b ended [of True "?s\<lparr>s_now := t\<rparr>" "[]"]
        by (simp add: ws_step_def emit_def split: if_splits)
    qed
  next
    case Lagged
    obtain ok t where be: "best_effort now outcome = (ok, t)" by fastforce
    let ?f = "CloseFrame (Some (WS_CLOSE_GOING_AWAY, ''lagged; resync via snapshot''))"
    show ?thesis using assms op Lagged be ended [of True "emit (ok, t) ?f ?s" "if ok then [(t, ?f)] else []"]
        send_with_timeout_bounds(1,2) [OF be [unfolded best_effort_def]]
      by (cases ok) (auto simp: ws_step_def emit_def is_close_def split: if_splits)
  next
    case BroadcastClosed
    then show ?thesis using assms op leave_now [of False] by (simp add: ws_step_def split: if_splits)
  next
    case PingTick
    obtain ok t where sent: "send_with_timeout now None outcome = (ok, t)" by fastforce
    note b = send_with_timeout_bounds(1,2) [OF sent]
    consider "pong_deadline ?k \<noteq> None" | "pong_deadline ?k = None" ok | "pong_deadline ?k = None" "\<not> ok" by blast
    then show ?thesis
    proof cases
      case 1
      then have "turn_result s now s' Quiet" using assms op PingTick by (auto simp: ws_step_def turn_result_def split: if_splits)
      then show ?thesis using PingTick by (auto simp: shape_for_def intro!: exI [of _ Quiet])
    next
      case 2
      then have "turn_result s now s' (Sent t PingFrame)"
        using assms op PingTick sent
        by (intro turn_result_send [of _ None outcome _ _ _ "arm_ping t ?k"]) (auto simp: ws_step_def emit_def split: if_splits)
      then show ?thesis using PingTick by (auto simp: shape_for_def intro!: exI [of _ "Sent t PingFrame"])
    next
      case 3
      then show ?thesis using assms op PingTick sent b ended [of True "?s\<lparr>s_now := t\<rparr>" "[]"]
        by (simp add: ws_step_def emit_def split: if_splits)
    qed
  next
    case PongDeadlinePassed
    then show ?thesis using assms op leave_now [of False] by (simp add: ws_step_def split: if_splits option.splits)
  qed
qed

text \<open>
  The invariant of a session: while it is open nothing has been closed and every frame is dated no
  later than the deadline of an outstanding ping; once it is over only its last frame may be a close.
\<close>

definition deadline_respected :: "ws_session \<Rightarrow> bool" where
  "deadline_respected s = (case pong_deadline (s_keepalive s) of None \<Rightarrow> True
     | Some d \<Rightarrow> list_all (\<lambda>(t, f). is_close f \<or> t \<le> d) (s_frames s))"

definition session_inv :: "ws_session \<Rightarrow> bool" where
  "session_inv s \<longleftrightarrow> list_all (\<lambda>(t, f). t \<le> s_now s \<or> is_close f) (s_frames s) \<and> deadline_respected s
    \<and> list_all (\<lambda>(t, f). \<not> is_close f) (if s_open s then s_frames s else butlast (s_frames s))"

lemma turn_result_inv:
  assumes "turn_result s now s' shape" "shape_for input shape" "session_inv s" "s_open s" "s_now s \<le> now"
  shows "session_inv s'"
proof (cases shape)
  case Quiet
  then show ?thesis using assms
    by (auto simp: turn_result_def session_inv_def deadline_respected_def list_all_iff split: option.splits)
next
  case (Sent t f)
  have f: "\<not> is_close f" using assms(2) Sent by (auto simp: shape_for_def is_close_def split: ws_input.splits)
  have r: "s_open s'" "s_frames s' = s_frames s @ [(t, f)]" "s_now s' = t" "now \<le> t"
      "\<forall>d. pong_deadline (s_keepalive s) = Some d \<longrightarrow> t \<le> d"
      "pong_deadline (s_keepalive s') = (if f = PingFrame then Some (t + pong_duration (s_keepalive s)) else pong_deadline (s_keepalive s))"
    using assms(1) Sent by (simp_all add: turn_result_def)
  have old: "\<forall>(t', f') \<in> set (s_frames s). t' \<le> t"
    using assms(3,4,5) r(4) by (fastforce simp: session_inv_def list_all_iff)
  have "deadline_respected s'"
    using assms(3) r(2,5,6) old by (fastforce simp: session_inv_def deadline_respected_def list_all_iff split: option.splits if_splits)
  moreover have "list_all (\<lambda>(t, f). t \<le> s_now s' \<or> is_close f) (s_frames s')"
    using r(2,3) old by (auto simp: list_all_iff)
  ultimately show ?thesis using assms(3,4) r(1,2) f by (simp add: session_inv_def)
next
  case (Ended fs)
  have r: "\<not> s_open s'" "s_frames s' = s_frames s @ fs" "length fs \<le> 1" "list_all (is_close \<circ> snd) fs" "now \<le> s_now s'"
    using assms(1) Ended by (simp_all add: turn_result_def)
  have k: "s_keepalive s' = s_keepalive s" using assms(1) Ended by (simp add: turn_result_def)
  have "butlast (s_frames s') = s_frames s \<or> butlast (s_frames s') = butlast (s_frames s) \<and> fs = []"
    using r(2,3) by (cases fs) auto
  then have "list_all (\<lambda>(t, f). \<not> is_close f) (butlast (s_frames s'))"
    using assms(3,4) by (fastforce simp: session_inv_def list_all_iff dest: in_set_butlastD)
  moreover have "deadline_respected s'"
    using assms(3) r(2,4) k by (auto simp: session_inv_def deadline_respected_def list_all_iff split: option.splits)
  moreover have "list_all (\<lambda>(t, f). t \<le> s_now s' \<or> is_close f) (s_frames s')"
    using assms(3,5) r(2,4,5) by (fastforce simp: session_inv_def list_all_iff)
  ultimately show ?thesis using r(1) by (simp add: session_inv_def)
qed

lemma turn_result_texts:
  assumes "turn_result s now s' shape" "shape_for input shape"
  shows "session_texts s' = session_texts s @ (if s_open s' then updates_of [(input, rest)] else [])"
proof (cases shape)
  case (Sent t f)
  then show ?thesis using assms by (cases input) (auto simp: turn_result_def shape_for_def session_texts_def text_of_def)
next
  case (Ended fs)
  then have "concat (map (text_of \<circ> snd) fs) = []" using assms(1)
    by (auto simp: turn_result_def list_all_iff text_of_def is_close_def split: ws_frame.splits)
  then show ?thesis using assms Ended by (simp add: turn_result_def session_texts_def)
qed (use assms in \<open>cases input; simp add: turn_result_def shape_for_def session_texts_def\<close>)

lemma updates_of_Cons: "updates_of (turn # turns) = updates_of [turn] @ updates_of turns"
proof -
  obtain input rest where "turn = (input, rest)" by (cases turn)
  then show ?thesis by (cases input) simp_all
qed

lemma ws_run_closed: "ws_run turns s = Some s' \<Longrightarrow> \<not> s_open s \<Longrightarrow> turns = [] \<and> s' = s"
  by (cases turns) (auto simp: ws_step_def)

lemma ws_run_session:
  "ws_run turns s = Some s' \<Longrightarrow> session_inv s \<Longrightarrow> s_open s \<Longrightarrow>
    session_inv s' \<and> (\<exists>n. session_texts s' = session_texts s @ take n (updates_of turns)
      \<and> length (updates_of turns) \<le> Suc n \<and> (s_open s' \<longrightarrow> length (updates_of turns) \<le> n))"
proof (induction turns arbitrary: s)
  case (Cons turn turns)
  obtain input now outcome closing where turn: "turn = (input, now, outcome, closing)" by (cases turn) auto
  then obtain s1 where step: "ws_step input now outcome closing s = Some s1" and run: "ws_run turns s1 = Some s'"
    using Cons.prems(1) by (auto split: option.splits)
  obtain shape where shape: "turn_result s now s1 shape" "shape_for input shape" using ws_step_shape [OF step] by blast
  have "s_now s \<le> now" using step by (auto simp: ws_step_def split: if_splits)
  note inv = turn_result_inv [OF shape Cons.prems(2,3) this]
  have one: "length (updates_of [turn]) \<le> 1" using turn by (cases input) simp_all
  have texts: "session_texts s1 = session_texts s @ (if s_open s1 then updates_of [turn] else [])"
    using turn_result_texts [OF shape, of "(now, outcome, closing)"] turn by simp
  show ?case
  proof (cases "s_open s1")
    case True
    from Cons.IH [OF run inv True] obtain n where n: "session_inv s'" "session_texts s' = session_texts s1 @ take n (updates_of turns)"
        "length (updates_of turns) \<le> Suc n" "s_open s' \<longrightarrow> length (updates_of turns) \<le> n" by blast
    then show ?thesis using texts True by (auto simp: updates_of_Cons [of turn turns] intro!: exI [of _ "length (updates_of [turn]) + n"])
  next
    case False
    then have "turns = []" "s' = s1" using ws_run_closed [OF run] by simp_all
    then show ?thesis using texts False inv one by (auto intro!: exI [of _ 0])
  qed
qed auto

text \<open>
  C27. A projection session. Whatever the client, the channel and the timers do, the texts the client
  gets are the connected message and then the published updates in order, without a gap: all of them
  while the session is open, all but at most the one being sent when it ended. A close frame is sent at
  most once and nothing follows it, none is sent while the session is open, and while a ping is
  unanswered nothing but a close is sent later than its deadline.
\<close>

theorem session_in_order:
  assumes "s_open (ws_session_start now0 outcome)" "ws_run turns (ws_session_start now0 outcome) = Some s"
  shows "(\<exists>n. session_texts s = connected_frame # take n (updates_of turns)
      \<and> length (updates_of turns) \<le> Suc n \<and> (s_open s \<longrightarrow> length (updates_of turns) \<le> n))
    \<and> list_all (\<lambda>(t, f). \<not> is_close f) (if s_open s then s_frames s else butlast (s_frames s))
    \<and> (\<forall>d. pong_deadline (s_keepalive s) = Some d \<longrightarrow> list_all (\<lambda>(t, f). is_close f \<or> t \<le> d) (s_frames s))"
proof -
  let ?s0 = "ws_session_start now0 outcome"
  have "session_inv ?s0" "session_texts ?s0 = [connected_frame]"
    using assms(1)
    by (auto simp: ws_session_start_def session_inv_def session_simps deadline_respected_def KeepaliveState_new_def Let_def)
  then show ?thesis using ws_run_session [OF assms(2) _ assms(1)]
    by (auto simp: session_inv_def deadline_respected_def)
qed

theorem session_in_order_witness:
  "\<exists>s n. ws_run [(PingTick, 30000, SendDone 10, SendNever), (Update ''u1'', 31000, SendDone 5, SendNever), (Update ''u2'', 32000, SendNever, SendNever)]
      (ws_session_start 0 (SendDone 3)) = Some s
    \<and> session_texts s = connected_frame # [''u1''] \<and> [''u1''] = take n [''u1'', ''u2''] \<and> \<not> s_open s
    \<and> list_all (\<lambda>(t, f). \<not> is_close f) (butlast (s_frames s))"
proof -
  let ?turns = "[(PingTick, 30000, SendDone 10, SendNever), (Update ''u1'', 31000, SendDone 5, SendNever), (Update ''u2'', 32000, SendNever, SendNever)]"
  let ?s = "\<lparr>s_frames = [(3, TextFrame connected_frame), (30010, PingFrame), (31005, TextFrame ''u1'')],
    s_keepalive = \<lparr>pong_deadline = Some 40010, pong_duration = 10000\<rparr>, s_open = False, s_now = 37000\<rparr>"
  note defs = ws_session_start_def send_with_timeout_def send_limit_def WS_SEND_TIMEOUT_def WS_PONG_DEADLINE_def emit_def
    KeepaliveState_new_def ws_step_def arm_ping_def leave_def
  have "s_open (ws_session_start 0 (SendDone 3))" by (simp add: defs)
  moreover have "ws_run ?turns (ws_session_start 0 (SendDone 3)) = Some ?s" by (simp add: defs)
  moreover have "session_texts ?s = connected_frame # [''u1'']" by (simp add: session_texts_def text_of_def)
  ultimately show ?thesis using session_in_order [of 0 "SendDone 3" ?turns ?s] by auto
qed

text \<open>
  No turn of a projection session hangs: a turn that can happen ends within ten seconds of its
  start whatever the socket does, the send and the closing frame included, a turn that leaves the
  session open within five, and a session whose ping is unanswered cannot be kept open by any turn
  that starts at or after the deadline and has something to send.
\<close>

theorem session_turn_bounded:
  assumes "ws_step input now outcome closing s = Some s'"
  shows "s_now s' \<le> now + 2 * WS_SEND_TIMEOUT \<and> (s_open s' \<longrightarrow> s_now s' \<le> now + WS_SEND_TIMEOUT)
    \<and> (is_expired now (s_keepalive s) \<and> input \<noteq> ClientOther \<and> input \<noteq> PingTick \<longrightarrow> \<not> s_open s')"
proof -
  obtain shape where shape: "turn_result s now s' shape" "shape_for input shape" using ws_step_shape [OF assms] by blast
  have "s_now s' \<le> now + 2 * WS_SEND_TIMEOUT \<and> (s_open s' \<longrightarrow> s_now s' \<le> now + WS_SEND_TIMEOUT)"
    using shape(1) by (cases shape) (simp_all add: turn_result_def)
  moreover have "\<not> s_open s'" if "is_expired now (s_keepalive s)" "input \<noteq> ClientOther" "input \<noteq> PingTick"
    using assms that
    by (cases input) (auto simp: ws_step_def record_pong_def leave_def emit_def send_with_timeout_def send_limit_def is_expired_def Let_def
      split: if_splits option.splits)
  ultimately show ?thesis by blast
qed

theorem session_turn_bounded_witness:
  "\<not> s_open (leave True SendNever (\<lparr>s_frames = [], s_keepalive = \<lparr>pong_deadline = Some 10, pong_duration = 10000\<rparr>, s_open = True, s_now = 20\<rparr>))"
proof -
  let ?s = "\<lparr>s_frames = [], s_keepalive = \<lparr>pong_deadline = Some 10, pong_duration = 10000\<rparr>, s_open = True, s_now = 5\<rparr>"
  have "ws_step (Update ''u'') 20 SendNever SendNever ?s = Some (leave True SendNever (?s\<lparr>s_now := 20\<rparr>))"
    by (simp add: ws_step_def send_with_timeout_def send_limit_def emit_def)
  moreover have "is_expired 20 (s_keepalive ?s)" by (simp add: is_expired_def)
  ultimately show ?thesis using session_turn_bounded by fastforce
qed

section \<open>What a session of the serve surface sends\<close>

definition serve_texts :: "serve_session \<Rightarrow> string list" where
  "serve_texts v = concat (map text_of (v_frames v))"

text \<open>The texts the broadcast channel asks for: an update's payload, a reload for a gap.\<close>

fun broadcast_texts :: "ws_turn list \<Rightarrow> string list" where
  "broadcast_texts [] = []"
| "broadcast_texts ((Update json, _) # turns) = json # broadcast_texts turns"
| "broadcast_texts ((Lagged, _) # turns) = serve_reload # broadcast_texts turns"
| "broadcast_texts (_ # turns) = broadcast_texts turns"

lemma broadcast_texts_Cons: "broadcast_texts (turn # turns) = broadcast_texts [turn] @ broadcast_texts turns"
proof -
  obtain input rest where "turn = (input, rest)" by (cases turn)
  then show ?thesis by (cases input) simp_all
qed

lemma serve_texts_leave: "serve_texts (serve_leave closing v) = serve_texts v" "\<not> v_open (serve_leave closing v)"
  by (simp_all add: serve_leave_def serve_send_def serve_texts_def text_of_def split: send_outcome.splits)

lemma serve_ws_step_texts:
  assumes "serve_ws_step far input now outcome closing v = Some v'"
  shows "serve_texts v' = serve_texts v @ (if v_open v' \<and> \<not> v_stuck v' then broadcast_texts [(input, rest)] else [])"
proof -
  have v: "v_open v" "\<not> v_stuck v" using assms by (auto simp: serve_ws_step_def split: if_splits)
  show ?thesis
  proof (cases input)
    case (Update json)
    then show ?thesis using assms v
      by (cases outcome) (auto simp: serve_ws_step_def serve_send_def serve_texts_leave, simp_all add: serve_texts_def text_of_def)
  next
    case Lagged
    then show ?thesis using assms v
      by (cases outcome) (auto simp: serve_ws_step_def serve_send_def serve_texts_leave, simp_all add: serve_texts_def text_of_def)
  next
    case PingTick
    then show ?thesis using assms v
      by (cases outcome)
        (auto simp: serve_ws_step_def serve_send_def serve_texts_leave split: if_splits, simp_all add: serve_texts_def text_of_def)
  next
    case ClientPong
    then show ?thesis using assms v by (auto simp: serve_ws_step_def serve_texts_def)
  qed (use assms v in \<open>auto simp: serve_ws_step_def serve_texts_leave split: if_splits\<close>)
qed

lemma serve_ws_run_halted: "serve_ws_run far turns v = Some v' \<Longrightarrow> \<not> v_open v \<or> v_stuck v \<Longrightarrow> turns = [] \<and> v' = v"
  by (cases turns) (auto simp: serve_ws_step_def split: if_splits)

lemma serve_ws_run_texts:
  "serve_ws_run far turns v = Some v' \<Longrightarrow> \<exists>n. serve_texts v' = serve_texts v @ take n (broadcast_texts turns)
    \<and> length (broadcast_texts turns) \<le> Suc n \<and> (v_open v' \<and> \<not> v_stuck v' \<longrightarrow> length (broadcast_texts turns) \<le> n)"
proof (induction turns arbitrary: v)
  case (Cons turn turns)
  obtain input now outcome closing where turn: "turn = (input, now, outcome, closing)" by (cases turn) auto
  then obtain v1 where step: "serve_ws_step far input now outcome closing v = Some v1" and run: "serve_ws_run far turns v1 = Some v'"
    using Cons.prems by (auto split: option.splits)
  have one: "length (broadcast_texts [turn]) \<le> 1" using turn by (cases input) simp_all
  have texts: "serve_texts v1 = serve_texts v @ (if v_open v1 \<and> \<not> v_stuck v1 then broadcast_texts [turn] else [])"
    using serve_ws_step_texts [OF step, of "(now, outcome, closing)"] turn by simp
  show ?case
  proof (cases "v_open v1 \<and> \<not> v_stuck v1")
    case True
    from Cons.IH [OF run] obtain n where n: "serve_texts v' = serve_texts v1 @ take n (broadcast_texts turns)"
        "length (broadcast_texts turns) \<le> Suc n" "v_open v' \<and> \<not> v_stuck v' \<longrightarrow> length (broadcast_texts turns) \<le> n" by blast
    then show ?thesis using texts True
      by (auto simp: broadcast_texts_Cons [of turn turns] intro!: exI [of _ "length (broadcast_texts [turn]) + n"])
  next
    case False
    then have "turns = []" "v' = v1" using serve_ws_run_halted [OF run] by auto
    then show ?thesis using texts False one by (auto intro!: exI [of _ 0])
  qed
qed auto

text \<open>
  A session of the serve surface. The client gets the connected message and then, in the order of
  the channel, the payload of every update and a reload request for every gap, none left out while the
  session runs: a client that applies what it gets never misses an update unknowingly. But a send
  that never returns stops the session for good: no input, a missed pong deadline included, has a turn
  any more, and the session holds its connection permit.
\<close>

theorem serve_session_in_order:
  assumes "v_open (serve_session_start far outcome)" "serve_ws_run far turns (serve_session_start far outcome) = Some v"
  shows "(\<exists>n. serve_texts v = (if outcome = SendNever then [] else [serve_connected]) @ take n (broadcast_texts turns)
      \<and> length (broadcast_texts turns) \<le> Suc n \<and> (v_open v \<and> \<not> v_stuck v \<longrightarrow> length (broadcast_texts turns) \<le> n))
    \<and> (v_stuck v \<longrightarrow> serve_ws_step far input now outcome' closing v = None)"
proof -
  let ?v0 = "serve_session_start far outcome"
  have "serve_texts ?v0 = (if outcome = SendNever then [] else [serve_connected])"
    using assms(1) by (cases outcome) (simp_all add: serve_session_start_def serve_send_def serve_texts_def text_of_def)
  then show ?thesis using serve_ws_run_texts [OF assms(2)] by (auto simp: serve_ws_step_def)
qed

theorem serve_session_in_order_witness:
  "\<exists>v. serve_ws_run 86400000 [(Update ''u1'', 1, SendDone 0, SendNever), (Lagged, 2, SendDone 0, SendNever), (PingTick, 30000, SendNever, SendNever)]
      (serve_session_start 86400000 (SendDone 0)) = Some v
    \<and> serve_texts v = [serve_connected, ''u1'', serve_reload] \<and> serve_ws_step 86400000 PongDeadlinePassed 60000 SendNever SendNever v = None"
proof -
  let ?turns = "[(Update ''u1'', 1, SendDone 0, SendNever), (Lagged, 2, SendDone 0, SendNever), (PingTick, 30000, SendNever, SendNever)]"
  let ?v = "\<lparr>v_frames = [TextFrame serve_connected, TextFrame ''u1'', TextFrame serve_reload], v_awaiting_pong = False,
    v_pong_timeout = 86400000, v_open = True, v_stuck = True\<rparr>"
  have run: "serve_ws_run 86400000 ?turns (serve_session_start 86400000 (SendDone 0)) = Some ?v"
    by (simp add: serve_session_start_def serve_send_def serve_ws_step_def)
  have op: "v_open (serve_session_start 86400000 (SendDone 0))" by (simp add: serve_session_start_def serve_send_def)
  show ?thesis using serve_session_in_order [OF op run] run by (auto simp: serve_texts_def text_of_def)
qed

end
