(* ===== verification/Web_Config.thy ===== *)
theory Web_Config
  imports Web_Headers
begin

text \<open>
  Validated configuration: the server configuration of the projection surface
  (\<open>cherry-pit-web/src/projection/config.rs\<close>) and the presentation options of the serve surface
  (\<open>serve/config.rs\<close>). The two error enumerations are one type here, of which the second surface uses
  the variants about the error page and the policy. The largest number of permits of a semaphore is a
  constant of tokio and a parameter.
\<close>

datatype config_error =
    ConcurrencyLimitZero
  | ConcurrencyLimitOverflow
  | WsMaxConnectionsZero
  | WsMaxConnectionsOverflow
  | MaxRequestBodyBytesZero
  | ErrorPageKeyEmpty
  | ErrorPageKeyLeadingSlash
  | ErrorPageKeyTraversal
  | ErrorPageKeyNullByte
  | ErrorPageKeyBackslash
  | CspNotAscii
  | CspContainsCrlf

definition check_error_page_key :: "string option \<Rightarrow> (config_error, unit) result" where
  "check_error_page_key k = (case k of
      None \<Rightarrow> Ok ()
    | Some key \<Rightarrow>
        if key = [] then Err ErrorPageKeyEmpty
        else if hd key = CHR ''/'' then Err ErrorPageKeyLeadingSlash
        else if contains_str ''..'' key then Err ErrorPageKeyTraversal
        else if CHR 0x00 \<in> set key then Err ErrorPageKeyNullByte
        else if backslash \<in> set key then Err ErrorPageKeyBackslash
        else Ok ())"

definition check_csp_override :: "string option \<Rightarrow> (config_error, unit) result" where
  "check_csp_override c = (case c of
      None \<Rightarrow> Ok ()
    | Some csp \<Rightarrow>
        if \<not> (\<forall>ch \<in> set csp. (of_char ch :: nat) < 128) then Err CspNotAscii
        else if CHR 0x0D \<in> set csp \<or> CHR 0x0A \<in> set csp then Err CspContainsCrlf
        else Ok ())"

section \<open>Projection server\<close>

record server_config =
  concurrency_limit :: nat
  max_request_body_bytes :: nat
  ws_max_conns :: nat
  csp_override :: "string option"
  error_page_key :: "string option"

definition ServerConfigBuilder_default :: server_config where
  "ServerConfigBuilder_default = \<lparr>concurrency_limit = 1024, max_request_body_bytes = 1024, ws_max_conns = 200,
    csp_override = None, error_page_key = None\<rparr>"

definition with_concurrency_limit :: "nat \<Rightarrow> server_config \<Rightarrow> server_config" where
  "with_concurrency_limit limit b = b\<lparr>concurrency_limit := limit\<rparr>"

definition with_max_request_body_bytes :: "nat \<Rightarrow> server_config \<Rightarrow> server_config" where
  "with_max_request_body_bytes limit b = b\<lparr>max_request_body_bytes := limit\<rparr>"

definition with_ws_max_connections :: "nat \<Rightarrow> server_config \<Rightarrow> server_config" where
  "with_ws_max_connections limit b = b\<lparr>ws_max_conns := limit\<rparr>"

definition with_csp_override :: "string \<Rightarrow> server_config \<Rightarrow> server_config" where
  "with_csp_override csp b = b\<lparr>csp_override := Some csp\<rparr>"

definition with_error_page_key :: "string \<Rightarrow> server_config \<Rightarrow> server_config" where
  "with_error_page_key key b = b\<lparr>error_page_key := Some key\<rparr>"

text \<open>A validated configuration has the fields of its builder.\<close>

definition ServerConfigBuilder_build :: "nat \<Rightarrow> server_config \<Rightarrow> (config_error, server_config) result" where
  "ServerConfigBuilder_build max_permits b =
    (if concurrency_limit b = 0 then Err ConcurrencyLimitZero
     else if concurrency_limit b > max_permits then Err ConcurrencyLimitOverflow
     else if ws_max_conns b = 0 then Err WsMaxConnectionsZero
     else if ws_max_conns b > max_permits then Err WsMaxConnectionsOverflow
     else if max_request_body_bytes b < 1 then Err MaxRequestBodyBytesZero
     else and_then (check_error_page_key (error_page_key b)) (\<lambda>_.
       and_then (check_csp_override (csp_override b)) (\<lambda>_. Ok b)))"

section \<open>Serve options\<close>

record serve_options =
  so_csp_override :: "string option"
  so_error_page_key :: "string option"
  so_enforce_zstd :: bool

definition ServeOptionsBuilder_default :: serve_options where
  "ServeOptionsBuilder_default = \<lparr>so_csp_override = None, so_error_page_key = None, so_enforce_zstd = False\<rparr>"

definition options_csp_override :: "string \<Rightarrow> serve_options \<Rightarrow> serve_options" where
  "options_csp_override csp b = b\<lparr>so_csp_override := Some csp\<rparr>"

definition options_error_page_key :: "string \<Rightarrow> serve_options \<Rightarrow> serve_options" where
  "options_error_page_key key b = b\<lparr>so_error_page_key := Some key\<rparr>"

definition options_enforce_zstd :: "bool \<Rightarrow> serve_options \<Rightarrow> serve_options" where
  "options_enforce_zstd enforce b = b\<lparr>so_enforce_zstd := enforce\<rparr>"

definition ServeOptionsBuilder_build :: "serve_options \<Rightarrow> (config_error, serve_options) result" where
  "ServeOptionsBuilder_build b =
    and_then (check_error_page_key (so_error_page_key b)) (\<lambda>_.
      and_then (check_csp_override (so_csp_override b)) (\<lambda>_. Ok b))"

text \<open>
  The policy header of the router built from options: a value that makes no header is a panic, here
  None.
\<close>

definition router_csp :: "(string \<Rightarrow> string option) \<Rightarrow> serve_options \<Rightarrow> string option" where
  "router_csp from_str options = from_str (case so_csp_override options of Some csp \<Rightarrow> csp | None \<Rightarrow> DEFAULT_CSP)"

section \<open>What validation gives\<close>

definition page_key_wf :: "string \<Rightarrow> bool" where
  "page_key_wf key \<longleftrightarrow> key \<noteq> [] \<and> hd key \<noteq> CHR ''/'' \<and> \<not> contains_str ''..'' key
    \<and> CHR 0x00 \<notin> set key \<and> backslash \<notin> set key"

definition csp_wf :: "string \<Rightarrow> bool" where
  "csp_wf csp \<longleftrightarrow> (\<forall>ch \<in> set csp. (of_char ch :: nat) < 128 \<and> ch \<noteq> CHR 0x0D \<and> ch \<noteq> CHR 0x0A)"

definition server_config_wf :: "nat \<Rightarrow> server_config \<Rightarrow> bool" where
  "server_config_wf max_permits c \<longleftrightarrow> 1 \<le> concurrency_limit c \<and> concurrency_limit c \<le> max_permits
    \<and> 1 \<le> ws_max_conns c \<and> ws_max_conns c \<le> max_permits \<and> 1 \<le> max_request_body_bytes c
    \<and> pred_option page_key_wf (error_page_key c) \<and> pred_option csp_wf (csp_override c)"

lemma check_error_page_key_ok: "check_error_page_key k = Ok () \<longleftrightarrow> pred_option page_key_wf k"
  by (cases k) (auto simp: check_error_page_key_def page_key_wf_def)

lemma check_csp_override_ok: "check_csp_override c = Ok () \<longleftrightarrow> pred_option csp_wf c"
  by (cases c) (auto simp: check_csp_override_def csp_wf_def)

text \<open>
  C35. A validated configuration cannot be wrong: building succeeds exactly for the builders whose
  limits are between one and the capacity of a semaphore, whose body limit is positive, whose error
  page is a relative key without traversal, null bytes or backslashes and whose policy is ASCII
  without line breaks, and it changes no field. The defaults build, and the setters keep each other's
  fields, so any chain of them is the record of the last values set.
\<close>

theorem server_config_validates:
  "(ServerConfigBuilder_build max_permits b = Ok v \<longleftrightarrow> v = b \<and> server_config_wf max_permits b)
    \<and> (1024 \<le> max_permits \<longrightarrow> ServerConfigBuilder_build max_permits ServerConfigBuilder_default = Ok ServerConfigBuilder_default)
    \<and> with_error_page_key k (with_csp_override csp (with_ws_max_connections w (with_max_request_body_bytes m
        (with_concurrency_limit n b)))) =
      \<lparr>concurrency_limit = n, max_request_body_bytes = m, ws_max_conns = w, csp_override = Some csp, error_page_key = Some k\<rparr>"
proof -
  have "ServerConfigBuilder_build max_permits b = Ok v \<longleftrightarrow> v = b \<and> server_config_wf max_permits b" for b v
  proof -
    have ok: "(\<exists>x. check_error_page_key (error_page_key b) = Ok x) \<longleftrightarrow> pred_option page_key_wf (error_page_key b)"
        "(\<exists>x. check_csp_override (csp_override b) = Ok x) \<longleftrightarrow> pred_option csp_wf (csp_override b)"
      using check_error_page_key_ok [of "error_page_key b"] check_csp_override_ok [of "csp_override b"] by auto
    show ?thesis
      unfolding ServerConfigBuilder_build_def server_config_wf_def ok [symmetric]
      by (auto simp: and_then_Ok_iff)
  qed
  note iff = this
  have "server_config_wf max_permits ServerConfigBuilder_default" if "1024 \<le> max_permits"
    using that by (simp add: server_config_wf_def ServerConfigBuilder_default_def)
  with iff show ?thesis
    by (simp add: with_error_page_key_def with_csp_override_def with_ws_max_connections_def
        with_max_request_body_bytes_def with_concurrency_limit_def)
qed

theorem server_config_validates_witness:
  "ServerConfigBuilder_build 2000 (with_error_page_key ''404.html'' ServerConfigBuilder_default)
    = Ok (with_error_page_key ''404.html'' ServerConfigBuilder_default)
    \<and> (\<forall>v. ServerConfigBuilder_build 2000 (with_error_page_key ''../x'' ServerConfigBuilder_default) \<noteq> Ok v)"
  using server_config_validates [of 2000 "with_error_page_key ''404.html'' ServerConfigBuilder_default"]
    server_config_validates [of 2000 "with_error_page_key ''../x'' ServerConfigBuilder_default"]
  by (simp add: server_config_wf_def with_error_page_key_def ServerConfigBuilder_default_def page_key_wf_def backslash_def)

text \<open>
  Validated options can still make the router panic. Without an override the router is built, and
  so it is with an override of printable characters that passed validation. But validation only looks
  for carriage returns and line feeds, where a header value takes no control character other than the
  tab: an override with a null byte is accepted and the construction of the router panics on it.
\<close>

theorem validated_options_can_panic:
  assumes "header_value_contract from_str"
  shows "(so_csp_override o1 = None \<longrightarrow> router_csp from_str o1 = Some DEFAULT_CSP)
    \<and> (so_csp_override o2 = Some csp \<and> list_all (\<lambda>c. 32 \<le> (of_char c :: nat) \<and> (of_char c :: nat) < 127) csp \<longrightarrow>
        check_csp_override (so_csp_override o2) = Ok () \<and> router_csp from_str o2 = Some csp)
    \<and> (\<exists>opts. ServeOptionsBuilder_build opts = Ok opts \<and> router_csp from_str opts = None)"
proof -
  have "list_all (\<lambda>c. 32 \<le> (of_char c :: nat) \<and> (of_char c :: nat) < 127) DEFAULT_CSP" by code_simp
  then have default: "from_str DEFAULT_CSP = Some DEFAULT_CSP" using assms by (simp add: header_value_contract_def)
  have "from_str [CHR 0x00] = None" using assms by (simp add: header_value_contract_def)
  then have "\<exists>opts. ServeOptionsBuilder_build opts = Ok opts \<and> router_csp from_str opts = None"
    by (intro exI [of _ "options_csp_override [CHR 0x00] ServeOptionsBuilder_default"])
      (simp add: ServeOptionsBuilder_build_def ServeOptionsBuilder_default_def options_csp_override_def check_error_page_key_def
        check_csp_override_def router_csp_def)
  moreover have "check_csp_override (Some csp) = Ok () \<and> from_str csp = Some csp"
    if "list_all (\<lambda>c. 32 \<le> (of_char c :: nat) \<and> (of_char c :: nat) < 127) csp"
    using that assms by (auto simp: header_value_contract_def check_csp_override_def list_all_iff)
  ultimately show ?thesis using default by (auto simp: router_csp_def)
qed

theorem validated_options_can_panic_witness:
  "router_csp printable_header_value ServeOptionsBuilder_default = Some DEFAULT_CSP
    \<and> (\<exists>opts. ServeOptionsBuilder_build opts = Ok opts \<and> router_csp printable_header_value opts = None)"
  using validated_options_can_panic [OF printable_header_value_contract, of ServeOptionsBuilder_default ServeOptionsBuilder_default "[]"]
  by (simp add: ServeOptionsBuilder_default_def)

end
