(* ===== verification/Web_Serve.thy ===== *)
theory Web_Serve
  imports Web_Session Web_Config
begin

text \<open>
  The generic serve surface (\<open>cherry-pit-web/src/serve/\<close>): cached pages with their three body shapes
  and pre-baked headers, route aliases (\<open>state.rs\<close>), the page fallback, the assembled router and the
  start of the server (\<open>runtime.rs\<close>). The cache is a hash map in arbitrary order. Socket addresses,
  binding, routing and the body limit belong to other code and are parameters; the text of the page
  shown before the first publication is one too.
\<close>

section \<open>Cached bodies\<close>

datatype cached_body =
    RawOnly string
  | Compressed string nat
  | Dual string string

definition decode_bounded :: "(nat \<Rightarrow> string \<Rightarrow> string option) \<Rightarrow> string \<Rightarrow> nat \<Rightarrow> string option" where
  "decode_bounded decode_up_to zstd expected_len =
    (case decode_up_to (min u64_max (expected_len + 1)) zstd of
      None \<Rightarrow> None
    | Some buf \<Rightarrow> if length buf = expected_len then Some buf else None)"

fun CachedBody_zstd :: "cached_body \<Rightarrow> string option" where
  "CachedBody_zstd (Compressed zstd raw_len) = Some zstd"
| "CachedBody_zstd (Dual zstd raw) = Some zstd"
| "CachedBody_zstd (RawOnly body) = None"

fun identity_bytes :: "(nat \<Rightarrow> string \<Rightarrow> string option) \<Rightarrow> cached_body \<Rightarrow> string option" where
  "identity_bytes decode_up_to (RawOnly body) = Some body"
| "identity_bytes decode_up_to (Dual zstd raw) = Some raw"
| "identity_bytes decode_up_to (Compressed zstd raw_len) = decode_bounded decode_up_to zstd raw_len"

section \<open>Cached pages\<close>

record cached_page =
  cp_body :: cached_body
  cp_content_type :: string
  cp_etag :: string
  cp_content_length :: string
  cp_content_length_zstd :: "string option"
  cp_headers_zstd :: header_map
  cp_headers_raw :: header_map
  cp_headers_304 :: header_map

definition base_headers :: "string \<Rightarrow> header_map \<Rightarrow> header_map" where
  "base_headers etag h = header_insert ''cache-control'' ''no-cache'' (header_insert ''etag'' etag h)"

definition vary_header :: "bool \<Rightarrow> header_map \<Rightarrow> header_map" where
  "vary_header has_compressed h = (if has_compressed then header_insert ''vary'' ''Accept-Encoding'' h else h)"

definition svg_csp_header :: "string \<Rightarrow> header_map \<Rightarrow> header_map" where
  "svg_csp_header content_type h =
    (if content_type = ''image/svg+xml'' then header_insert ''content-security-policy'' SVG_CSP h else h)"

definition CachedPage_new :: "(string \<Rightarrow> nat list) \<Rightarrow> (string \<Rightarrow> string option) \<Rightarrow> string \<Rightarrow> string \<Rightarrow> cached_page" where
  "CachedPage_new sha256 encode_all filename body =
    (let ext = file_ext filename;
         content_type = content_type_for_ext ext;
         etag = compute_etag sha256 body;
         content_length = content_length_header (length body);
         body_zstd = (if is_compressible_ext ext then compress_zstd encode_all body else None);
         content_length_zstd = map_option (\<lambda>b. content_length_header (length b)) body_zstd;
         has_compressed = (body_zstd \<noteq> None);
         typed = base_headers etag (header_insert ''content-type'' content_type []);
         headers_304 = vary_header has_compressed (base_headers etag []);
         headers_raw = svg_csp_header content_type (vary_header has_compressed
           (header_insert ''content-length'' content_length typed));
         headers_zstd = svg_csp_header content_type (case content_length_zstd of
             Some cl \<Rightarrow> header_insert ''vary'' ''Accept-Encoding'' (header_insert ''content-encoding'' ''zstd''
               (header_insert ''content-length'' cl typed))
           | None \<Rightarrow> header_insert ''content-length'' content_length typed);
         cached = (case body_zstd of
             Some zstd \<Rightarrow> if filename = ''index.html'' then Dual zstd body else Compressed zstd (length body)
           | None \<Rightarrow> RawOnly body)
     in \<lparr>cp_body = cached, cp_content_type = content_type, cp_etag = etag, cp_content_length = content_length,
         cp_content_length_zstd = content_length_zstd, cp_headers_zstd = headers_zstd, cp_headers_raw = headers_raw,
         cp_headers_304 = headers_304\<rparr>)"

section \<open>Route aliases\<close>

definition alias_of :: "string \<Rightarrow> (string \<Rightarrow> bool) \<Rightarrow> string \<times> 'p \<Rightarrow> (string \<times> 'p) option" where
  "alias_of tail wanted = (\<lambda>(key, page). case strip_suffix tail key of
      Some name \<Rightarrow> if wanted name then Some (name, page) else None
    | None \<Rightarrow> None)"

definition insert_aliases :: "(string \<times> 'p) list \<Rightarrow> (string, 'p) hash_map \<Rightarrow> (string, 'p) hash_map" where
  "insert_aliases aliases cache = fold (\<lambda>(k, v) c. hm_or_insert k v c) aliases cache"

definition index_aliases :: "(string, 'p) hash_map \<Rightarrow> (string \<times> 'p) list" where
  "index_aliases cache = List.map_filter (alias_of ''/index.html'' (\<lambda>dir. dir \<noteq> [] \<and> hm_get cache dir = None)) cache"

definition html_aliases :: "(string, 'p) hash_map \<Rightarrow> (string \<times> 'p) list" where
  "html_aliases cache = List.map_filter (alias_of ''.html'' (\<lambda>name. name \<noteq> [] \<and> hm_get cache name = None))
    (filter (\<lambda>(key, page). \<not> (key = ''index.html'' \<or> ends_with ''/index.html'' key)) cache)"

definition populate_route_aliases :: "(string, 'p) hash_map \<Rightarrow> (string, 'p) hash_map" where
  "populate_route_aliases cache =
    (let with_dirs = insert_aliases (index_aliases cache) cache
     in insert_aliases (html_aliases with_dirs) with_dirs)"

section \<open>Page responses\<close>

definition serve_cached_page ::
  "(nat \<Rightarrow> string \<Rightarrow> string option) \<Rightarrow> cached_page \<Rightarrow> header_map \<Rightarrow> nat \<Rightarrow> bool \<Rightarrow> http_response" where
  "serve_cached_page decode_up_to page request_headers status skip_etag_check =
    (if \<not> skip_etag_check \<and> if_none_match_matches request_headers (cp_etag page)
     then (304, cp_headers_304 page, [])
     else
       let encoding = (case header_get request_headers ''accept-encoding'' of Some h \<Rightarrow> negotiate_encoding h | None \<Rightarrow> Identity);
           raw = (case identity_bytes decode_up_to (cp_body page) of
             Some b \<Rightarrow> (status, cp_headers_raw page, b)
           | None \<Rightarrow> (500, [], []))
       in case encoding of
         Zstd \<Rightarrow> (case CachedBody_zstd (cp_body page) of Some b \<Rightarrow> (status, cp_headers_zstd page, b) | None \<Rightarrow> raw)
       | Identity \<Rightarrow> raw)"

definition resolve_cache_key :: "(string, 'p) hash_map \<Rightarrow> string \<Rightarrow> bool \<Rightarrow> 'p option" where
  "resolve_cache_key cache key has_trailing_slash = hm_get cache key"

record serve_state =
  html_cache :: "(string, cached_page) hash_map option"
  ss_is_ready :: bool

definition cache_fallback ::
  "(string \<Rightarrow> string option) \<Rightarrow> (nat \<Rightarrow> string \<Rightarrow> string option) \<Rightarrow> string \<Rightarrow> serve_options \<Rightarrow> serve_state \<Rightarrow> http_request \<Rightarrow> http_response" where
  "cache_fallback percent_decode decode_up_to initializing_html options state request =
    (if req_method request \<noteq> ''GET'' \<and> req_method request \<noteq> ''HEAD'' then method_not_allowed
     else case normalize_request_path percent_decode (req_path request) of
       None \<Rightarrow> (400, [], ''bad request'')
     | Some normalized \<Rightarrow>
         let encoding = (case header_get (req_headers request) ''accept-encoding'' of Some h \<Rightarrow> negotiate_encoding h | None \<Rightarrow> Identity)
         in if so_enforce_zstd options \<and> np_key normalized \<noteq> ''index.html'' \<and> encoding \<noteq> Zstd
         then (406, [(''content-type'', ''text/plain; charset=utf-8'')], ''must support zstd level 19 compression'')
         else case html_cache state of
           None \<Rightarrow> (503, [(''content-type'', ''text/html; charset=utf-8'')], initializing_html)
         | Some cache \<Rightarrow>
             (case resolve_cache_key cache (np_key normalized) (np_trailing_slash normalized) of
               Some page \<Rightarrow> serve_cached_page decode_up_to page (req_headers request) 200 False
             | None \<Rightarrow>
                 (case Option.bind (so_error_page_key options) (hm_get cache) of
                   Some error_page \<Rightarrow> serve_cached_page decode_up_to error_page (req_headers request) 404 True
                 | None \<Rightarrow> (404, [], ''not found''))))"

section \<open>The assembled router\<close>

definition BUILTIN_MAX_BODY_BYTES :: nat where
  "BUILTIN_MAX_BODY_BYTES = 1024"

definition clamp_permits :: "nat \<Rightarrow> nat \<Rightarrow> nat" where
  "clamp_permits max_permits requested = min requested max_permits"

definition favicon :: http_response where
  "favicon = (204, [], [])"

definition serve_healthz :: http_response where
  "serve_healthz = (200, [(''content-type'', ''application/json'')], ''{'' @ quoted ''status'' @ '':'' @ quoted ''ok'' @ ''}'')"

definition serve_readyz :: "serve_state \<Rightarrow> http_response" where
  "serve_readyz state = (if ss_is_ready state
    then (200, [(''content-type'', ''application/json'')], ''{'' @ quoted ''status'' @ '':'' @ quoted ''ready'' @ ''}'')
    else (503, [(''content-type'', ''application/json'')],
      ''{'' @ quoted ''status'' @ '':'' @ quoted ''not_ready'' @ '','' @ quoted ''reason'' @ '':'' @ quoted ''no content published yet'' @ ''}''))"

datatype serve_route = Healthz | Readyz | Favicon | WsRoute | Fallback | Extra http_response

text \<open>
  \<open>body_limit\<close> is the body layer: given the largest size, the refusal of a request that exceeds it.
  \<open>route_of\<close> is the route match.
\<close>

definition within_builtin_limit ::
  "(nat \<Rightarrow> http_request \<Rightarrow> http_response option) \<Rightarrow> http_request \<Rightarrow> ('x \<Rightarrow> 'x \<times> http_response) \<Rightarrow> 'x \<Rightarrow> 'x \<times> http_response" where
  "within_builtin_limit body_limit request handler x =
    (case body_limit BUILTIN_MAX_BODY_BYTES request of Some refusal \<Rightarrow> (x, refusal) | None \<Rightarrow> handler x)"

definition serve_routes ::
  "'s semaphore_ops \<Rightarrow> (nat \<Rightarrow> http_request \<Rightarrow> http_response option) \<Rightarrow> (http_request \<Rightarrow> serve_route)
    \<Rightarrow> (http_request \<Rightarrow> http_response) \<Rightarrow> layer_limits \<Rightarrow> ws_policy \<Rightarrow> serve_state \<Rightarrow> 's route_sems \<Rightarrow> http_request
    \<Rightarrow> 's route_sems \<times> http_response" where
  "serve_routes ops body_limit route_of fallback limits policy state sems request =
    (case body_limit (max_body_bytes limits) request of
      Some refusal \<Rightarrow> (sems, refusal)
    | None \<Rightarrow> (case route_of request of
        Healthz \<Rightarrow> within_builtin_limit body_limit request (answering serve_healthz) sems
      | Readyz \<Rightarrow> within_builtin_limit body_limit request (answering (serve_readyz state)) sems
      | Favicon \<Rightarrow> data_plane ops (within_builtin_limit body_limit request (answering favicon)) sems
      | WsRoute \<Rightarrow> data_plane ops (within_builtin_limit body_limit request (ws_upgrade ops policy request)) sems
      | Fallback \<Rightarrow> data_plane ops (within_builtin_limit body_limit request (answering (fallback request))) sems
      | Extra answer \<Rightarrow> data_plane ops (answering answer) sems))"

definition serve_router ::
  "'s semaphore_ops \<Rightarrow> (nat \<Rightarrow> http_request \<Rightarrow> http_response option) \<Rightarrow> (http_request \<Rightarrow> serve_route)
    \<Rightarrow> (http_request \<Rightarrow> http_response) \<Rightarrow> layer_limits \<Rightarrow> ws_policy \<Rightarrow> string \<Rightarrow> serve_state \<Rightarrow> 's route_sems \<Rightarrow> http_request
    \<Rightarrow> 's route_sems \<times> http_response" where
  "serve_router ops body_limit route_of fallback limits policy csp state sems request =
    (case serve_routes ops body_limit route_of fallback limits policy state sems request of
      (sems', status, headers, body) \<Rightarrow> (sems', status, security_headers csp headers, body))"

section \<open>Starting the server\<close>

datatype 'err server_error =
    InvalidAddress string
  | BindFailed string 'err
  | RuntimeFailed 'err

definition bind_serving_port :: "('addr \<Rightarrow> ('err, 'l) result) \<Rightarrow> ('addr \<Rightarrow> string) \<Rightarrow> 'addr \<Rightarrow> ('err server_error, 'l) result" where
  "bind_serving_port bind show_addr addr = map_err (BindFailed (show_addr addr)) (bind addr)"

definition warns_non_local :: "string \<Rightarrow> bool" where
  "warns_non_local bind_address = (bind_address \<noteq> ''127.0.0.1'' \<and> bind_address \<noteq> ''::1'' \<and> bind_address \<noteq> ''localhost'')"

text \<open>
  The listener the server runs on, and the address reported to the caller. \<open>serve\<close> is the run of axum
  up to the shutdown.
\<close>

definition start ::
  "(string \<Rightarrow> 'addr option) \<Rightarrow> ('addr \<Rightarrow> ('err, 'l) result) \<Rightarrow> ('addr \<Rightarrow> string) \<Rightarrow> ('l \<Rightarrow> 'addr) \<Rightarrow> ('l \<Rightarrow> ('err, unit) result)
    \<Rightarrow> nat \<Rightarrow> string \<Rightarrow> 'l option \<Rightarrow> bool \<Rightarrow> ('err server_error, unit) result \<times> 'addr option" where
  "start parse_addr bind show_addr local_addr serve port bind_address listener wants_addr =
    (let run = (\<lambda>l reported. (map_err RuntimeFailed (serve l), reported)) in
     case listener of
       Some l \<Rightarrow> run l None
     | None \<Rightarrow>
         (let addr_text = bind_address @ '':'' @ show_nat port in
          (case parse_addr addr_text of
            None \<Rightarrow> (Err (InvalidAddress addr_text), None)
          | Some addr \<Rightarrow>
              (case bind_serving_port bind show_addr addr of
                Inl e \<Rightarrow> (Err e, None)
              | Inr l \<Rightarrow> run l (if wants_addr then Some (local_addr l) else None)))))"

section \<open>Bounded decoding\<close>

lemma decode_bounded_exact: "decode_bounded decode_up_to zstd n = Some b \<Longrightarrow> length b = n"
  by (auto simp: decode_bounded_def split: option.splits if_splits)

lemma decode_bounded_roundtrip:
  assumes "zstd_contract encode_all decode_up_to" "encode_all body = Some z" "length body \<le> u64_max"
  shows "decode_bounded decode_up_to z (length body) = Some body"
proof -
  have "decode_up_to n z = Some (take n body)" for n using assms(1,2) by (simp add: zstd_contract_def)
  then show ?thesis using assms(3) by (simp add: decode_bounded_def min_def)
qed

section \<open>The two surfaces serve alike\<close>

lemma CachedPage_new_fields:
  assumes "z = pe_body_zstd (PageEntry_new sha256 encode_all filename body)"
    and "page = CachedPage_new sha256 encode_all filename body"
  shows "cp_etag page = compute_etag sha256 body"
    and "CachedBody_zstd (cp_body page) = z"
    and "z = None \<Longrightarrow> cp_body page = RawOnly body"
    and "z = Some x \<Longrightarrow> cp_body page = (if filename = ''index.html'' then Dual x body else Compressed x (length body))"
    and "cp_headers_304 page = vary_header (z \<noteq> None) (base_headers (compute_etag sha256 body) [])"
    and "cp_headers_raw page = svg_csp_header (content_type_for_ext (file_ext filename)) (vary_header (z \<noteq> None)
        (header_insert ''content-length'' (show_nat (length body)) (base_headers (compute_etag sha256 body)
          (header_insert ''content-type'' (content_type_for_ext (file_ext filename)) []))))"
    and "z = Some x \<Longrightarrow> cp_headers_zstd page = svg_csp_header (content_type_for_ext (file_ext filename))
        (header_insert ''vary'' ''Accept-Encoding'' (header_insert ''content-encoding'' ''zstd''
          (header_insert ''content-length'' (show_nat (length x)) (base_headers (compute_etag sha256 body)
            (header_insert ''content-type'' (content_type_for_ext (file_ext filename)) [])))))"
proof -
  define w where "w = (if is_compressible_ext (file_ext filename) then compress_zstd encode_all body else None)"
  have z: "z = w" using assms(1) by (simp add: PageEntry_new_def Let_def w_def)
  note page = assms(2) [unfolded CachedPage_new_def Let_def w_def [symmetric]]
  show "cp_etag page = compute_etag sha256 body" using page by simp
  show "CachedBody_zstd (cp_body page) = z" using page z by (cases w) simp_all
  show "z = None \<Longrightarrow> cp_body page = RawOnly body" using page z by simp
  show "z = Some x \<Longrightarrow> cp_body page = (if filename = ''index.html'' then Dual x body else Compressed x (length body))"
    using page z by simp
  show "cp_headers_304 page = vary_header (z \<noteq> None) (base_headers (compute_etag sha256 body) [])"
    using page z by simp
  show "cp_headers_raw page = svg_csp_header (content_type_for_ext (file_ext filename)) (vary_header (z \<noteq> None)
        (header_insert ''content-length'' (show_nat (length body)) (base_headers (compute_etag sha256 body)
          (header_insert ''content-type'' (content_type_for_ext (file_ext filename)) []))))"
    using page z by (simp add: content_length_header_def)
  show "z = Some x \<Longrightarrow> cp_headers_zstd page = svg_csp_header (content_type_for_ext (file_ext filename))
        (header_insert ''vary'' ''Accept-Encoding'' (header_insert ''content-encoding'' ''zstd''
          (header_insert ''content-length'' (show_nat (length x)) (base_headers (compute_etag sha256 body)
            (header_insert ''content-type'' (content_type_for_ext (file_ext filename)) [])))))"
    using page z by (simp add: content_length_header_def)
qed

lemma identity_bytes_page:
  assumes "zstd_contract encode_all decode_up_to" "length body \<le> u64_max"
  shows "identity_bytes decode_up_to (cp_body (CachedPage_new sha256 encode_all filename body)) = Some body"
proof (cases "pe_body_zstd (PageEntry_new sha256 encode_all filename body)")
  case None
  then show ?thesis using CachedPage_new_fields(3) [OF refl refl] by simp
next
  case (Some x)
  then have "encode_all body = Some x"
    by (auto simp: PageEntry_new_def Let_def compress_zstd_def split: if_splits)
  then show ?thesis
    using CachedPage_new_fields(4) [OF refl refl Some] decode_bounded_roundtrip [OF assms(1) _ assms(2)] by simp
qed

lemma header_get_helpers [simp]:
  "header_get (base_headers etag h) n = (if n = ''cache-control'' then Some ''no-cache'' else if n = ''etag'' then Some etag else header_get h n)"
  "header_get (vary_header c h) n = (if n = ''vary'' \<and> c then Some ''Accept-Encoding'' else header_get h n)"
  "n \<noteq> ''content-security-policy'' \<Longrightarrow> header_get (svg_csp_header ct h) n = header_get h n"
  by (simp_all add: base_headers_def vary_header_def svg_csp_header_def)

lemma serve_cached_page_built:
  assumes "zstd_contract encode_all decode_up_to" "length body \<le> u64_max"
    and "page = CachedPage_new sha256 encode_all filename body"
    and "z = pe_body_zstd (PageEntry_new sha256 encode_all filename body)"
  shows "serve_cached_page decode_up_to page hs status skip =
    (if \<not> skip \<and> if_none_match_matches hs (compute_etag sha256 body) then (304, cp_headers_304 page, [])
     else if wants_zstd hs \<and> z \<noteq> None then (status, cp_headers_zstd page, the z)
     else (status, cp_headers_raw page, body))"
proof -
  have "identity_bytes decode_up_to (cp_body page) = Some body"
    unfolding assms(3) using assms(1,2) by (rule identity_bytes_page)
  then show ?thesis
    using CachedPage_new_fields(1,2) [OF assms(4,3)]
    by (cases z; cases "header_get hs ''accept-encoding''")
      (auto simp: serve_cached_page_def wants_zstd_def Let_def split: encoding.splits)
qed

text \<open>
  The two read surfaces agree. For the same file, body and request headers the serve surface,
  which may have dropped the raw body and decompresses on demand, gives the same status, the same
  bytes and the same headers as the projection surface, which keeps both; it never fails. The one
  difference is the content policy, which only the serve surface sets, and only on SVG images.
\<close>

theorem surfaces_serve_alike:
  assumes "zstd_contract encode_all decode_up_to" "length body \<le> u64_max"
    and "serve_cached_page decode_up_to (CachedPage_new sha256 encode_all filename body) hs status False = (st, h, sent)"
    and "serve_page (PageEntry_new sha256 encode_all filename body) hs status = (st', h', sent')"
  shows "st = st' \<and> sent = sent' \<and> (\<forall>n. n \<noteq> ''content-security-policy'' \<longrightarrow> header_get h n = header_get h' n)
    \<and> header_get h' ''content-security-policy'' = None
    \<and> (st \<noteq> 304 \<longrightarrow> header_get h ''content-security-policy'' =
        (if content_type_for_ext (file_ext filename) = ''image/svg+xml'' then Some SVG_CSP else None))"
proof -
  define page where "page = CachedPage_new sha256 encode_all filename body"
  define entry where "entry = PageEntry_new sha256 encode_all filename body"
  define z where "z = pe_body_zstd entry"
  note f = CachedPage_new_fields [OF z_def [unfolded entry_def] page_def]
  note built = serve_cached_page_built [OF assms(1,2) page_def z_def [unfolded entry_def], of hs status False, folded page_def]
  have e: "pe_etag entry = compute_etag sha256 body" "pe_body entry = body" "pe_content_length entry = show_nat (length body)"
      "pe_content_type entry = content_type_for_ext (file_ext filename)" "pe_body_zstd entry = z"
      "pe_content_length_zstd entry = map_option (\<lambda>x. show_nat (length x)) z"
    by (simp_all add: entry_def z_def)
  show ?thesis
  proof (cases "if_none_match_matches hs (compute_etag sha256 body)")
    case True
    then have "st = 304" "h = cp_headers_304 page" "sent = []"
      using assms(3) [folded page_def] built by simp_all
    moreover have "st' = 304" "sent' = []"
      "h' = insert_opt ''vary'' (if z \<noteq> None then Some ''Accept-Encoding'' else None)
        (header_insert ''cache-control'' ''no-cache'' (header_insert ''etag'' (compute_etag sha256 body) []))"
      using assms(4) [folded entry_def] e True by (simp_all add: serve_page_def Let_def)
    ultimately show ?thesis using f(5) by simp
  next
    case False
    note cached = assms(3) [folded page_def, unfolded built]
    note entry = assms(4) [folded entry_def, unfolded serve_page_def negotiated_body_def Let_def e]
    show ?thesis
    proof (cases "wants_zstd hs \<and> z \<noteq> None")
      case True
      then obtain x where x: "z = Some x" by blast
      then have "st = status" "h = cp_headers_zstd page" "sent = x"
        using cached False True by auto
      moreover have "st' = status" "sent' = x"
        "h' = insert_opt ''vary'' (Some ''Accept-Encoding'') (insert_opt ''content-encoding'' (Some ''zstd'')
          (insert_opt ''content-length'' (Some (show_nat (length x))) (header_insert ''cache-control'' ''no-cache''
            (header_insert ''etag'' (compute_etag sha256 body)
              (header_insert ''content-type'' (content_type_for_ext (file_ext filename)) [])))))"
        using entry False True x by auto
      ultimately show ?thesis using f(7) [OF x] by (simp add: svg_csp_header_def)
    next
      case no: False
      then have "st = status" "h = cp_headers_raw page" "sent = body"
        using cached False by (simp_all split: if_splits)
      moreover have "st' = status" "sent' = body"
        "h' = insert_opt ''vary'' (if z \<noteq> None then Some ''Accept-Encoding'' else None)
          (insert_opt ''content-length'' (Some (show_nat (length body))) (header_insert ''cache-control'' ''no-cache''
            (header_insert ''etag'' (compute_etag sha256 body)
              (header_insert ''content-type'' (content_type_for_ext (file_ext filename)) []))))"
        using entry False no by (auto simp: insert_opt_def split: if_splits)
      ultimately show ?thesis using f(6) by (simp add: svg_csp_header_def)
    qed
  qed
qed

theorem surfaces_serve_alike_witness:
  "fst (serve_cached_page (\<lambda>n z. Some (take n z)) (CachedPage_new (\<lambda>b. map of_char b) Some ''a.html'' ''hi'') [] 200 False)
    = fst (serve_page (PageEntry_new (\<lambda>b. map of_char b) Some ''a.html'' ''hi'') [] 200)"
proof -
  obtain st h sent where a: "serve_cached_page (\<lambda>n z. Some (take n z)) (CachedPage_new (\<lambda>b. map of_char b) Some ''a.html'' ''hi'') [] 200 False
      = (st, h, sent)" by (metis prod.exhaust)
  obtain st' h' sent' where b: "serve_page (PageEntry_new (\<lambda>b. map of_char b) Some ''a.html'' ''hi'') [] 200 = (st', h', sent')"
    by (metis prod.exhaust)
  have "length ''hi'' \<le> u64_max" by (simp add: u64_max_def)
  then show ?thesis using surfaces_serve_alike [OF identity_zstd_contract _ a b] a b by simp
qed

section \<open>Aliases\<close>

lemma map_of_aliases:
  "map_of (List.map_filter (alias_of t wanted) m) k = (if wanted k then map_of m (k @ t) else None)"
proof (induction m)
  case Nil
  show ?case by (simp add: List.map_filter_simps)
next
  case (Cons kp m)
  obtain key page where kp: "kp = (key, page)" by (cases kp)
  show ?case
  proof (cases "strip_suffix t key")
    case None
    then have "key \<noteq> k @ t" using strip_suffix_Some [of t key k] by auto
    then show ?thesis using Cons None kp by (simp add: List.map_filter_simps alias_of_def)
  next
    case (Some name)
    then have "key = name @ t" by (simp add: strip_suffix_Some)
    then show ?thesis using Cons Some kp by (auto simp: List.map_filter_simps alias_of_def)
  qed
qed

lemma insert_aliases_get:
  "hm_get (insert_aliases aliases c) k = (case hm_get c k of Some p \<Rightarrow> Some p | None \<Rightarrow> map_of aliases k)"
  unfolding insert_aliases_def by (induction aliases arbitrary: c) (auto split: option.splits)

lemma map_of_filter_keys: "map_of (filter (\<lambda>(k, p). wanted k) m) k = (if wanted k then map_of m k else None)"
  by (induction m) auto

definition dir_lookup :: "(string, 'p) hash_map \<Rightarrow> string \<Rightarrow> 'p option" where
  "dir_lookup cache k = (case hm_get cache k of
      Some p \<Rightarrow> Some p
    | None \<Rightarrow> if k = [] then None else hm_get cache (k @ ''/index.html''))"

lemma with_dirs_get: "hm_get (insert_aliases (index_aliases cache) cache) k = dir_lookup cache k"
  unfolding insert_aliases_get index_aliases_def map_of_aliases dir_lookup_def
  by (simp add: hm_get_def split: option.splits)

lemma populate_route_aliases_get:
  "hm_get (populate_route_aliases cache) k = (case dir_lookup cache k of
      Some p \<Rightarrow> Some p
    | None \<Rightarrow> if k = [] \<or> k @ ''.html'' = ''index.html'' \<or> ends_with ''/index.html'' (k @ ''.html'') then None
        else dir_lookup cache (k @ ''.html''))"
proof -
  define dirs where "dirs = insert_aliases (index_aliases cache) cache"
  have dirs: "hm_get dirs j = dir_lookup cache j" for j by (simp add: dirs_def with_dirs_get)
  have html: "map_of (html_aliases dirs) k = (if k \<noteq> [] \<and> dir_lookup cache k = None
      \<and> \<not> (k @ ''.html'' = ''index.html'' \<or> ends_with ''/index.html'' (k @ ''.html'')) then dir_lookup cache (k @ ''.html'') else None)"
    unfolding html_aliases_def map_of_aliases map_of_filter_keys dirs using dirs [unfolded hm_get_def] by simp
  have "hm_get (populate_route_aliases cache) k = (case dir_lookup cache k of
      Some p \<Rightarrow> Some p | None \<Rightarrow> map_of (html_aliases dirs) k)"
    unfolding populate_route_aliases_def Let_def dirs_def [symmetric] insert_aliases_get dirs by simp
  also have "\<dots> = (case dir_lookup cache k of Some p \<Rightarrow> Some p
    | None \<Rightarrow> if k = [] \<or> k @ ''.html'' = ''index.html'' \<or> ends_with ''/index.html'' (k @ ''.html'') then None
        else dir_lookup cache (k @ ''.html''))"
    unfolding html by (cases "dir_lookup cache k") simp_all
  finally show ?thesis .
qed

lemma html_key_not_index:
  assumes "last (split_on (CHR ''/'') key) \<noteq> ''index''"
  shows "key @ ''.html'' \<noteq> ''index.html''" "\<not> ends_with ''/index.html'' (key @ ''.html'')"
proof -
  have "key \<noteq> ''index''" using assms by auto
  then show "key @ ''.html'' \<noteq> ''index.html''"
    using append_same_eq [of key "''.html''" "''index''"] by simp
  show "\<not> ends_with ''/index.html'' (key @ ''.html'')"
  proof
    assume "ends_with ''/index.html'' (key @ ''.html'')"
    then obtain r where "key @ ''.html'' = (r @ ''/index'') @ ''.html''" by (auto simp: ends_with_iff)
    then have "key = r @ ''/index''" by (simp only: append_same_eq)
    then show False using assms split_on_append_general [of "CHR ''/''" r "''index''"] by simp
  qed
qed

text \<open>
  Looking a key up in the populated cache is the lookup chain of the other surface. Populating
  never replaces a page; the page found for a key does not depend on the order in which the map is
  walked: it is the page of the key itself, else of its directory index, else of the key with the
  suffix \<open>.html\<close>. So for a key as the normalisation gives it, whose last component has no dot and is
  not \<open>index\<close>, in a cache without a directory named like an HTML file, the populated cache answers
  exactly as \<open>resolve_page\<close> does on the original one.
\<close>

theorem aliases_resolve_alike:
  fixes cache :: "(string, 'p) hash_map"
  shows "(\<forall>k p. hm_get cache k = Some p \<longrightarrow> hm_get (populate_route_aliases cache) k = Some p)
    \<and> (\<forall>other k. (\<forall>j. hm_get other j = hm_get cache j) \<longrightarrow>
        hm_get (populate_route_aliases other) k = hm_get (populate_route_aliases cache) k)
    \<and> (key \<noteq> [] \<and> last key \<noteq> CHR ''/'' \<and> no_extension key \<and> last (split_on (CHR ''/'') key) \<noteq> ''index''
        \<and> hm_get cache (key @ ''.html'' @ ''/index.html'') = None \<longrightarrow>
        hm_get (populate_route_aliases cache) key = resolve_page cache key)"
proof (intro conjI impI allI)
  fix k p assume "hm_get cache k = Some p"
  then show "hm_get (populate_route_aliases cache) k = Some p"
    by (simp add: populate_route_aliases_get dir_lookup_def)
next
  fix other :: "(string, 'p) hash_map" and k
  assume "\<forall>j. hm_get other j = hm_get cache j"
  then have same: "hm_get other = hm_get cache" by (intro ext) blast
  have dirs: "dir_lookup other j = dir_lookup cache j" for j unfolding dir_lookup_def same ..
  show "hm_get (populate_route_aliases other) k = hm_get (populate_route_aliases cache) k"
    unfolding populate_route_aliases_get dirs ..
next
  assume k: "key \<noteq> [] \<and> last key \<noteq> CHR ''/'' \<and> no_extension key \<and> last (split_on (CHR ''/'') key) \<noteq> ''index''
        \<and> hm_get cache (key @ ''.html'' @ ''/index.html'') = None"
  have "dir_lookup cache (key @ ''.html'') = hm_get cache (key @ ''.html'')"
    using k by (simp add: dir_lookup_def split: option.splits)
  then show "hm_get (populate_route_aliases cache) key = resolve_page cache key"
    using k html_key_not_index [of key] resolve_page_candidates [of key cache]
    by (auto simp: populate_route_aliases_get dir_lookup_def candidate_keys_def split: option.splits)
qed

theorem aliases_resolve_alike_witness:
  "hm_get (populate_route_aliases [(''about.html'', 1 :: nat), (''blog/index.html'', 2)]) ''about''
      = resolve_page [(''about.html'', 1), (''blog/index.html'', 2)] ''about''
    \<and> resolve_page [(''about.html'', 1 :: nat), (''blog/index.html'', 2)] ''about'' = Some 1"
proof -
  have "resolve_page [(''about.html'', 1 :: nat), (''blog/index.html'', 2)] ''about'' = Some 1" by code_simp
  then show ?thesis
    using aliases_resolve_alike [of "[(''about.html'', 1 :: nat), (''blog/index.html'', 2)]" "''about''"]
    by (simp add: no_extension_def hm_get_def)
qed

section \<open>The fallback and the router\<close>

text \<open>
  A publication: pages built from file names and bodies, under their keys, and then the aliases. A key
  stands for the page under it, else for the index of the directory of that name, else, unless its
  last component is \<open>index\<close>, for the page or the directory named like it with the suffix \<open>.html\<close>.
\<close>

definition publish_pages ::
  "(string \<Rightarrow> nat list) \<Rightarrow> (string \<Rightarrow> string option) \<Rightarrow> (string \<times> string \<times> string) list \<Rightarrow> (string, cached_page) hash_map" where
  "publish_pages sha256 encode_all files =
    populate_route_aliases (map (\<lambda>(key, filename, body). (key, CachedPage_new sha256 encode_all filename body)) files)"

definition page_keys :: "string \<Rightarrow> string list" where
  "page_keys k = k # (if k = [] then [] else (k @ ''/index.html'') #
    (if last (split_on (CHR ''/'') k) = ''index'' then [] else [k @ ''.html'', k @ ''.html/index.html'']))"

fun first_of :: "(string \<times> 'b) list \<Rightarrow> string list \<Rightarrow> 'b option" where
  "first_of files [] = None"
| "first_of files (k # ks) = (case map_of files k of Some b \<Rightarrow> Some b | None \<Rightarrow> first_of files ks)"

lemma map_of_built:
  "map_of (map (\<lambda>(key, filename, body). (key, g filename body)) files) k = map_option (\<lambda>(f, b). g f b) (map_of files k)"
  by (induction files) auto

lemma html_key_is_index:
  assumes "last (split_on (CHR ''/'') key) = ''index''"
  shows "key @ ''.html'' = ''index.html'' \<or> ends_with ''/index.html'' (key @ ''.html'')"
proof (cases "rsplit_once (CHR ''/'') key")
  case None
  then have "split_on (CHR ''/'') key = [key]" by (intro split_on_none) (simp add: rsplit_once_None)
  then show ?thesis using assms by simp
next
  case (Some rt)
  then obtain r t where rt: "key = r @ CHR ''/'' # t" "CHR ''/'' \<notin> set t" by (cases rt) (auto simp: rsplit_once_Some)
  then have "t = ''index''" using assms split_on_append_general [of "CHR ''/''" r t] split_on_none [of "CHR ''/''" t] by simp
  then show ?thesis using rt(1) by (auto simp: ends_with_iff)
qed

lemma publish_pages_get:
  "hm_get (publish_pages sha256 encode_all files) k =
    map_option (\<lambda>(f, b). CachedPage_new sha256 encode_all f b) (first_of files (page_keys k))"
proof -
  define cache where "cache = map (\<lambda>(key, filename, body). (key, CachedPage_new sha256 encode_all filename body)) files"
  have get: "hm_get cache j = map_option (\<lambda>(f, b). CachedPage_new sha256 encode_all f b) (map_of files j)" for j
    unfolding cache_def hm_get_def by (rule map_of_built)
  have "k @ ''.html'' = ''index.html'' \<or> ends_with ''/index.html'' (k @ ''.html'') \<longleftrightarrow> last (split_on (CHR ''/'') k) = ''index''"
    using html_key_not_index [of k] html_key_is_index [of k] by blast
  then show ?thesis
    unfolding publish_pages_def cache_def [symmetric] populate_route_aliases_get dir_lookup_def get page_keys_def
    by (auto split: option.splits)
qed

lemma first_of_mem: "first_of files ks = Some v \<Longrightarrow> \<exists>k. (k, v) \<in> set files"
  by (induction ks) (auto dest: map_of_SomeD split: option.splits)

text \<open>A response that carries a file: its tag, type and length, and bytes that decode to the body.\<close>

definition carries_file ::
  "(nat \<Rightarrow> string \<Rightarrow> string option) \<Rightarrow> (string \<Rightarrow> nat list) \<Rightarrow> string \<Rightarrow> string \<Rightarrow> header_map \<Rightarrow> string \<Rightarrow> bool" where
  "carries_file decode_up_to sha256 filename body h sent \<longleftrightarrow>
    decodes_to decode_up_to h sent body \<and> header_get h ''etag'' = Some (compute_etag sha256 body)
    \<and> header_get h ''content-type'' = Some (content_type_for_ext (file_ext filename))
    \<and> header_get h ''content-length'' = Some (show_nat (length sent))"

lemma serve_cached_page_decodes:
  assumes "zstd_contract encode_all decode_up_to" "length body \<le> u64_max"
    and "serve_cached_page decode_up_to (CachedPage_new sha256 encode_all filename body) hs status skip = (st, h, sent)"
  shows "if \<not> skip \<and> if_none_match_matches hs (compute_etag sha256 body) then st = 304 \<and> sent = []
    else st = status \<and> carries_file decode_up_to sha256 filename body h sent"
proof -
  define page where "page = CachedPage_new sha256 encode_all filename body"
  define z where "z = pe_body_zstd (PageEntry_new sha256 encode_all filename body)"
  note built = serve_cached_page_built [OF assms(1,2) page_def z_def]
  note f = CachedPage_new_fields [OF z_def page_def]
  have dec: "\<forall>n. length body \<le> n \<longrightarrow> decode_up_to n x = Some body" if "z = Some x" for x
    using PageEntry_zstd_decodes [OF assms(1)] that unfolding z_def by blast
  have call: "serve_cached_page decode_up_to page hs status skip = (st, h, sent)" using assms(3) by (simp add: page_def)
  show ?thesis
  proof (cases "\<not> skip \<and> if_none_match_matches hs (compute_etag sha256 body)")
    case True
    then show ?thesis using call built by simp
  next
    case False
    show ?thesis
    proof (cases "wants_zstd hs \<and> z \<noteq> None")
      case True
      then obtain x where x: "z = Some x" by blast
      then have "st = status" "h = cp_headers_zstd page" "sent = x" using call built False True by auto
      then show ?thesis unfolding if_not_P [OF False] using f(7) [OF x] dec [OF x] by (simp add: decodes_to_def carries_file_def)
    next
      case no: False
      then have "st = status" "h = cp_headers_raw page" "sent = body" using call built False by (simp_all split: if_splits)
      then show ?thesis unfolding if_not_P [OF False] using f(6) by (simp add: decodes_to_def carries_file_def)
    qed
  qed
qed

lemma lookup_serves_published:
  assumes "zstd_contract encode_all decode_up_to" "\<forall>(key, filename, body) \<in> set files. length body \<le> u64_max"
    and "(case hm_get (publish_pages sha256 encode_all files) key of
        Some page \<Rightarrow> serve_cached_page decode_up_to page hs 200 False
      | None \<Rightarrow> (case Option.bind error_key (hm_get (publish_pages sha256 encode_all files)) of
          Some error_page \<Rightarrow> serve_cached_page decode_up_to error_page hs 404 True
        | None \<Rightarrow> (404, [], ''not found''))) = (st, h, sent)"
  shows "case first_of files (page_keys key) of
      Some (filename, body) \<Rightarrow>
        if if_none_match_matches hs (compute_etag sha256 body) then st = 304 \<and> sent = []
        else st = 200 \<and> carries_file decode_up_to sha256 filename body h sent
    | None \<Rightarrow> st = 404 \<and>
        (case Option.bind error_key (\<lambda>k. first_of files (page_keys k)) of
          Some (filename, body) \<Rightarrow> carries_file decode_up_to sha256 filename body h sent
        | None \<Rightarrow> sent = ''not found'')"
proof -
  have fits: "length body \<le> u64_max" if "first_of files ks = Some (filename, body)" for ks filename body
    using first_of_mem [OF that] assms(2) by blast
  note served = serve_cached_page_decodes [OF assms(1) fits, where st = st and h = h and sent = sent]
  show ?thesis
  proof (cases "first_of files (page_keys key)")
    case (Some fb)
    obtain filename body where fb: "fb = (filename, body)" by (cases fb)
    then show ?thesis using assms(3) Some served [OF Some [unfolded fb]] by (simp add: publish_pages_get)
  next
    case missed: None
    show ?thesis
    proof (cases "Option.bind error_key (\<lambda>k. first_of files (page_keys k))")
      case None
      then have "Option.bind error_key (hm_get (publish_pages sha256 encode_all files)) = None"
        by (cases error_key) (simp_all add: publish_pages_get)
      then show ?thesis using assms(3) missed None by (simp add: publish_pages_get [of _ _ _ key])
    next
      case (Some fb)
      obtain k filename body where k: "fb = (filename, body)" "error_key = Some k"
          "first_of files (page_keys k) = Some (filename, body)"
        using Some by (cases fb) (auto simp: bind_eq_Some_conv)
      then show ?thesis using assms(3) missed Some served [OF k(3)] by (simp add: publish_pages_get)
    qed
  qed
qed

text \<open>
  C33. The page fallback of the serve surface decides, for any files published with their aliases. A
  method other than GET and HEAD is answered 405, a path that cannot be normalised 400, and, where
  compression is enforced, a page other than the index for a client without zstd 406. Before the
  first publication the answer is 503 with the page for that. After it, a path that stands for a file,
  by its key or by an alias, is answered with that file: 304 exactly when the client names its tag,
  else 200 with its type, tag and length and bytes that decode to its body. Any other path is a 404
  that carries the configured error page when that one is published, never a 304, and else the plain
  text.
\<close>

theorem fallback_serves_published:
  assumes "zstd_contract encode_all decode_up_to"
    and "pred_option (\<lambda>files. \<forall>(key, filename, body) \<in> set files. length body \<le> u64_max) publication"
    and "html_cache state = map_option (publish_pages sha256 encode_all) publication"
    and "cache_fallback percent_decode decode_up_to initializing_html options state request = (st, h, sent)"
  shows "if req_method request \<notin> {''GET'', ''HEAD''} then st = 405
    else case normalize_request_path percent_decode (req_path request) of
      None \<Rightarrow> st = 400
    | Some np \<Rightarrow>
        if so_enforce_zstd options \<and> np_key np \<noteq> ''index.html'' \<and> \<not> wants_zstd (req_headers request) then st = 406
        else case publication of
          None \<Rightarrow> st = 503 \<and> sent = initializing_html
        | Some files \<Rightarrow> (case first_of files (page_keys (np_key np)) of
            Some (filename, body) \<Rightarrow>
              if if_none_match_matches (req_headers request) (compute_etag sha256 body) then st = 304 \<and> sent = []
              else st = 200 \<and> carries_file decode_up_to sha256 filename body h sent
          | None \<Rightarrow> st = 404 \<and>
              (case Option.bind (so_error_page_key options) (\<lambda>k. first_of files (page_keys k)) of
                Some (filename, body) \<Rightarrow> carries_file decode_up_to sha256 filename body h sent
              | None \<Rightarrow> sent = ''not found''))"
proof (cases "req_method request \<notin> {''GET'', ''HEAD''}")
  case True
  then show ?thesis using assms(4) by (simp add: cache_fallback_def method_not_allowed_def)
next
  case get: False
  have zstd: "(case header_get (req_headers request) ''accept-encoding'' of Some a \<Rightarrow> negotiate_encoding a | None \<Rightarrow> Identity) \<noteq> Zstd
      \<longleftrightarrow> \<not> wants_zstd (req_headers request)"
    by (simp add: wants_zstd_def split: option.splits)
  have allowed: "\<not> (req_method request \<noteq> ''GET'' \<and> req_method request \<noteq> ''HEAD'')" using get by simp
  note call = assms(4) [unfolded cache_fallback_def Let_def resolve_cache_key_def zstd if_not_P [OF allowed]]
  show ?thesis
  proof (cases "normalize_request_path percent_decode (req_path request)")
    case None
    then show ?thesis using call get by simp
  next
    case np: (Some np)
    show ?thesis
    proof (cases "so_enforce_zstd options \<and> np_key np \<noteq> ''index.html'' \<and> \<not> wants_zstd (req_headers request)")
      case True
      then show ?thesis using call get np by simp
    next
      case passes: False
      note answer = call [unfolded np option.case if_not_P [OF passes] assms(3)]
      show ?thesis
        unfolding if_not_P [OF get] np option.case if_not_P [OF passes]
        using answer assms(2) lookup_serves_published [OF assms(1)] by (cases publication) simp_all
    qed
  qed
qed

definition sample_serve_state :: serve_state where
  "sample_serve_state = \<lparr>html_cache = Some (publish_pages (\<lambda>b. map of_char b) Some [(''a.html'', ''a.html'', ''hi'')]), ss_is_ready = True\<rparr>"

text \<open>The page is served under its alias.\<close>

theorem fallback_serves_published_witness:
  "case cache_fallback Some (\<lambda>n z. Some (take n z)) [] ServeOptionsBuilder_default sample_serve_state
      \<lparr>req_method = ''GET'', req_path = ''/a'', req_headers = []\<rparr> of
    (st, h, sent) \<Rightarrow> st = 200 \<and> carries_file (\<lambda>n z. Some (take n z)) (\<lambda>b. map of_char b) ''a.html'' ''hi'' h sent"
proof -
  let ?req = "\<lparr>req_method = ''GET'', req_path = ''/a'', req_headers = []\<rparr>" and ?files = "[(''a.html'', ''a.html'', ''hi'')]"
  have np: "normalize_request_path Some ''/a'' = Some \<lparr>np_key = ''a'', np_trailing_slash = False\<rparr>" by code_simp
  obtain st h sent where call: "cache_fallback Some (\<lambda>n z. Some (take n z)) [] ServeOptionsBuilder_default sample_serve_state ?req
      = (st, h, sent)" by (metis prod.exhaust)
  have small: "pred_option (\<lambda>files. \<forall>(key, filename, body) \<in> set files. length body \<le> u64_max) (Some ?files)"
    by (simp add: u64_max_def)
  have cache: "html_cache sample_serve_state = map_option (publish_pages (\<lambda>b. map of_char b) Some) (Some ?files)"
    by (simp add: sample_serve_state_def)
  have "\<not> if_none_match_matches [] tag" for tag by (simp add: if_none_match_iff header_get_all_def)
  then show ?thesis
    using fallback_serves_published [OF identity_zstd_contract small cache call] np call
    by (simp add: ServeOptionsBuilder_default_def page_keys_def)
qed

lemma serve_routes_available:
  assumes "semaphore ops available"
  shows "available (data_semaphore (fst (serve_routes ops body_limit route_of fallback limits policy state sems request)))
    = available (data_semaphore sems)"
proof -
  have "available (data_semaphore (fst (data_plane ops handler sems))) = available (data_semaphore sems)" for handler
    using semaphore.data_plane_result(1) [OF assms, of handler sems] by (cases "data_plane ops handler sems") simp
  then show ?thesis
    by (simp add: serve_routes_def within_builtin_limit_def answering_def split: option.split serve_route.split)
qed

text \<open>
  The assembled serve router. Every answer, also a shed request, a refused body and an error,
  carries the fixed security headers and a content policy, which is the page's own one where it has
  one. The probes answer with any number of permits free, none included, the data plane has as
  many permits free after the request as before, and a request takes a permit of the sessions exactly
  when it is an upgrade answered with 101.
\<close>

theorem serve_router_layers:
  assumes "semaphore ops available"
    and "serve_router ops body_limit route_of fallback limits policy csp state sems request = (sems', st, h, sent)"
    and "body_limit (max_body_bytes limits) request = None" "body_limit BUILTIN_MAX_BODY_BYTES request = None"
  shows "available (data_semaphore sems') = available (data_semaphore sems)
    \<and> header_get_all h ''x-frame-options'' = [''DENY''] \<and> header_get_all h ''x-content-type-options'' = [''nosniff'']
    \<and> header_get h ''content-security-policy'' \<noteq> None
    \<and> (route_of request = Healthz \<longrightarrow> st = 200)
    \<and> (route_of request = Readyz \<longrightarrow> st = (if ss_is_ready state then 200 else 503))
    \<and> (route_of request = Fallback \<longrightarrow> (if available (data_semaphore sems) = 0 then st = 503 \<and> sent = []
        else st = fst (fallback request) \<and> sent = snd (snd (fallback request))
          \<and> (\<forall>own. header_get (fst (snd (fallback request))) ''content-security-policy'' = Some own \<longrightarrow>
              header_get h ''content-security-policy'' = Some own)))
    \<and> available (ws_semaphore sems) = available (ws_semaphore sems') + (if route_of request = WsRoute \<and> st = 101 then 1 else 0)"
proof -
  obtain h0 where inner: "serve_routes ops body_limit route_of fallback limits policy state sems request = (sems', st, h0, sent)"
    and h: "h = security_headers csp h0"
    using assms(2) by (auto simp: serve_router_def split: prod.splits)
  have avail: "available (data_semaphore sems') = available (data_semaphore sems)"
    using serve_routes_available [OF assms(1), of body_limit route_of fallback limits policy state sems request] inner by simp
  have secured: "header_get_all h ''x-frame-options'' = [''DENY'']" "header_get_all h ''x-content-type-options'' = [''nosniff'']"
      "header_get h ''content-security-policy'' = Some (case header_get h0 ''content-security-policy'' of Some own \<Rightarrow> own | None \<Rightarrow> csp)"
    unfolding h by (simp_all add: security_headers_def Let_def header_get_all_insert split: option.splits)
  note routes = inner [unfolded serve_routes_def within_builtin_limit_def assms(3,4) option.case answering_def]
  note plane = semaphore.data_plane_result(2) [OF assms(1), of _ sems sems' "(st, h0, sent)"]
  have probes: "route_of request = Healthz \<longrightarrow> st = 200" "route_of request = Readyz \<longrightarrow> st = (if ss_is_ready state then 200 else 503)"
    using routes by (auto simp: serve_healthz_def serve_readyz_def split: if_splits)
  have page: "(st, h0, sent) = (if available (data_semaphore sems) = 0 then (503, [], []) else fallback request)" if "route_of request = Fallback"
    using routes that plane [of "\<lambda>x. (x, fallback request)"] by (auto split: if_splits)
  have "available (ws_semaphore sems) = available (ws_semaphore sems') + (if route_of request = WsRoute \<and> st = 101 then 1 else 0)"
  proof (cases "route_of request")
    case WsRoute
    then have "(ws_semaphore sems', st, h0, sent) = (if available (data_semaphore sems) = 0 then (ws_semaphore sems, 503, [], [])
        else ws_upgrade ops policy request (ws_semaphore sems))"
      using routes plane [of "\<lambda>x. ws_upgrade ops policy request x"] by simp
    then show ?thesis
      using WsRoute semaphore.ws_upgrade_takes [OF assms(1), of policy request "ws_semaphore sems" "ws_semaphore sems'" st h0 sent]
      by (auto split: if_splits)
  next
    case Favicon
    then show ?thesis using routes plane [of "\<lambda>x. (x, favicon)"] by (auto split: if_splits)
  next
    case Fallback
    then show ?thesis using routes plane [of "\<lambda>x. (x, fallback request)"] by (auto split: if_splits)
  next
    case (Extra answer)
    then show ?thesis using routes plane [of "\<lambda>x. (x, answer)"] by (auto split: if_splits)
  qed (use routes in simp_all)
  then show ?thesis using avail secured probes page by (cases "fallback request") (auto split: if_splits)
qed

theorem serve_router_layers_witness:
  "\<exists>sems' st h sent. serve_router counter_semaphore (\<lambda>_ _. None) (\<lambda>_. Healthz)
      (cache_fallback Some (\<lambda>n z. Some (take n z)) [] ServeOptionsBuilder_default sample_serve_state)
      LayerLimits_permissive_for_tests (WsPolicy_new 1) DEFAULT_CSP sample_serve_state \<lparr>data_semaphore = 0, ws_semaphore = 0\<rparr>
      \<lparr>req_method = ''GET'', req_path = ''/healthz'', req_headers = []\<rparr> = (sems', st, h, sent)
    \<and> st = 200 \<and> header_get_all h ''x-frame-options'' = [''DENY'']"
proof -
  obtain sems' st h sent where call: "serve_router counter_semaphore (\<lambda>_ _. None) (\<lambda>_. Healthz)
      (cache_fallback Some (\<lambda>n z. Some (take n z)) [] ServeOptionsBuilder_default sample_serve_state)
      LayerLimits_permissive_for_tests (WsPolicy_new 1) DEFAULT_CSP sample_serve_state \<lparr>data_semaphore = 0, ws_semaphore = 0\<rparr>
      \<lparr>req_method = ''GET'', req_path = ''/healthz'', req_headers = []\<rparr> = (sems', st, h, sent)"
    by (metis prod.exhaust)
  then show ?thesis using serve_router_layers [OF counter.semaphore_axioms call] by simp
qed

section \<open>Starting\<close>

text \<open>
  A socket address is an IPv4 address, which starts with a digit, or an IPv6 address in brackets, and
  a port. So of the three addresses the code takes for local, two cannot be bound: the host name and
  the bare IPv6 address fail to parse, whatever the port. And the address is reported only when the
  server binds the socket itself, not for a listener it is given.
\<close>

lemma start_local_addresses:
  assumes "\<forall>s addr. parse_addr s = Some addr \<longrightarrow> s \<noteq> [] \<and> (hd s = CHR ''['' \<or> hd s \<in> set ''0123456789'')"
  shows "fst (start parse_addr bind show_addr local_addr serve port ''localhost'' None wants) = Err (InvalidAddress (''localhost:'' @ show_nat port))"
    and "fst (start parse_addr bind show_addr local_addr serve port ''::1'' None wants) = Err (InvalidAddress (''::1:'' @ show_nat port))"
    and "snd (start parse_addr bind show_addr local_addr serve port address (Some l) True) = None"
proof -
  have refused: "parse_addr s = None" if "s \<noteq> []" "hd s \<noteq> CHR ''[''" "hd s \<notin> set ''0123456789''" for s
    using assms that by (cases "parse_addr s") blast+
  have "parse_addr (''localhost:'' @ show_nat port) = None" by (rule refused) simp_all
  moreover have "parse_addr (''::1:'' @ show_nat port) = None" by (rule refused) simp_all
  ultimately show "fst (start parse_addr bind show_addr local_addr serve port ''localhost'' None wants) = Err (InvalidAddress (''localhost:'' @ show_nat port))"
    and "fst (start parse_addr bind show_addr local_addr serve port ''::1'' None wants) = Err (InvalidAddress (''::1:'' @ show_nat port))"
    by (simp_all add: start_def)
  show "snd (start parse_addr bind show_addr local_addr serve port address (Some l) True) = None" by (simp add: start_def)
qed

end
