(* ===== verification/Web_Projection.thy ===== *)
theory Web_Projection
  imports Web_Session Core_Types
begin

text \<open>
  The update events of the two read surfaces (\<open>PageUpdate\<close> of
  \<open>cherry-pit-web/src/projection/state.rs\<close>, \<open>PageUpdateEvent\<close> of \<open>serve/state.rs\<close>) and the router of
  the projection surface (\<open>build_projection_router\<close> of \<open>projection/mod.rs\<close> with \<open>build\<close> and
  \<open>build_probes\<close> of \<open>handlers.rs\<close>). JSON values, their rendering and the framework's routing and body
  limit are parameters.
\<close>

section \<open>Update events\<close>

record 'j json_ops =
  json_num :: "nat \<Rightarrow> 'j"
  json_str :: "string \<Rightarrow> 'j"
  json_arr :: "'j list \<Rightarrow> 'j"
  json_render :: "(string \<rightharpoonup> 'j) \<Rightarrow> string"

record page_update =
  pu_pages :: "string list"
  pu_repo :: string
  pu_timestamp :: string
  pu_json :: string
  pu_correlation :: correlation_context

definition PageUpdate_new ::
  "'j json_ops \<Rightarrow> string list \<Rightarrow> string \<Rightarrow> string \<Rightarrow> correlation_context \<Rightarrow> page_update" where
  "PageUpdate_new j pages repo timestamp correlation =
    \<lparr>pu_pages = pages, pu_repo = repo, pu_timestamp = timestamp,
     pu_json = json_render j [''v'' \<mapsto> json_num j 1, ''type'' \<mapsto> json_str j ''update'',
       ''pages'' \<mapsto> json_arr j (map (json_str j) pages), ''repo'' \<mapsto> json_str j repo, ''timestamp'' \<mapsto> json_str j timestamp],
     pu_correlation = correlation\<rparr>"

record 'j page_update_event =
  pue_pages :: "string list"
  pue_metadata :: "string \<rightharpoonup> 'j"
  pue_timestamp :: string
  pue_json :: string

definition update_payload :: "'j json_ops \<Rightarrow> string list \<Rightarrow> (string \<rightharpoonup> 'j) \<Rightarrow> string \<Rightarrow> string \<rightharpoonup> 'j" where
  "update_payload j pages metadata timestamp =
    metadata(''type'' \<mapsto> json_str j ''update'', ''pages'' \<mapsto> json_arr j (map (json_str j) pages), ''timestamp'' \<mapsto> json_str j timestamp)"

definition with_metadata :: "'j json_ops \<Rightarrow> string list \<Rightarrow> (string \<rightharpoonup> 'j) \<Rightarrow> string \<Rightarrow> 'j page_update_event" where
  "with_metadata j pages metadata timestamp =
    \<lparr>pue_pages = pages, pue_metadata = metadata, pue_timestamp = timestamp,
     pue_json = json_render j (update_payload j pages metadata timestamp)\<rparr>"

definition PageUpdateEvent_new :: "'j json_ops \<Rightarrow> string list \<Rightarrow> string \<Rightarrow> 'j page_update_event" where
  "PageUpdateEvent_new j pages timestamp = with_metadata j pages Map.empty timestamp"

section \<open>The router\<close>

datatype projection_route = SnapshotPage | WsUpgrade | ProbeHealthz | ProbeReadyz | ExtraRoute http_response

definition build_projection_router ::
  "'s semaphore_ops \<Rightarrow> (string \<Rightarrow> string option) \<Rightarrow> (nat \<Rightarrow> http_request \<Rightarrow> http_response option) \<Rightarrow> (http_request \<Rightarrow> projection_route)
    \<Rightarrow> page_source \<Rightarrow> layer_limits \<Rightarrow> ws_policy \<Rightarrow> 's route_sems \<Rightarrow> http_request \<Rightarrow> 's route_sems \<times> http_response" where
  "build_projection_router ops percent_decode body_limit route_of source limits policy sems request =
    (case body_limit (max_body_bytes limits) request of
      Some refusal \<Rightarrow> (sems, refusal)
    | None \<Rightarrow> (case (case route_of request of
          ProbeHealthz \<Rightarrow> (sems, healthz)
        | ProbeReadyz \<Rightarrow> (sems, readyz source)
        | SnapshotPage \<Rightarrow> data_plane ops (answering (snapshot_get percent_decode source request)) sems
        | WsUpgrade \<Rightarrow> data_plane ops (ws_upgrade ops policy request) sems
        | ExtraRoute answer \<Rightarrow> data_plane ops (answering answer) sems) of
        (sems', response) \<Rightarrow> (sems', projection_default_csp response)))"

section \<open>What the payloads say\<close>

text \<open>What serialising to JSON promises: different values have different renderings.\<close>

definition json_faithful :: "'j json_ops \<Rightarrow> bool" where
  "json_faithful j \<longleftrightarrow> inj (json_num j) \<and> inj (json_str j) \<and> inj (json_arr j) \<and> inj (json_render j)"

lemma PageUpdate_json_determines:
  assumes "json_faithful j"
  shows "pu_json (PageUpdate_new j pages repo ts c) = pu_json (PageUpdate_new j pages' repo' ts' c') \<longleftrightarrow>
    pages = pages' \<and> repo = repo' \<and> ts = ts'"
proof
  assume eq: "pu_json (PageUpdate_new j pages repo ts c) = pu_json (PageUpdate_new j pages' repo' ts' c')"
  let ?m = "\<lambda>pages repo ts. [''v'' \<mapsto> json_num j 1, ''type'' \<mapsto> json_str j ''update'',
       ''pages'' \<mapsto> json_arr j (map (json_str j) pages), ''repo'' \<mapsto> json_str j repo, ''timestamp'' \<mapsto> json_str j ts]"
  have m: "?m pages repo ts = ?m pages' repo' ts'"
    using eq assms by (simp only: json_faithful_def PageUpdate_new_def page_update.simps inj_eq)
  have "json_arr j (map (json_str j) pages) = json_arr j (map (json_str j) pages')" "json_str j repo = json_str j repo'"
      "json_str j ts = json_str j ts'"
    using fun_cong [OF m, of "''pages''"] fun_cong [OF m, of "''repo''"] fun_cong [OF m, of "''timestamp''"] by simp_all
  then show "pages = pages' \<and> repo = repo' \<and> ts = ts'" using assms by (simp add: json_faithful_def inj_eq inj_map_eq_map)
qed (simp add: PageUpdate_new_def)

text \<open>
  Metadata of the caller never takes the place of a field the server writes, and reaches the payload
  under every other name.
\<close>

lemma update_payload_lookup:
  "update_payload j pages metadata ts ''type'' = Some (json_str j ''update'')"
  "update_payload j pages metadata ts ''pages'' = Some (json_arr j (map (json_str j) pages))"
  "update_payload j pages metadata ts ''timestamp'' = Some (json_str j ts)"
  "k \<notin> {''type'', ''pages'', ''timestamp''} \<Longrightarrow> update_payload j pages metadata ts k = metadata k"
  by (simp_all add: update_payload_def)

lemma event_json_determines:
  assumes "json_faithful j" "pue_json (with_metadata j pages metadata ts) = pue_json (with_metadata j pages' metadata' ts')"
  shows "pages = pages' \<and> ts = ts' \<and> (\<forall>k. k \<notin> {''type'', ''pages'', ''timestamp''} \<longrightarrow> metadata k = metadata' k)"
proof -
  have eq: "update_payload j pages metadata ts = update_payload j pages' metadata' ts'"
    using assms by (simp add: with_metadata_def json_faithful_def inj_eq)
  have "json_arr j (map (json_str j) pages) = json_arr j (map (json_str j) pages')" "json_str j ts = json_str j ts'"
    using fun_cong [OF eq, of "''pages''"] fun_cong [OF eq, of "''timestamp''"] by (simp_all add: update_payload_lookup)
  then show ?thesis using assms(1) fun_cong [OF eq] update_payload_lookup(4)
    by (metis json_faithful_def inj_eq inj_map_eq_map)
qed

section \<open>What the router guarantees\<close>

lemma upgrade_counts:
  assumes "semaphore ops available"
    and "(ws', st, h, b) = (if free = (0 :: nat) then (ws, 503, [], []) else ws_upgrade ops policy request ws)"
  shows "available ws = available ws' + (if st = 101 then 1 else 0)"
    and "st = (if free = 0 then 503 else if \<not> validate_ws_origin (req_headers request) (ws_origin_policy policy) then 403
      else if available ws = 0 then 503 else 101)"
proof -
  show "available ws = available ws' + (if st = 101 then 1 else 0)"
    using assms(2) semaphore.ws_upgrade_takes [OF assms(1), of policy request ws ws' st h b] by (auto split: if_splits)
  show "st = (if free = 0 then 503 else if \<not> validate_ws_origin (req_headers request) (ws_origin_policy policy) then 403
      else if available ws = 0 then 503 else 101)"
    using assms(2) semaphore.acquire_iff [OF assms(1), of ws]
    by (auto simp: ws_upgrade_def ws_handler_def split: if_splits option.splits)
qed

text \<open>
  C28. The projection router. An oversized body gets the refusal of the outermost layer as it is, and
  no permit moves. Every other answer carries a content security policy, an extra route's own one
  where it has one, and leaves the data plane with as many permits as before; a permit of the
  sessions is taken exactly by an upgrade answered with 101, on no other route. The probes answer
  whether or not permits are left. With none left, a page request, an upgrade and an extra route are
  answered 503; else the page request is answered by the snapshot handler, the extra route by its own
  handler, and the upgrade with 403 exactly when its origin is refused, else with 503 exactly when all
  sessions are taken, else with 101.
\<close>

theorem projection_router_layers:
  assumes "semaphore ops available"
    and "build_projection_router ops percent_decode body_limit route_of source limits policy sems request = (sems', status, headers, body)"
  shows "case body_limit (max_body_bytes limits) request of
      Some refusal \<Rightarrow> sems' = sems \<and> (status, headers, body) = refusal
    | None \<Rightarrow>
        available (data_semaphore sems') = available (data_semaphore sems)
        \<and> header_get headers ''content-security-policy'' \<noteq> None
        \<and> available (ws_semaphore sems)
          = available (ws_semaphore sems') + (if route_of request = WsUpgrade \<and> status = 101 then 1 else 0)
        \<and> (case route_of request of
            ProbeHealthz \<Rightarrow> status = 200
          | ProbeReadyz \<Rightarrow> status = (if ps_is_ready source then 200 else 503)
          | SnapshotPage \<Rightarrow> (status, body) = (if available (data_semaphore sems) = 0 then (503, [])
              else (fst (snapshot_get percent_decode source request), snd (snd (snapshot_get percent_decode source request))))
          | WsUpgrade \<Rightarrow> status = (if available (data_semaphore sems) = 0 then 503
              else if \<not> validate_ws_origin (req_headers request) (ws_origin_policy policy) then 403
              else if available (ws_semaphore sems) = 0 then 503 else 101)
          | ExtraRoute answer \<Rightarrow> if available (data_semaphore sems) = 0 then (status, body) = (503, [])
              else (status, body) = (fst answer, snd (snd answer))
                \<and> header_get headers ''content-security-policy'' =
                  Some (case header_get (fst (snd answer)) ''content-security-policy'' of Some own \<Rightarrow> own | None \<Rightarrow> DEFAULT_CSP))"
proof (cases "body_limit (max_body_bytes limits) request")
  case (Some refusal)
  then show ?thesis using assms(2) by (auto simp: build_projection_router_def)
next
  case within: None
  obtain st h b where inner: "(case route_of request of
          ProbeHealthz \<Rightarrow> (sems, healthz)
        | ProbeReadyz \<Rightarrow> (sems, readyz source)
        | SnapshotPage \<Rightarrow> data_plane ops (answering (snapshot_get percent_decode source request)) sems
        | WsUpgrade \<Rightarrow> data_plane ops (ws_upgrade ops policy request) sems
        | ExtraRoute answer \<Rightarrow> data_plane ops (answering answer) sems) = (sems', st, h, b)"
    and csp: "(status, headers, body) = projection_default_csp (st, h, b)"
    using assms(2) within by (auto simp: build_projection_router_def split: prod.splits)
  have kept: "status = st" "body = b" "header_get headers ''content-security-policy''
      = Some (case header_get h ''content-security-policy'' of Some own \<Rightarrow> own | None \<Rightarrow> DEFAULT_CSP)"
    using csp by (auto simp: projection_default_csp_def split: if_splits)
  note plane = semaphore.data_plane_result [OF assms(1), of _ sems sems' "(st, h, b)"]
  show ?thesis
  proof (cases "route_of request")
    case SnapshotPage
    then have run: "data_plane ops (answering (snapshot_get percent_decode source request)) sems = (sems', st, h, b)" using inner by simp
    show ?thesis
      using within SnapshotPage kept plane [OF run]
      by (cases "snapshot_get percent_decode source request") (auto simp: answering_def split: if_splits)
  next
    case WsUpgrade
    then have run: "data_plane ops (ws_upgrade ops policy request) sems = (sems', st, h, b)" using inner by simp
    show ?thesis
      using within WsUpgrade kept plane(1) [OF run] upgrade_counts [OF assms(1) plane(2) [OF run]] by simp
  next
    case (ExtraRoute answer)
    then have run: "data_plane ops (answering answer) sems = (sems', st, h, b)" using inner by simp
    show ?thesis using within ExtraRoute kept plane [OF run]
      by (cases answer) (auto simp: answering_def split: if_splits)
  qed (use within inner kept in \<open>auto simp: healthz_def readyz_def split: if_splits\<close>)
qed

theorem projection_router_layers_witness:
  "\<exists>sems' headers body. build_projection_router counter_semaphore Some (\<lambda>_ _. None) (\<lambda>_. ProbeReadyz) sample_source
      LayerLimits_permissive_for_tests (WsPolicy_new 1) \<lparr>data_semaphore = 0, ws_semaphore = 0\<rparr> (sample_get ''/v1/readyz'')
        = (sems', 200, headers, body)
    \<and> header_get headers ''content-security-policy'' \<noteq> None"
proof -
  obtain sems' status headers body where call: "build_projection_router counter_semaphore Some (\<lambda>_ _. None) (\<lambda>_. ProbeReadyz) sample_source
      LayerLimits_permissive_for_tests (WsPolicy_new 1) \<lparr>data_semaphore = 0, ws_semaphore = 0\<rparr> (sample_get ''/v1/readyz'')
        = (sems', status, headers, body)" by (metis prod.exhaust)
  then show ?thesis using projection_router_layers [OF counter.semaphore_axioms call] by (simp add: sample_source_def)
qed

end
