(* ===== verification/Pardosa_Session.thy ===== *)
theory Pardosa_Session
  imports Core_Errors
begin

text \<open>
  The writer session of the \<open>pardosa\<close> crate as the two adapters use it
  (\<open>pardosa-cherry-pit-projection/src/lib.rs\<close> and \<open>pardosa-cherry-pit-test-support/src/lib.rs\<close>). The
  crate is not part of the repository: its operations are the fields of a record that every
  operation of the adapters takes, and what the adapters rely on is a locale over the journal of
  the session, an append-only sequence of records, each on one fiber. A write lands, is refused, or
  its fate is not determined; then the session stays uncertain. A session that injects faults from a
  plan shows that the laws can hold on every branch.
\<close>

section \<open>The interface\<close>

record 'f journal_entry =
  je_fiber :: 'f
  je_event_id :: uuid
  je_detached :: bool
  je_payload :: string

datatype landing_verdict = Landed | Undetermined nat

record fiber_handle =
  is_active :: bool
  is_detached :: bool

type_synonym ('s, 'f) fiber_write = "'f \<Rightarrow> uuid \<Rightarrow> string \<Rightarrow> 's \<Rightarrow> (string, landing_verdict) result \<times> 's"

record ('s, 'f) session_ops =
  uncertain_diagnostic :: "'s \<Rightarrow> string option"
  carried_epoch :: "'s \<Rightarrow> nat"
  fiber :: "'f \<Rightarrow> 's \<Rightarrow> (string, fiber_handle) result"
  get_latest :: "'f \<Rightarrow> 's \<Rightarrow> (string, 'f journal_entry option) result"
  read_all_envelopes :: "'s \<Rightarrow> (string, 'f journal_entry list) result"
  append_to_fiber :: "('s, 'f) fiber_write"
  rescue_fiber :: "('s, 'f) fiber_write"
  detach_fiber :: "('s, 'f) fiber_write"
  sync :: "'s \<Rightarrow> (string, unit) result \<times> 's"

text \<open>What is on a fiber: nothing, a live record, or a tombstone.\<close>

datatype fiber_view = Absent | Live string | Detached

definition fiber_records :: "'f journal_entry list \<Rightarrow> 'f \<Rightarrow> 'f journal_entry list" where
  "fiber_records j f = filter (\<lambda>e. je_fiber e = f) j"

definition fiber_view :: "'f journal_entry list \<Rightarrow> 'f \<Rightarrow> fiber_view" where
  "fiber_view j f = (case last_opt (fiber_records j f) of
      None \<Rightarrow> Absent
    | Some e \<Rightarrow> if je_detached e then Detached else Live (je_payload e))"

lemma last_opt_snoc: "last_opt (xs @ [x]) = Some x"
  by (simp add: last_opt_Some)

lemma fiber_view_Nil [simp]: "fiber_view [] = (\<lambda>_. Absent)"
  by (auto simp: fiber_view_def fiber_records_def)

lemma fiber_view_snoc [simp]:
  "fiber_view (j @ [e]) = (fiber_view j)(je_fiber e := if je_detached e then Detached else Live (je_payload e))"
  by (auto simp: fiber_view_def fiber_records_def last_opt_snoc)

text \<open>What a write does to the journal, whatever its verdict.\<close>

definition write_contract ::
  "('s \<Rightarrow> 'f journal_entry list) \<Rightarrow> ('s \<Rightarrow> string option) \<Rightarrow> (fiber_view \<Rightarrow> bool) \<Rightarrow> bool \<Rightarrow> ('s, 'f) fiber_write \<Rightarrow> bool" where
  "write_contract journal uncertain allowed detached write \<longleftrightarrow>
    (\<forall>f i p s. allowed (fiber_view (journal s) f) \<longrightarrow>
      (let new = \<lparr>je_fiber = f, je_event_id = i, je_detached = detached, je_payload = p\<rparr> in
       case write f i p s of
         (Err _, s') \<Rightarrow> journal s' = journal s
       | (Ok Landed, s') \<Rightarrow> journal s' = journal s @ [new]
       | (Ok (Undetermined _), s') \<Rightarrow> (journal s' = journal s \<or> journal s' = journal s @ [new]) \<and> uncertain s' \<noteq> None))"

locale fiber_session =
  fixes ops :: "('s, 'f) session_ops"
    and journal :: "'s \<Rightarrow> 'f journal_entry list"
  assumes fiber_handle: "fiber ops f s = Ok h \<Longrightarrow>
      (is_active h \<longleftrightarrow> (\<exists>p. fiber_view (journal s) f = Live p)) \<and> (is_detached h \<longleftrightarrow> fiber_view (journal s) f = Detached)"
    and latest: "get_latest ops f s = Ok found \<Longrightarrow> found = last_opt (fiber_records (journal s) f)"
    and reads: "read_all_envelopes ops s = Ok all \<Longrightarrow> all = journal s"
    and appends: "write_contract journal (uncertain_diagnostic ops) (\<lambda>v. v \<noteq> Detached) False (append_to_fiber ops)"
    and rescues: "write_contract journal (uncertain_diagnostic ops) (\<lambda>v. v = Detached) False (rescue_fiber ops)"
    and detaches: "write_contract journal (uncertain_diagnostic ops) (\<lambda>v. \<exists>p. v = Live p) True (detach_fiber ops)"
    and syncs: "sync ops s = (synced, s') \<Longrightarrow> journal s' = journal s"

section \<open>Opening a session\<close>

text \<open>
  The storage adapter of a path: its two files can be removed, it creates a session, and it opens
  one after its recorded schema was read. Each call changes the world of files.
\<close>

record ('w, 's, 'd) storage_adapter =
  remove_meta :: "'w \<Rightarrow> 'w"
  remove_pgno :: "'w \<Rightarrow> 'w"
  adapter_create :: "nat \<Rightarrow> 'd \<Rightarrow> 'w \<Rightarrow> (string, 's) result \<times> 'w"
  read_meta_descriptor :: "'w \<Rightarrow> (string, 'd option) result"
  current_epoch :: "'w \<Rightarrow> (string, nat) result"
  open_write :: "nat \<Rightarrow> 'w \<Rightarrow> (string, 's) result \<times> 'w"
  session_descriptor :: "'s \<Rightarrow> 'd option"

section \<open>Writing a record\<close>

text \<open>
  Both adapters write a record in the same way: look the fiber up, rescue it when it is detached and
  append to it otherwise. An error of the session is distinguished from a write without a verdict.
\<close>

datatype write_failure = SessionError string | NotDetermined nat

definition landed :: "landing_verdict \<Rightarrow> (write_failure, unit) result" where
  "landed verdict = (case verdict of Landed \<Rightarrow> Ok () | Undetermined epoch \<Rightarrow> Err (NotDetermined epoch))"

definition verdict_of :: "(string, landing_verdict) result \<times> 's \<Rightarrow> (write_failure, unit) result \<times> 's" where
  "verdict_of call = (case call of (r, s') \<Rightarrow> (and_then (map_err SessionError r) landed, s'))"

definition write_record :: "('s, 'f) session_ops \<Rightarrow> 'f \<Rightarrow> uuid \<Rightarrow> string \<Rightarrow> 's \<Rightarrow> (write_failure, unit) result \<times> 's" where
  "write_record ops f event_id payload s = (case fiber ops f s of
      Err x \<Rightarrow> (Err (SessionError x), s)
    | Ok handle \<Rightarrow> verdict_of (if is_detached handle then rescue_fiber ops f event_id payload s else append_to_fiber ops f event_id payload s))"

definition detach_record :: "('s, 'f) session_ops \<Rightarrow> 'f \<Rightarrow> uuid \<Rightarrow> string \<Rightarrow> 's \<Rightarrow> (write_failure, unit) result \<times> 's" where
  "detach_record ops f event_id payload s = verdict_of (detach_fiber ops f event_id payload s)"

text \<open>The three fates of a write, on the journal.\<close>

definition write_fate ::
  "('s \<Rightarrow> 'f journal_entry list) \<Rightarrow> ('s \<Rightarrow> string option) \<Rightarrow> 'f journal_entry \<Rightarrow> 's \<Rightarrow> (write_failure, unit) result \<Rightarrow> 's \<Rightarrow> bool" where
  "write_fate journal uncertain new s r s' \<longleftrightarrow> (case r of
      Ok _ \<Rightarrow> journal s' = journal s @ [new]
    | Err (SessionError _) \<Rightarrow> journal s' = journal s
    | Err (NotDetermined _) \<Rightarrow> (journal s' = journal s \<or> journal s' = journal s @ [new]) \<and> uncertain s' \<noteq> None)"

lemma verdict_of_fate:
  assumes "write_contract journal uncertain allowed detached write" "allowed (fiber_view (journal s) f)"
    "verdict_of (write f i p s) = (r, s')"
  shows "write_fate journal uncertain \<lparr>je_fiber = f, je_event_id = i, je_detached = detached, je_payload = p\<rparr> s r s'"
proof -
  obtain v s1 where call: "write f i p s = (v, s1)" by fastforce
  then show ?thesis
    using assms(1) [unfolded write_contract_def, rule_format, OF assms(2), of i p] assms(3)
    by (cases v) (auto simp: verdict_of_def write_fate_def landed_def Let_def split: landing_verdict.splits)
qed

context fiber_session
begin

lemma write_record_fate:
  assumes "write_record ops f i p s = (r, s')"
  shows "write_fate journal (uncertain_diagnostic ops) \<lparr>je_fiber = f, je_event_id = i, je_detached = False, je_payload = p\<rparr> s r s'"
proof (cases "fiber ops f s")
  case (Inl x)
  then show ?thesis using assms by (auto simp: write_record_def write_fate_def)
next
  case (Inr h)
  note handle = fiber_handle [OF Inr]
  show ?thesis
  proof (cases "is_detached h")
    case True
    then show ?thesis using verdict_of_fate [OF rescues, of s f i p r s'] assms Inr handle by (simp add: write_record_def)
  next
    case False
    then show ?thesis using verdict_of_fate [OF appends, of s f i p r s'] assms Inr handle by (simp add: write_record_def)
  qed
qed

lemma detach_record_fate:
  assumes "detach_record ops f i p s = (r, s')" "fiber_view (journal s) f = Live p0"
  shows "write_fate journal (uncertain_diagnostic ops) \<lparr>je_fiber = f, je_event_id = i, je_detached = True, je_payload = p\<rparr> s r s'"
  using verdict_of_fate [OF detaches, of s f i p r s'] assms by (simp add: detach_record_def)

lemma latest_live:
  assumes "get_latest ops f s = Ok r" "fiber_view (journal s) f = Live p"
  obtains e where "r = Some e" "je_payload e = p"
  using latest [OF assms(1)] assms(2) by (auto simp: fiber_view_def split: option.splits if_splits)

end

section \<open>A session with faults\<close>

text \<open>Each write and each synchronisation takes the next fault of the plan; none means it works.\<close>

datatype fault = Works | Refuses | Unknown bool

record 'f planned_session =
  pl_journal :: "'f journal_entry list"
  pl_plan :: "fault list"
  pl_uncertain :: "string option"

definition next_fault :: "'f planned_session \<Rightarrow> fault \<times> 'f planned_session" where
  "next_fault s = (case pl_plan s of [] \<Rightarrow> (Works, s) | x # xs \<Rightarrow> (x, s\<lparr>pl_plan := xs\<rparr>))"

definition planned_write :: "bool \<Rightarrow> ('f planned_session, 'f) fiber_write" where
  "planned_write detached f i p s =
    (let new = \<lparr>je_fiber = f, je_event_id = i, je_detached = detached, je_payload = p\<rparr> in
     case next_fault s of
       (Works, s') \<Rightarrow> (Ok Landed, s'\<lparr>pl_journal := pl_journal s @ [new]\<rparr>)
     | (Refuses, s') \<Rightarrow> (Err ''refused'', s')
     | (Unknown lands, s') \<Rightarrow> (Ok (Undetermined 1),
         s'\<lparr>pl_journal := (if lands then pl_journal s @ [new] else pl_journal s), pl_uncertain := Some ''undetermined''\<rparr>))"

definition planned_ops :: "('f planned_session, 'f) session_ops" where
  "planned_ops =
    \<lparr>uncertain_diagnostic = pl_uncertain,
     carried_epoch = (\<lambda>_. 1),
     fiber = (\<lambda>f s. Ok \<lparr>is_active = (case fiber_view (pl_journal s) f of Live _ \<Rightarrow> True | _ \<Rightarrow> False),
       is_detached = (fiber_view (pl_journal s) f = Detached)\<rparr>),
     get_latest = (\<lambda>f s. Ok (last_opt (fiber_records (pl_journal s) f))),
     read_all_envelopes = (\<lambda>s. Ok (pl_journal s)),
     append_to_fiber = planned_write False,
     rescue_fiber = planned_write False,
     detach_fiber = planned_write True,
     sync = (\<lambda>s. case next_fault s of
         (Works, s') \<Rightarrow> (Ok (), s')
       | (_, s') \<Rightarrow> (Err ''sync failed'', s'\<lparr>pl_uncertain := Some ''sync failed''\<rparr>))\<rparr>"

definition planned_start :: "fault list \<Rightarrow> 'f planned_session" where
  "planned_start plan = \<lparr>pl_journal = [], pl_plan = plan, pl_uncertain = None\<rparr>"

lemma planned_write_contract: "write_contract pl_journal pl_uncertain allowed detached (planned_write detached)"
  by (auto simp: write_contract_def planned_write_def next_fault_def Let_def split: list.splits fault.splits)

interpretation planned: fiber_session planned_ops pl_journal
  by unfold_locales
    (auto simp: planned_ops_def planned_write_contract next_fault_def split: fiber_view.splits list.splits fault.splits)

end
