(* ===== verification/Pardosa_Projection.thy ===== *)
theory Pardosa_Projection
  imports Pardosa_Session Projection_Driver
begin

text \<open>
  The persistent projection store of \<open>pardosa-cherry-pit-projection/src/lib.rs\<close> over a writer
  session: every snapshot and every checkpoint is a record on a fiber of its own, the latest record
  of a live fiber counts. The codecs and the derivation of a fiber from a key are parameters.
\<close>

section \<open>Records and errors\<close>

definition PROJECTION_NAME_MAX :: nat where
  "PROJECTION_NAME_MAX = 128"

definition SNAPSHOT_BYTES_MAX :: nat where
  "SNAPSHOT_BYTES_MAX = 262144"

definition KIND_SNAPSHOT :: nat where
  "KIND_SNAPSHOT = 0"

definition KIND_CHECKPOINT :: nat where
  "KIND_CHECKPOINT = 1"

datatype projection_record =
    TombstoneRecord nat string nat
  | SnapshotRecord nat string string
  | CheckpointRecord nat string nat

definition snapshot_key :: "aggregate_id \<Rightarrow> string \<Rightarrow> string" where
  "snapshot_key i name = show_nat (get i) @ '':'' @ name @ '':snapshot''"

definition checkpoint_key :: "aggregate_id \<Rightarrow> string \<Rightarrow> string" where
  "checkpoint_key i name = show_nat (get i) @ '':'' @ name @ '':checkpoint''"

text \<open>\<open>ProjectionError\<close> as this crate builds it, with the diagnostics it boxes.\<close>

datatype pp_error =
    PPIndeterminate write_diagnostic
  | PPCorruptData string
  | PPInfrastructure string
  | PPCheckpointRegression nat nat
and write_diagnostic =
    WriteUndetermined nat
  | RetainedUncertainty nat string
  | SnapshotLanded pp_error
  | CheckpointLanded string
  | CheckpointRemoved pp_error
  | SnapshotRemoved string

fun pp_error_fmt :: "pp_error \<Rightarrow> string" and write_diagnostic_fmt :: "write_diagnostic \<Rightarrow> string" where
  "pp_error_fmt (PPIndeterminate d) = ''projection outcome indeterminate: '' @ write_diagnostic_fmt d"
| "pp_error_fmt (PPCorruptData x) = ''projection corrupt data: '' @ x"
| "pp_error_fmt (PPInfrastructure x) = ''projection infrastructure error: '' @ x"
| "pp_error_fmt (PPCheckpointRegression existing attempted) =
    ''checkpoint sequence regression: attempted '' @ show_nat attempted @ '' is lower than existing '' @ show_nat existing @ '' (CHE-0097)''"
| "write_diagnostic_fmt (WriteUndetermined epoch) = ''write landing undetermined at epoch '' @ show_nat epoch"
| "write_diagnostic_fmt (RetainedUncertainty epoch diagnostic) = ''session uncertain at epoch '' @ show_nat epoch @ '': '' @ diagnostic"
| "write_diagnostic_fmt (SnapshotLanded source) = ''snapshot landed before failure: '' @ pp_error_fmt source"
| "write_diagnostic_fmt (CheckpointLanded source) = ''checkpoint landed before failure: '' @ source"
| "write_diagnostic_fmt (CheckpointRemoved source) = ''checkpoint removal landed before failure: '' @ pp_error_fmt source"
| "write_diagnostic_fmt (SnapshotRemoved source) = ''snapshot removal landed before failure: '' @ source"

fun as_projection_error :: "pp_error \<Rightarrow> projection_error" where
  "as_projection_error (PPIndeterminate d) = ProjIndeterminate (BoxForeign (write_diagnostic_fmt d))"
| "as_projection_error (PPCorruptData x) = ProjCorruptData (BoxForeign x)"
| "as_projection_error (PPInfrastructure x) = ProjInfrastructure (BoxForeign x)"
| "as_projection_error (PPCheckpointRegression existing attempted) = CheckpointRegression existing attempted"

definition require_landed :: "(write_failure, unit) result \<Rightarrow> (pp_error, unit) result" where
  "require_landed r = map_err (\<lambda>e. case e of
      SessionError x \<Rightarrow> PPInfrastructure x
    | NotDetermined epoch \<Rightarrow> PPIndeterminate (WriteUndetermined epoch)) r"

section \<open>Codecs\<close>

record ('p, 'f) projection_codec =
  derive_fiber_id :: "string \<Rightarrow> 'f"
  to_vec :: "'p \<Rightarrow> (string, string) result"
  from_slice :: "string \<Rightarrow> (string, 'p) result"
  event_bytes_new :: "nat \<Rightarrow> string \<Rightarrow> (string, string) result"
  encode_payload :: "projection_record \<Rightarrow> (string, string) result"
  decode_payload :: "string \<Rightarrow> (string, projection_record) result"

definition encode_snapshot :: "('p, 'f) projection_codec \<Rightarrow> 'p \<Rightarrow> (pp_error, string) result" where
  "encode_snapshot c p = map_err PPInfrastructure (and_then (to_vec c p) (event_bytes_new c SNAPSHOT_BYTES_MAX))"

definition decode_snapshot :: "('p, 'f) projection_codec \<Rightarrow> string \<Rightarrow> (pp_error, 'p) result" where
  "decode_snapshot c bytes = map_err PPCorruptData (from_slice c bytes)"

section \<open>The store\<close>

record 's pardosa_projection_store =
  pps_session :: 's
  pps_poisoned :: bool
  pps_name :: string

definition ready_session :: "('s, 'f) session_ops \<Rightarrow> 's pardosa_projection_store \<Rightarrow> (pp_error, 's) result" where
  "ready_session ops st =
    (if pps_poisoned st then Err (PPInfrastructure ''session mutex poisoned'')
     else case uncertain_diagnostic ops (pps_session st) of
       Some diagnostic \<Rightarrow> Err (PPIndeterminate (RetainedUncertainty (carried_epoch ops (pps_session st)) diagnostic))
     | None \<Rightarrow> Ok (pps_session st))"

definition load_checkpoint_from_session ::
  "('s, 'f) session_ops \<Rightarrow> ('p, 'f) projection_codec \<Rightarrow> string \<Rightarrow> 's \<Rightarrow> aggregate_id \<Rightarrow> (pp_error, projection_checkpoint option) result" where
  "load_checkpoint_from_session ops c name s i =
    (let f = derive_fiber_id c (checkpoint_key i name) in
     and_then (map_err PPInfrastructure (fiber ops f s)) (\<lambda>handle.
       if \<not> is_active handle then Ok None
       else and_then (map_err PPInfrastructure (get_latest ops f s)) (\<lambda>latest. case latest of
         None \<Rightarrow> Ok None
       | Some env \<Rightarrow> and_then (map_err PPInfrastructure (decode_payload c (je_payload env))) (\<lambda>record. case record of
           CheckpointRecord found_id found_name last_sequence \<Rightarrow>
             if last_sequence = 0 then Err (PPCorruptData ''checkpoint sequence must be non-zero'')
             else if found_id = 0 then Err (PPCorruptData ''checkpoint aggregate id must be non-zero'')
             else (let checkpoint = ProjectionCheckpoint_new (AggregateId_new found_id) found_name last_sequence in
               if cp_aggregate_id checkpoint \<noteq> i \<or> cp_projection_name checkpoint \<noteq> name
               then Err (PPCorruptData ''checkpoint identity mismatch'')
               else Ok (Some checkpoint))
         | _ \<Rightarrow> Ok None))))"

definition pardosa_load_checkpoint ::
  "('s, 'f) session_ops \<Rightarrow> ('p, 'f) projection_codec \<Rightarrow> aggregate_id \<Rightarrow> 's pardosa_projection_store
    \<Rightarrow> (pp_error, projection_checkpoint option) result" where
  "pardosa_load_checkpoint ops c i st =
    and_then (ready_session ops st) (\<lambda>s. load_checkpoint_from_session ops c (pps_name st) s i)"

definition pardosa_load_snapshot ::
  "('s, 'f) session_ops \<Rightarrow> ('p, 'f) projection_codec \<Rightarrow> aggregate_id \<Rightarrow> 's pardosa_projection_store \<Rightarrow> (pp_error, 'p option) result" where
  "pardosa_load_snapshot ops c i st =
    (let f = derive_fiber_id c (snapshot_key i (pps_name st)) in
     and_then (ready_session ops st) (\<lambda>s.
     and_then (map_err PPInfrastructure (fiber ops f s)) (\<lambda>handle.
       if \<not> is_active handle then Ok None
       else and_then (map_err PPInfrastructure (get_latest ops f s)) (\<lambda>latest. case latest of
         None \<Rightarrow> Ok None
       | Some env \<Rightarrow> and_then (map_err PPInfrastructure (decode_payload c (je_payload env))) (\<lambda>record. case record of
           SnapshotRecord _ _ bytes \<Rightarrow> and_then (decode_snapshot c bytes) (\<lambda>p. Ok (Some p))
         | _ \<Rightarrow> Ok None)))))"

text \<open>
  \<open>persist\<close>: everything is encoded before anything is written, the snapshot is written before the
  checkpoint, and a failure after the snapshot landed says so.
\<close>

definition persist_payloads ::
  "('p, 'f) projection_codec \<Rightarrow> string \<Rightarrow> aggregate_id \<Rightarrow> 'p \<Rightarrow> nat \<Rightarrow> (pp_error, string \<times> string) result" where
  "persist_payloads c name i p last_sequence =
    and_then (encode_snapshot c p) (\<lambda>bytes.
    and_then (map_err PPInfrastructure (encode_payload c (SnapshotRecord (get i) name bytes))) (\<lambda>snapshot_payload.
    and_then (map_err PPInfrastructure (encode_payload c (CheckpointRecord (get i) name last_sequence))) (\<lambda>checkpoint_payload.
    Ok (snapshot_payload, checkpoint_payload))))"

definition persist_writes ::
  "('s, 'f) session_ops \<Rightarrow> 'f \<Rightarrow> 'f \<Rightarrow> uuid \<Rightarrow> uuid \<Rightarrow> string \<Rightarrow> string \<Rightarrow> 's \<Rightarrow> (pp_error, unit) result \<times> 's" where
  "persist_writes ops snap_fid check_fid event_id_1 event_id_2 snapshot_payload checkpoint_payload s =
    (case write_record ops snap_fid event_id_1 snapshot_payload s of (r1, s1) \<Rightarrow>
     case require_landed r1 of
       Err e \<Rightarrow> (Err e, s1)
     | Ok _ \<Rightarrow>
         (case write_record ops check_fid event_id_2 checkpoint_payload s1 of (r2, s2) \<Rightarrow>
          case require_landed r2 of
            Err e \<Rightarrow> (Err (PPIndeterminate (SnapshotLanded e)), s2)
          | Ok _ \<Rightarrow>
              (case sync ops s2 of (r3, s3) \<Rightarrow> (map_err (\<lambda>e. PPIndeterminate (CheckpointLanded e)) r3, s3))))"

definition pardosa_persist ::
  "('s, 'f) session_ops \<Rightarrow> ('p, 'f) projection_codec \<Rightarrow> uuid \<Rightarrow> uuid \<Rightarrow> aggregate_id \<Rightarrow> 'p \<Rightarrow> nat \<Rightarrow> 's pardosa_projection_store
    \<Rightarrow> (pp_error, unit) result \<times> 's pardosa_projection_store" where
  "pardosa_persist ops c event_id_1 event_id_2 i p last_sequence st =
    (let name = pps_name st in
     case and_then (ready_session ops st) (\<lambda>_.
         and_then (persist_payloads c name i p last_sequence) (\<lambda>payloads.
         and_then (ready_session ops st) (\<lambda>s.
         and_then (load_checkpoint_from_session ops c name s i) (\<lambda>existing. case existing of
             Some checkpoint \<Rightarrow>
               if last_sequence < cp_last_sequence checkpoint
               then Err (PPCheckpointRegression (cp_last_sequence checkpoint) last_sequence)
               else Ok (payloads, s)
           | None \<Rightarrow> Ok (payloads, s))))) of
       Err e \<Rightarrow> (Err e, st)
     | Ok ((snapshot_payload, checkpoint_payload), s) \<Rightarrow>
         (case persist_writes ops (derive_fiber_id c (snapshot_key i name)) (derive_fiber_id c (checkpoint_key i name))
             event_id_1 event_id_2 snapshot_payload checkpoint_payload s of
           (r, s') \<Rightarrow> (r, st\<lparr>pps_session := s'\<rparr>)))"

text \<open>\<open>delete\<close>: the checkpoint first, then the snapshot.\<close>

definition detach_if_active ::
  "('s, 'f) session_ops \<Rightarrow> ('p, 'f) projection_codec \<Rightarrow> 'f \<Rightarrow> uuid \<Rightarrow> projection_record \<Rightarrow> fiber_handle \<Rightarrow> 's \<Rightarrow> (pp_error, unit) result \<times> 's" where
  "detach_if_active ops c f event_id tombstone handle s =
    (if \<not> is_active handle then (Ok (), s)
     else case encode_payload c tombstone of
       Err x \<Rightarrow> (Err (PPInfrastructure x), s)
     | Ok payload \<Rightarrow> (case detach_record ops f event_id payload s of (r, s') \<Rightarrow> (require_landed r, s')))"

definition delete_remaining ::
  "('s, 'f) session_ops \<Rightarrow> ('p, 'f) projection_codec \<Rightarrow> string \<Rightarrow> uuid \<Rightarrow> aggregate_id \<Rightarrow> 's \<Rightarrow> (pp_error, unit) result \<times> 's" where
  "delete_remaining ops c name event_id i s =
    (let snap_fid = derive_fiber_id c (snapshot_key i name) in
     case fiber ops snap_fid s of
       Err x \<Rightarrow> (Err (PPInfrastructure x), s)
     | Ok snap_handle \<Rightarrow>
         (case detach_if_active ops c snap_fid event_id (TombstoneRecord (get i) name KIND_SNAPSHOT) snap_handle s of
           (Err e, s1) \<Rightarrow> (Err e, s1)
         | (Ok _, s1) \<Rightarrow> (case sync ops s1 of (r, s2) \<Rightarrow>
             (map_err (\<lambda>x. if is_active snap_handle then PPIndeterminate (SnapshotRemoved x) else PPInfrastructure x) r, s2))))"

definition pardosa_delete ::
  "('s, 'f) session_ops \<Rightarrow> ('p, 'f) projection_codec \<Rightarrow> uuid \<Rightarrow> uuid \<Rightarrow> aggregate_id \<Rightarrow> 's pardosa_projection_store
    \<Rightarrow> (pp_error, unit) result \<times> 's pardosa_projection_store" where
  "pardosa_delete ops c event_id_1 event_id_2 i st =
    (let name = pps_name st; check_fid = derive_fiber_id c (checkpoint_key i name) in
     case ready_session ops st of
       Err e \<Rightarrow> (Err e, st)
     | Ok s \<Rightarrow> (case fiber ops check_fid s of
         Err x \<Rightarrow> (Err (PPInfrastructure x), st)
       | Ok check_handle \<Rightarrow>
           (case detach_if_active ops c check_fid event_id_1 (TombstoneRecord (get i) name KIND_CHECKPOINT) check_handle s of
             (Err e, s1) \<Rightarrow> (Err e, st\<lparr>pps_session := s1\<rparr>)
           | (Ok _, s1) \<Rightarrow> (case delete_remaining ops c name event_id_2 i s1 of (r, s2) \<Rightarrow>
               (map_err (\<lambda>e. if is_active check_handle then PPIndeterminate (CheckpointRemoved e) else e) r,
                st\<lparr>pps_session := s2\<rparr>)))))"

section \<open>Opening and creating\<close>

definition validate_descriptor :: "'d option \<Rightarrow> 'd \<Rightarrow> (pp_error, unit) result" where
  "validate_descriptor recorded expected_desc =
    (if recorded = Some expected_desc then Ok () else Err (PPCorruptData ''projection codec/schema version mismatch''))"

definition new_store :: "string \<Rightarrow> 's \<Rightarrow> 's pardosa_projection_store" where
  "new_store name s = \<lparr>pps_session = s, pps_poisoned = False, pps_name = name\<rparr>"

definition create_pgno ::
  "(nat \<Rightarrow> string \<Rightarrow> (string, string) result) \<Rightarrow> (string, 'd) result \<Rightarrow> ('w, 's, 'd) storage_adapter \<Rightarrow> string \<Rightarrow> 'w
    \<Rightarrow> (pp_error, 's pardosa_projection_store) result \<times> 'w" where
  "create_pgno event_string_new expected_descriptor adapter name w =
    (case and_then (map_err PPInfrastructure (event_string_new PROJECTION_NAME_MAX name)) (\<lambda>bounded.
        and_then (map_err PPInfrastructure expected_descriptor) (\<lambda>descriptor. Ok (bounded, descriptor))) of
      Err e \<Rightarrow> (Err e, w)
    | Ok (bounded, descriptor) \<Rightarrow>
        (case adapter_create adapter 1 descriptor (remove_pgno adapter (remove_meta adapter w)) of
          (r, w') \<Rightarrow> (and_then (map_err PPInfrastructure r) (\<lambda>s. Ok (new_store bounded s)), w')))"

definition open_pgno ::
  "(nat \<Rightarrow> string \<Rightarrow> (string, string) result) \<Rightarrow> (string, 'd) result \<Rightarrow> ('w, 's, 'd) storage_adapter \<Rightarrow> string \<Rightarrow> 'w
    \<Rightarrow> (pp_error, 's pardosa_projection_store) result \<times> 'w" where
  "open_pgno event_string_new expected_descriptor adapter name w =
    (case and_then (map_err PPInfrastructure (event_string_new PROJECTION_NAME_MAX name)) (\<lambda>bounded.
        and_then (map_err PPInfrastructure expected_descriptor) (\<lambda>descriptor.
        and_then (map_err PPInfrastructure (read_meta_descriptor adapter w)) (\<lambda>recorded.
        and_then (validate_descriptor recorded descriptor) (\<lambda>_.
        and_then (map_err PPInfrastructure (current_epoch adapter w)) (\<lambda>epoch. Ok (bounded, descriptor, epoch)))))) of
      Err e \<Rightarrow> (Err e, w)
    | Ok (bounded, descriptor, epoch) \<Rightarrow>
        (case open_write adapter epoch w of (r, w') \<Rightarrow>
          (and_then (map_err PPInfrastructure r) (\<lambda>s.
           and_then (validate_descriptor (session_descriptor adapter s) descriptor) (\<lambda>_. Ok (new_store bounded s))), w')))"

section \<open>What is stored\<close>

definition snapshot_of :: "('p, 'f) projection_codec \<Rightarrow> string \<Rightarrow> 'f journal_entry list \<Rightarrow> aggregate_id \<Rightarrow> 'p option" where
  "snapshot_of c name j i = (case fiber_view j (derive_fiber_id c (snapshot_key i name)) of
      Live payload \<Rightarrow> (case decode_payload c payload of
          Ok (SnapshotRecord _ _ bytes) \<Rightarrow> (case from_slice c bytes of Ok p \<Rightarrow> Some p | Err _ \<Rightarrow> None)
        | _ \<Rightarrow> None)
    | _ \<Rightarrow> None)"

definition checkpoint_of :: "('p, 'f) projection_codec \<Rightarrow> string \<Rightarrow> 'f journal_entry list \<Rightarrow> aggregate_id \<Rightarrow> nat option" where
  "checkpoint_of c name j i = (case fiber_view j (derive_fiber_id c (checkpoint_key i name)) of
      Live payload \<Rightarrow> (case decode_payload c payload of Ok (CheckpointRecord _ _ n) \<Rightarrow> Some n | _ \<Rightarrow> None)
    | _ \<Rightarrow> None)"

text \<open>
  Documented behaviour of the codecs: what was encoded decodes to itself, a bounded byte string takes
  what is not too long; and the fibers of a store's keys are different.
\<close>

definition codec_contract :: "('p, 'f) projection_codec \<Rightarrow> bool" where
  "codec_contract c \<longleftrightarrow>
    (\<forall>p b. to_vec c p = Ok b \<longrightarrow> from_slice c b = Ok p)
    \<and> (\<forall>n b b'. event_bytes_new c n b = Ok b' \<longleftrightarrow> b' = b \<and> length b \<le> n)
    \<and> (\<forall>r b. encode_payload c r = Ok b \<longrightarrow> decode_payload c b = Ok r)"

definition fibers_distinct :: "('p, 'f) projection_codec \<Rightarrow> string \<Rightarrow> bool" where
  "fibers_distinct c name \<longleftrightarrow>
    inj_on (derive_fiber_id c) (range (\<lambda>i. snapshot_key i name) \<union> range (\<lambda>i. checkpoint_key i name))"

text \<open>The keys of a store are different strings.\<close>

lemma key_inj: "show_nat m @ '':'' @ xs = show_nat n @ '':'' @ ys \<longleftrightarrow> m = n \<and> xs = ys"
proof
  assume eq: "show_nat m @ '':'' @ xs = show_nat n @ '':'' @ ys"
  have digits: "CHR '':'' \<notin> set (show_nat k)" for k using show_nat_chars [of "CHR '':''" k] by auto
  have cut: "takeWhile (\<lambda>c. c \<noteq> CHR '':'') (show_nat k @ '':'' @ zs) = show_nat k" for k zs
    using digits [of k] by (subst takeWhile_append2) auto
  have "show_nat m = show_nat n" using cut [of m xs] cut [of n ys] eq by simp
  then show "m = n \<and> xs = ys" using eq by simp
qed simp

lemma keys_distinct:
  "snapshot_key i name = snapshot_key k name \<longleftrightarrow> i = k"
  "checkpoint_key i name = checkpoint_key k name \<longleftrightarrow> i = k"
  "snapshot_key i name \<noteq> checkpoint_key k name"
proof -
  show "snapshot_key i name = snapshot_key k name \<longleftrightarrow> i = k" "checkpoint_key i name = checkpoint_key k name \<longleftrightarrow> i = k"
    using key_inj by (auto simp: snapshot_key_def checkpoint_key_def aggregate_id.expand)
  have "name @ '':snapshot'' \<noteq> name @ '':checkpoint''" by simp
  then show "snapshot_key i name \<noteq> checkpoint_key k name"
    using key_inj by (simp only: snapshot_key_def checkpoint_key_def) blast
qed

lemma fiber_eqs:
  assumes "fibers_distinct c name"
  shows "derive_fiber_id c (snapshot_key i name) = derive_fiber_id c (snapshot_key k name) \<longleftrightarrow> i = k"
    "derive_fiber_id c (checkpoint_key i name) = derive_fiber_id c (checkpoint_key k name) \<longleftrightarrow> i = k"
    "derive_fiber_id c (snapshot_key i name) \<noteq> derive_fiber_id c (checkpoint_key k name)"
    "derive_fiber_id c (checkpoint_key k name) \<noteq> derive_fiber_id c (snapshot_key i name)"
proof -
  note eq_iff = inj_on_eq_iff [OF assms [unfolded fibers_distinct_def]]
  show "derive_fiber_id c (snapshot_key i name) = derive_fiber_id c (snapshot_key k name) \<longleftrightarrow> i = k"
    "derive_fiber_id c (checkpoint_key i name) = derive_fiber_id c (checkpoint_key k name) \<longleftrightarrow> i = k"
    by (subst eq_iff; simp add: keys_distinct)+
  show "derive_fiber_id c (snapshot_key i name) \<noteq> derive_fiber_id c (checkpoint_key k name)"
    by (subst eq_iff; simp add: keys_distinct)
  then show "derive_fiber_id c (checkpoint_key k name) \<noteq> derive_fiber_id c (snapshot_key i name)" by simp
qed

text \<open>
  The invariant: a live record is one this store wrote for the aggregate of its fiber, and a
  checkpoint never stands without its snapshot.
\<close>

definition store_wf :: "('p, 'f) projection_codec \<Rightarrow> string \<Rightarrow> 'f journal_entry list \<Rightarrow> bool" where
  "store_wf c name j \<longleftrightarrow> (\<forall>i.
    (\<forall>payload. fiber_view j (derive_fiber_id c (snapshot_key i name)) = Live payload \<longrightarrow>
      (\<exists>b p. decode_payload c payload = Ok (SnapshotRecord (get i) name b) \<and> from_slice c b = Ok p))
    \<and> (\<forall>payload. fiber_view j (derive_fiber_id c (checkpoint_key i name)) = Live payload \<longrightarrow>
      0 < get i \<and> (\<exists>n > 0. decode_payload c payload = Ok (CheckpointRecord (get i) name n)))
    \<and> (checkpoint_of c name j i \<noteq> None \<longrightarrow> snapshot_of c name j i \<noteq> None))"

abbreviation record_on :: "'f \<Rightarrow> uuid \<Rightarrow> bool \<Rightarrow> string \<Rightarrow> 'f journal_entry" where
  "record_on f u detached payload \<equiv> \<lparr>je_fiber = f, je_event_id = u, je_detached = detached, je_payload = payload\<rparr>"

text \<open>What each record does to the stored pairs.\<close>

lemma snapshot_written:
  assumes "fibers_distinct c name" "store_wf c name j"
    "decode_payload c payload = Ok (SnapshotRecord (get i) name b)" "from_slice c b = Ok p"
    "j' = j @ [record_on (derive_fiber_id c (snapshot_key i name)) u False payload]"
  shows "store_wf c name j' \<and> snapshot_of c name j' = (snapshot_of c name j)(i \<mapsto> p) \<and> checkpoint_of c name j' = checkpoint_of c name j"
proof -
  have snap: "snapshot_of c name j' = (snapshot_of c name j)(i \<mapsto> p)"
    using assms(3-5) fiber_eqs [OF assms(1)] by (auto simp: snapshot_of_def fun_eq_iff)
  have chk: "checkpoint_of c name j' = checkpoint_of c name j"
    using assms(5) fiber_eqs [OF assms(1)] by (auto simp: checkpoint_of_def fun_eq_iff)
  have "store_wf c name j'"
    using assms(2) unfolding store_wf_def snap chk using assms(3-5) fiber_eqs [OF assms(1)] by auto
  then show ?thesis using snap chk by blast
qed

lemma checkpoint_written:
  assumes "fibers_distinct c name" "store_wf c name j" "0 < get i" "0 < n" "snapshot_of c name j i \<noteq> None"
    "decode_payload c payload = Ok (CheckpointRecord (get i) name n)"
    "j' = j @ [record_on (derive_fiber_id c (checkpoint_key i name)) u False payload]"
  shows "store_wf c name j' \<and> snapshot_of c name j' = snapshot_of c name j \<and> checkpoint_of c name j' = (checkpoint_of c name j)(i \<mapsto> n)"
proof -
  have snap: "snapshot_of c name j' = snapshot_of c name j"
    using assms(7) fiber_eqs [OF assms(1)] by (auto simp: snapshot_of_def fun_eq_iff)
  have chk: "checkpoint_of c name j' = (checkpoint_of c name j)(i \<mapsto> n)"
    using assms(6,7) fiber_eqs [OF assms(1)] by (auto simp: checkpoint_of_def fun_eq_iff)
  have "store_wf c name j'"
    using assms(2) unfolding store_wf_def snap chk using assms(3-7) fiber_eqs [OF assms(1)] by auto
  then show ?thesis using snap chk by blast
qed

lemma checkpoint_detached:
  assumes "fibers_distinct c name" "store_wf c name j"
    "j' = j @ [record_on (derive_fiber_id c (checkpoint_key i name)) u True payload]"
  shows "store_wf c name j' \<and> snapshot_of c name j' = snapshot_of c name j \<and> checkpoint_of c name j' = (checkpoint_of c name j)(i := None)"
proof -
  have snap: "snapshot_of c name j' = snapshot_of c name j"
    using assms(3) fiber_eqs [OF assms(1)] by (auto simp: snapshot_of_def fun_eq_iff)
  have chk: "checkpoint_of c name j' = (checkpoint_of c name j)(i := None)"
    using assms(3) fiber_eqs [OF assms(1)] by (auto simp: checkpoint_of_def fun_eq_iff)
  have "store_wf c name j'"
    using assms(2) unfolding store_wf_def snap chk using assms(3) fiber_eqs [OF assms(1)] by auto
  then show ?thesis using snap chk by blast
qed

lemma snapshot_detached:
  assumes "fibers_distinct c name" "store_wf c name j" "checkpoint_of c name j i = None"
    "j' = j @ [record_on (derive_fiber_id c (snapshot_key i name)) u True payload]"
  shows "store_wf c name j' \<and> snapshot_of c name j' = (snapshot_of c name j)(i := None) \<and> checkpoint_of c name j' = checkpoint_of c name j"
proof -
  have snap: "snapshot_of c name j' = (snapshot_of c name j)(i := None)"
    using assms(4) fiber_eqs [OF assms(1)] by (auto simp: snapshot_of_def fun_eq_iff)
  have chk: "checkpoint_of c name j' = checkpoint_of c name j"
    using assms(4) fiber_eqs [OF assms(1)] by (auto simp: checkpoint_of_def fun_eq_iff)
  have "store_wf c name j'"
    using assms(2) unfolding store_wf_def snap chk using assms(3,4) fiber_eqs [OF assms(1)] by auto
  then show ?thesis using snap chk by blast
qed

text \<open>In a well-formed store the pair of an aggregate shows in the views of its fibers.\<close>

lemma wf_views:
  assumes "store_wf c name j"
  shows "(\<exists>p. fiber_view j (derive_fiber_id c (snapshot_key i name)) = Live p) \<longleftrightarrow> snapshot_of c name j i \<noteq> None"
    "(\<exists>p. fiber_view j (derive_fiber_id c (checkpoint_key i name)) = Live p) \<longleftrightarrow> checkpoint_of c name j i \<noteq> None"
  using assms [unfolded store_wf_def, rule_format, of i]
  by (auto simp: snapshot_of_def checkpoint_of_def split: fiber_view.splits)

lemma wf_checkpoint_record:
  assumes "store_wf c name j" "fiber_view j (derive_fiber_id c (checkpoint_key i name)) = Live payload"
  obtains n where "0 < n" "decode_payload c payload = Ok (CheckpointRecord (get i) name n)" "0 < get i"
  using assms(1) [unfolded store_wf_def, rule_format, of i] assms(2) by blast

lemma wf_snapshot_record:
  assumes "store_wf c name j" "fiber_view j (derive_fiber_id c (snapshot_key i name)) = Live payload"
  obtains b p where "decode_payload c payload = Ok (SnapshotRecord (get i) name b)" "from_slice c b = Ok p"
  using assms(1) [unfolded store_wf_def, rule_format, of i] assms(2) by blast

section \<open>Every outcome of the operations\<close>

text \<open>What an outcome of \<open>persist\<close> says about the pair of the aggregate, before and after.\<close>

fun persist_says :: "(pp_error, unit) result \<Rightarrow> 'p \<Rightarrow> nat \<Rightarrow> 'p option \<times> nat option \<Rightarrow> 'p option \<times> nat option \<Rightarrow> bool" where
  "persist_says (Inr _) p n old new = (new = (Some p, Some n))"
| "persist_says (Inl (PPIndeterminate (CheckpointLanded _))) p n old new = (new = (Some p, Some n))"
| "persist_says (Inl (PPIndeterminate (SnapshotLanded _))) p n old new = (new = (Some p, snd old) \<or> new = (Some p, Some n))"
| "persist_says (Inl (PPIndeterminate (WriteUndetermined _))) p n old new = (new = old \<or> new = (Some p, snd old))"
| "persist_says (Inl _) p n old new = (new = old)"

text \<open>The same for \<open>delete\<close>.\<close>

fun delete_says :: "(pp_error, unit) result \<Rightarrow> 'p option \<times> nat option \<Rightarrow> 'p option \<times> nat option \<Rightarrow> bool" where
  "delete_says (Inr _) old new = (new = (None, None))"
| "delete_says (Inl (PPIndeterminate (SnapshotRemoved _))) old new = (new = (None, None))"
| "delete_says (Inl (PPIndeterminate (CheckpointRemoved _))) old new = (new = (fst old, None) \<or> new = (None, None))"
| "delete_says (Inl (PPIndeterminate (WriteUndetermined _))) old new = (new = old \<or> new = (fst old, None) \<or> new = (None, None))"
| "delete_says (Inl _) old new = (new = old)"

definition pair_of :: "('p, 'f) projection_codec \<Rightarrow> string \<Rightarrow> 'f journal_entry list \<Rightarrow> aggregate_id \<Rightarrow> 'p option \<times> nat option" where
  "pair_of c name j i = (snapshot_of c name j i, checkpoint_of c name j i)"

text \<open>Errors raised before anything is written.\<close>

fun before_writing :: "pp_error \<Rightarrow> bool" where
  "before_writing (PPIndeterminate (RetainedUncertainty _ _)) = True"
| "before_writing (PPIndeterminate _) = False"
| "before_writing _ = True"

lemma says_before_writing:
  assumes "before_writing e"
  shows "persist_says (Err e) p n old old" "delete_says (Err e) old old"
  using assms by (cases e rule: before_writing.cases; simp)+

lemma persist_says_checkpoint: "persist_says r p n old new \<Longrightarrow> snd new = snd old \<or> snd new = Some n"
  by (induction r p n old new rule: persist_says.induct) auto

lemma ready_session_Ok: "ready_session ops st = Ok s \<Longrightarrow> s = pps_session st"
  by (simp add: ready_session_def split: if_splits option.splits)

lemma ready_session_Err: "ready_session ops st = Err e \<Longrightarrow> before_writing e"
  by (auto simp: ready_session_def split: if_splits option.splits)

lemma persist_payloads_Err: "persist_payloads c name i p n = Err e \<Longrightarrow> before_writing e"
  by (auto simp: persist_payloads_def encode_snapshot_def and_then_Err_iff map_err_Err_iff)

context fiber_session
begin

lemma load_checkpoint_result:
  assumes "store_wf c name (journal s)"
  shows "(\<exists>x. load_checkpoint_from_session ops c name s i = Err (PPInfrastructure x))
    \<or> load_checkpoint_from_session ops c name s i = Ok (map_option (ProjectionCheckpoint_new i name) (checkpoint_of c name (journal s) i))"
proof -
  let ?f = "derive_fiber_id c (checkpoint_key i name)"
  show ?thesis
  proof (cases "fiber ops ?f s")
    case (Inr h)
    show ?thesis
    proof (cases "is_active h")
      case True
      then obtain payload where live: "fiber_view (journal s) ?f = Live payload" using fiber_handle [OF Inr] by blast
      then obtain n where n: "0 < n" "decode_payload c payload = Ok (CheckpointRecord (get i) name n)" "0 < get i"
        using wf_checkpoint_record [OF assms live] by blast
      show ?thesis
      proof (cases "get_latest ops ?f s")
        case (Inr found)
        then obtain e where "found = Some e" "je_payload e = payload" using latest_live [OF Inr live] by blast
        then show ?thesis
          using \<open>fiber ops ?f s = Inr h\<close> True Inr n live
          by (simp add: load_checkpoint_from_session_def checkpoint_of_def ProjectionCheckpoint_new_def AggregateId_new_def)
      qed (use Inr True in \<open>simp add: load_checkpoint_from_session_def\<close>)
    next
      case False
      then have "checkpoint_of c name (journal s) i = None" using fiber_handle [OF Inr] wf_views(2) [OF assms, of i] by blast
      then show ?thesis using Inr False by (simp add: load_checkpoint_from_session_def)
    qed
  qed (simp add: load_checkpoint_from_session_def)
qed

lemma load_snapshot_result:
  assumes "store_wf c (pps_name st) (journal (pps_session st))" "ready_session ops st = Ok s"
  shows "(\<exists>x. pardosa_load_snapshot ops c i st = Err (PPInfrastructure x))
    \<or> pardosa_load_snapshot ops c i st = Ok (snapshot_of c (pps_name st) (journal (pps_session st)) i)"
proof -
  have s: "s = pps_session st" using ready_session_Ok [OF assms(2)] .
  let ?f = "derive_fiber_id c (snapshot_key i (pps_name st))"
  show ?thesis
  proof (cases "fiber ops ?f s")
    case (Inr h)
    show ?thesis
    proof (cases "is_active h")
      case True
      then obtain payload where live: "fiber_view (journal s) ?f = Live payload" using fiber_handle [OF Inr] by blast
      then obtain b p where b: "decode_payload c payload = Ok (SnapshotRecord (get i) (pps_name st) b)" "from_slice c b = Ok p"
        using wf_snapshot_record [of c "pps_name st" "journal s" i payload] assms(1) s live by blast
      show ?thesis
      proof (cases "get_latest ops ?f s")
        case (Inr found)
        then obtain e where "found = Some e" "je_payload e = payload" using latest_live [OF Inr live] by blast
        then show ?thesis
          using \<open>fiber ops ?f s = Inr h\<close> True Inr b live assms(2) s
          by (simp add: pardosa_load_snapshot_def snapshot_of_def decode_snapshot_def)
      qed (use Inr True assms(2) in \<open>simp add: pardosa_load_snapshot_def\<close>)
    next
      case False
      then have "snapshot_of c (pps_name st) (journal s) i = None"
        using fiber_handle [OF Inr] wf_views(1) [OF assms(1), of i] s by blast
      then show ?thesis using Inr False assms(2) s by (simp add: pardosa_load_snapshot_def)
    qed
  qed (use assms(2) in \<open>simp add: pardosa_load_snapshot_def\<close>)
qed

lemma persist_writes_outcome:
  assumes "fibers_distinct c name" "store_wf c name (journal s)" "0 < get i" "0 < n"
    "decode_payload c sp = Ok (SnapshotRecord (get i) name b)" "from_slice c b = Ok p"
    "decode_payload c cp = Ok (CheckpointRecord (get i) name n)"
    "persist_writes ops (derive_fiber_id c (snapshot_key i name)) (derive_fiber_id c (checkpoint_key i name)) u1 u2 sp cp s = (r, s')"
  shows "store_wf c name (journal s') \<and> persist_says r p n (pair_of c name (journal s) i) (pair_of c name (journal s') i)
    \<and> (\<forall>k. k \<noteq> i \<longrightarrow> pair_of c name (journal s') k = pair_of c name (journal s) k)"
proof -
  let ?snap = "derive_fiber_id c (snapshot_key i name)" and ?chk = "derive_fiber_id c (checkpoint_key i name)"
  obtain r1 s1 where w1: "write_record ops ?snap u1 sp s = (r1, s1)" by fastforce
  note fate1 = write_record_fate [OF w1, unfolded write_fate_def]
  note written1 = snapshot_written [OF assms(1,2,5,6), of _ u1]
  show ?thesis
  proof (cases r1)
    case (Inl e)
    show ?thesis
    proof (cases e)
      case (SessionError x)
      then show ?thesis using Inl fate1 w1 assms(2,8) by (auto simp: persist_writes_def require_landed_def pair_of_def)
    next
      case (NotDetermined epoch)
      then have "journal s1 = journal s \<or> journal s1 = journal s @ [record_on ?snap u1 False sp]" using fate1 Inl by simp
      then show ?thesis
        using NotDetermined Inl w1 assms(2,8) written1 [of "journal s1"]
        by (elim disjE) (auto simp: persist_writes_def require_landed_def pair_of_def)
    qed
  next
    case (Inr unit1)
    then have j1: "journal s1 = journal s @ [record_on ?snap u1 False sp]" using fate1 by simp
    note first = written1 [OF j1]
    obtain r2 s2 where w2: "write_record ops ?chk u2 cp s1 = (r2, s2)" by fastforce
    note fate2 = write_record_fate [OF w2, unfolded write_fate_def]
    have "snapshot_of c name (journal s1) i \<noteq> None" using first by simp
    note written2 = checkpoint_written [OF assms(1) conjunct1 [OF first] assms(3,4) this assms(7), of _ u2]
    show ?thesis
    proof (cases r2)
      case (Inl e)
      have "journal s2 = journal s1 \<or> journal s2 = journal s1 @ [record_on ?chk u2 False cp]"
        using fate2 Inl by (cases e) auto
      then show ?thesis
        using Inl \<open>r1 = Inr unit1\<close> w1 w2 assms(8) first written2 [of "journal s2"]
        by (elim disjE) (auto simp: persist_writes_def require_landed_def pair_of_def)
    next
      case (Inr unit2)
      then have j2: "journal s2 = journal s1 @ [record_on ?chk u2 False cp]" using fate2 by simp
      obtain r3 s3 where w3: "sync ops s2 = (r3, s3)" by fastforce
      have "journal s3 = journal s2" using syncs [OF w3] .
      then show ?thesis
        using Inr \<open>r1 = Inr unit1\<close> w1 w2 w3 assms(8) first written2 [OF j2]
        by (cases r3) (auto simp: persist_writes_def require_landed_def pair_of_def)
    qed
  qed
qed

lemma persist_outcome:
  assumes "codec_contract c" "fibers_distinct c (pps_name st)" "store_wf c (pps_name st) (journal (pps_session st))"
    "0 < get i" "0 < n" "pardosa_persist ops c u1 u2 i p n st = (r, st')"
  shows "pps_name st' = pps_name st \<and> store_wf c (pps_name st) (journal (pps_session st'))
    \<and> persist_says r p n (pair_of c (pps_name st) (journal (pps_session st)) i) (pair_of c (pps_name st) (journal (pps_session st')) i)
    \<and> (\<forall>k. k \<noteq> i \<longrightarrow> pair_of c (pps_name st) (journal (pps_session st')) k = pair_of c (pps_name st) (journal (pps_session st)) k)
    \<and> (\<forall>m. checkpoint_of c (pps_name st) (journal (pps_session st)) i = Some m \<longrightarrow>
        (\<exists>m' \<ge> m. checkpoint_of c (pps_name st) (journal (pps_session st')) i = Some m'))"
proof -
  let ?name = "pps_name st" and ?s = "pps_session st"
  let ?gate = "and_then (ready_session ops st) (\<lambda>_.
         and_then (persist_payloads c ?name i p n) (\<lambda>payloads.
         and_then (ready_session ops st) (\<lambda>s.
         and_then (load_checkpoint_from_session ops c ?name s i) (\<lambda>existing. case existing of
             Some checkpoint \<Rightarrow>
               if n < cp_last_sequence checkpoint then Err (PPCheckpointRegression (cp_last_sequence checkpoint) n) else Ok (payloads, s)
           | None \<Rightarrow> Ok (payloads, s)))))"
  show ?thesis
  proof (cases ?gate)
    case (Inl e)
    then have st': "r = Err e" "st' = st" using assms(6) by (simp_all add: pardosa_persist_def Let_def)
    have load: "load_checkpoint_from_session ops c ?name ?s i = Err x \<Longrightarrow> before_writing x" for x
      using load_checkpoint_result [OF assms(3), of i] by auto
    have "before_writing e"
      using Inl by (auto simp: and_then_Err_iff split: option.splits if_splits
        dest!: load ready_session_Ok dest: ready_session_Err persist_payloads_Err)
    then show ?thesis using st' assms(3) says_before_writing(1) by simp
  next
    case (Inr found)
    obtain sp cp s where found: "found = ((sp, cp), s)" by (metis prod.exhaust)
    from Inr obtain existing where gate: "ready_session ops st = Ok s" "persist_payloads c ?name i p n = Ok (sp, cp)"
        "load_checkpoint_from_session ops c ?name s i = Ok existing"
        "\<forall>checkpoint. n < cp_last_sequence checkpoint \<longrightarrow> existing \<noteq> Some checkpoint"
      unfolding found by (auto simp: and_then_Ok_iff split: option.splits if_splits)
    have s: "s = ?s" using ready_session_Ok [OF gate(1)] .
    obtain b where b: "decode_payload c sp = Ok (SnapshotRecord (get i) ?name b)" "from_slice c b = Ok p"
        "decode_payload c cp = Ok (CheckpointRecord (get i) ?name n)"
      using gate(2) assms(1)
      by (auto simp: persist_payloads_def encode_snapshot_def and_then_Ok_iff codec_contract_def)
    obtain s' where writes: "persist_writes ops (derive_fiber_id c (snapshot_key i ?name)) (derive_fiber_id c (checkpoint_key i ?name)) u1 u2 sp cp ?s = (r, s')"
      and st': "st' = st\<lparr>pps_session := s'\<rparr>"
      using assms(6) Inr s unfolding found pardosa_persist_def by (auto simp: Let_def split: prod.splits)
    note out = persist_writes_outcome [OF assms(2,3,4,5) b writes]
    have "existing = map_option (ProjectionCheckpoint_new i ?name) (checkpoint_of c ?name (journal ?s) i)"
      using load_checkpoint_result [OF assms(3), of i] gate(3) s by auto
    then have "m \<le> n" if "checkpoint_of c ?name (journal ?s) i = Some m" for m
      using gate(4) [rule_format, of "ProjectionCheckpoint_new i ?name m"] that by (force simp: ProjectionCheckpoint_new_def)
    moreover have "checkpoint_of c ?name (journal s') i = checkpoint_of c ?name (journal ?s) i \<or> checkpoint_of c ?name (journal s') i = Some n"
      using persist_says_checkpoint out unfolding pair_of_def by fastforce
    ultimately have "\<forall>m. checkpoint_of c ?name (journal ?s) i = Some m \<longrightarrow> (\<exists>m' \<ge> m. checkpoint_of c ?name (journal s') i = Some m')"
      by auto
    then show ?thesis using out st' by simp
  qed
qed

lemma detach_if_active_fate:
  assumes "detach_if_active ops c f u t h s = (r, s')" "fiber ops f s = Ok h"
  shows "if \<not> is_active h then r = Ok () \<and> s' = s
    else (\<exists>payload. r = Ok () \<and> journal s' = journal s @ [record_on f u True payload])
      \<or> (\<exists>x. r = Err (PPInfrastructure x) \<and> journal s' = journal s)
      \<or> (\<exists>epoch. r = Err (PPIndeterminate (WriteUndetermined epoch))
          \<and> (journal s' = journal s \<or> (\<exists>payload. journal s' = journal s @ [record_on f u True payload])))"
proof (cases "is_active h")
  case True
  then obtain p0 where live: "fiber_view (journal s) f = Live p0" using fiber_handle [OF assms(2)] by blast
  show ?thesis
  proof (cases "encode_payload c t")
    case (Inl x)
    then show ?thesis using assms(1) True by (auto simp: detach_if_active_def)
  next
    case (Inr payload)
    obtain r0 s0 where call: "detach_record ops f u payload s = (r0, s0)" by fastforce
    have rs: "r = require_landed r0" "s' = s0" using assms(1) True Inr call by (auto simp: detach_if_active_def)
    show ?thesis
      using detach_record_fate [OF call live] True unfolding rs write_fate_def
      by (cases r0) (auto simp: require_landed_def split: write_failure.splits)
  qed
qed (use assms(1) in \<open>simp add: detach_if_active_def\<close>)

lemma delete_remaining_outcome:
  assumes "fibers_distinct c name" "store_wf c name (journal s)" "checkpoint_of c name (journal s) i = None"
    "delete_remaining ops c name u i s = (r, s')"
  shows "store_wf c name (journal s') \<and> checkpoint_of c name (journal s') = checkpoint_of c name (journal s)
    \<and> (snapshot_of c name (journal s') = snapshot_of c name (journal s)
       \<or> snapshot_of c name (journal s') = (snapshot_of c name (journal s))(i := None))
    \<and> (is_ok r \<longrightarrow> snapshot_of c name (journal s') i = None)
    \<and> delete_says r (pair_of c name (journal s) i) (pair_of c name (journal s') i)"
proof -
  let ?f = "derive_fiber_id c (snapshot_key i name)"
  let ?t = "TombstoneRecord (get i) name KIND_SNAPSHOT"
  show ?thesis
  proof (cases "fiber ops ?f s")
    case (Inl x)
    then show ?thesis using assms by (auto simp: delete_remaining_def Let_def pair_of_def)
  next
    case (Inr h)
    obtain r1 s1 where d: "detach_if_active ops c ?f u ?t h s = (r1, s1)" by fastforce
    note fate = detach_if_active_fate [OF d Inr]
    note gone = snapshot_detached [OF assms(1,2,3), of _ u]
    show ?thesis
    proof (cases "is_active h")
      case False
      then have s1: "r1 = Ok ()" "s1 = s" using fate by simp_all
      have none: "snapshot_of c name (journal s) i = None"
        using fiber_handle [OF Inr] False wf_views(1) [OF assms(2), of i] by blast
      obtain r2 s2 where y: "sync ops s = (r2, s2)" by fastforce
      show ?thesis
        using assms(2,3,4) none Inr d s1 False y syncs [OF y] by (cases r2) (auto simp: delete_remaining_def Let_def pair_of_def)
    next
      case True
      show ?thesis
      proof (cases r1)
        case (Inl e)
        then have rs: "r = Err e" "s' = s1" using assms(4) \<open>fiber ops ?f s = Inr h\<close> d by (auto simp: delete_remaining_def Let_def)
        show ?thesis
        proof (cases "journal s1 = journal s")
          case same: True
          then show ?thesis using rs Inl fate True assms(2) by (auto simp: pair_of_def)
        next
          case False
          then obtain epoch payload where "e = PPIndeterminate (WriteUndetermined epoch)" "journal s1 = journal s @ [record_on ?f u True payload]"
            using Inl fate True by auto
          then show ?thesis using rs gone [of "journal s1" payload] assms(3) by (auto simp: pair_of_def)
        qed
      next
        case ok: (Inr x)
        then obtain payload where "journal s1 = journal s @ [record_on ?f u True payload]" using fate True by auto
        note g = gone [OF this]
        obtain r2 s2 where y: "sync ops s1 = (r2, s2)" by fastforce
        then have rs: "r = map_err (\<lambda>x. if is_active h then PPIndeterminate (SnapshotRemoved x) else PPInfrastructure x) r2" "s' = s2"
          using assms(4) Inr d ok by (auto simp: delete_remaining_def Let_def)
        show ?thesis using g assms(3) True syncs [OF y] unfolding rs by (cases r2) (auto simp: pair_of_def)
      qed
    qed
  qed
qed

lemma delete_outcome:
  assumes "fibers_distinct c (pps_name st)" "store_wf c (pps_name st) (journal (pps_session st))"
    "pardosa_delete ops c u1 u2 i st = (r, st')"
  shows "pps_name st' = pps_name st \<and> store_wf c (pps_name st) (journal (pps_session st'))
    \<and> delete_says r (pair_of c (pps_name st) (journal (pps_session st)) i) (pair_of c (pps_name st) (journal (pps_session st')) i)
    \<and> (\<forall>k. k \<noteq> i \<longrightarrow> pair_of c (pps_name st) (journal (pps_session st')) k = pair_of c (pps_name st) (journal (pps_session st)) k)"
proof -
  let ?name = "pps_name st" and ?s = "pps_session st"
  let ?f = "derive_fiber_id c (checkpoint_key i ?name)" and ?t = "TombstoneRecord (get i) ?name KIND_CHECKPOINT"
  show ?thesis
  proof (cases "ready_session ops st")
    case (Inl e)
    then have "r = Err e" "st' = st" using assms(3) by (simp_all add: pardosa_delete_def Let_def)
    then show ?thesis using assms(2) says_before_writing(2) [OF ready_session_Err [OF Inl]] by simp
  next
    case ready: (Inr s)
    note s = ready_session_Ok [OF ready]
    show ?thesis
    proof (cases "fiber ops ?f ?s")
      case (Inl x)
      then have "r = Err (PPInfrastructure x)" "st' = st" using assms(3) ready s by (simp_all add: pardosa_delete_def Let_def)
      then show ?thesis using assms(2) by simp
    next
      case (Inr h)
      obtain r1 s1 where d: "detach_if_active ops c ?f u1 ?t h ?s = (r1, s1)" by fastforce
      note fate = detach_if_active_fate [OF d Inr]
      note gone = checkpoint_detached [OF assms(1,2), of _ i u1]
      show ?thesis
      proof (cases r1)
        case e: (Inl e)
        then have rs: "r = Err e" "st' = st\<lparr>pps_session := s1\<rparr>" using assms(3) ready s Inr d by (simp_all add: pardosa_delete_def Let_def)
        show ?thesis
        proof (cases "journal s1 = journal ?s")
          case same: True
          then show ?thesis using rs e fate assms(2) by (auto simp: pair_of_def split: if_splits)
        next
          case False
          then obtain epoch payload where "e = PPIndeterminate (WriteUndetermined epoch)" "journal s1 = journal ?s @ [record_on ?f u1 True payload]"
            using e fate by (auto split: if_splits)
          then show ?thesis using rs gone [of "journal s1" payload] by (auto simp: pair_of_def)
        qed
      next
        case (Inr x)
        obtain r2 s2 where rem: "delete_remaining ops c ?name u2 i s1 = (r2, s2)" by fastforce
        have rs: "r = map_err (\<lambda>e. if is_active h then PPIndeterminate (CheckpointRemoved e) else e) r2" "st' = st\<lparr>pps_session := s2\<rparr>"
          using assms(3) ready s \<open>fiber ops ?f ?s = Inr h\<close> d Inr rem by (simp_all add: pardosa_delete_def Let_def)
        show ?thesis
        proof (cases "is_active h")
          case True
          then obtain payload where "journal s1 = journal ?s @ [record_on ?f u1 True payload]" using fate Inr by auto
          note g = gone [OF this]
          then have wf: "store_wf c ?name (journal s1)" "checkpoint_of c ?name (journal s1) i = None" by auto
          show ?thesis
            using g delete_remaining_outcome [OF assms(1) wf rem] True unfolding rs
            by (cases r2) (auto simp: pair_of_def)
        next
          case False
          then have s1: "s1 = ?s" using fate by simp
          have none: "checkpoint_of c ?name (journal ?s) i = None"
            using fiber_handle [OF \<open>fiber ops ?f ?s = Inr h\<close>] False wf_views(2) [OF assms(2), of i] by blast
          show ?thesis
            using delete_remaining_outcome [OF assms(1) _ _ rem] assms(2) none False unfolding rs s1
            by (cases r2) (auto simp: pair_of_def)
        qed
      qed
    qed
  qed
qed

end

section \<open>Sequences of calls\<close>

datatype 'p store_op = PersistOp aggregate_id 'p nat | DeleteOp aggregate_id

fun run_store_op ::
  "('s, 'f) session_ops \<Rightarrow> ('p, 'f) projection_codec \<Rightarrow> 'p store_op \<times> uuid \<times> uuid \<Rightarrow> 's pardosa_projection_store
    \<Rightarrow> (pp_error, unit) result \<times> 's pardosa_projection_store" where
  "run_store_op ops c (PersistOp i p n, u1, u2) st = pardosa_persist ops c u1 u2 i p n st"
| "run_store_op ops c (DeleteOp i, u1, u2) st = pardosa_delete ops c u1 u2 i st"

fun run_store_ops ::
  "('s, 'f) session_ops \<Rightarrow> ('p, 'f) projection_codec \<Rightarrow> ('p store_op \<times> uuid \<times> uuid) list \<Rightarrow> 's pardosa_projection_store
    \<Rightarrow> (pp_error, unit) result list \<times> 's pardosa_projection_store" where
  "run_store_ops ops c [] st = ([], st)"
| "run_store_ops ops c (x # xs) st =
    (case run_store_op ops c x st of (r, st1) \<Rightarrow> (case run_store_ops ops c xs st1 of (rs, st2) \<Rightarrow> (r # rs, st2)))"

definition op_valid :: "'p store_op \<times> uuid \<times> uuid \<Rightarrow> bool" where
  "op_valid x = (case fst x of PersistOp i p n \<Rightarrow> 0 < get i \<and> 0 < n | DeleteOp i \<Rightarrow> True)"

definition memory_op :: "'p store_op \<times> uuid \<times> uuid \<Rightarrow> 'p projection_op" where
  "memory_op x = (case fst x of PersistOp i p n \<Rightarrow> OpPersist i p n | DeleteOp i \<Rightarrow> OpDelete i)"

lemma run_store_op_outcome:
  assumes "fiber_session ops journal" "codec_contract c" "fibers_distinct c (pps_name st)"
    "store_wf c (pps_name st) (journal (pps_session st))" "op_valid x" "run_store_op ops c x st = (r, st')"
  shows "pps_name st' = pps_name st \<and> store_wf c (pps_name st) (journal (pps_session st'))
    \<and> (case fst x of
        PersistOp i p n \<Rightarrow> persist_says r p n (pair_of c (pps_name st) (journal (pps_session st)) i) (pair_of c (pps_name st) (journal (pps_session st')) i)
          \<and> (\<forall>k. k \<noteq> i \<longrightarrow> pair_of c (pps_name st) (journal (pps_session st')) k = pair_of c (pps_name st) (journal (pps_session st)) k)
      | DeleteOp i \<Rightarrow> delete_says r (pair_of c (pps_name st) (journal (pps_session st)) i) (pair_of c (pps_name st) (journal (pps_session st')) i)
          \<and> (\<forall>k. k \<noteq> i \<longrightarrow> pair_of c (pps_name st) (journal (pps_session st')) k = pair_of c (pps_name st) (journal (pps_session st)) k))"
proof -
  obtain op u1 u2 where x: "x = (op, u1, u2)" by (cases x) auto
  show ?thesis
  proof (cases op)
    case (PersistOp i p n)
    then show ?thesis
      using fiber_session.persist_outcome [OF assms(1,2,3,4), of i n u1 u2 p r st'] assms(5,6) x by (simp add: op_valid_def)
  next
    case (DeleteOp i)
    then show ?thesis using fiber_session.delete_outcome [OF assms(1,3,4), of u1 u2 i r st'] assms(6) x by simp
  qed
qed

lemma run_store_ops_wf:
  assumes "fiber_session ops journal" "codec_contract c" "fibers_distinct c (pps_name st)"
    "store_wf c (pps_name st) (journal (pps_session st))" "list_all op_valid xs" "run_store_ops ops c xs st = (rs, st')"
  shows "pps_name st' = pps_name st \<and> store_wf c (pps_name st) (journal (pps_session st'))"
  using assms(3-6)
proof (induction xs arbitrary: st rs)
  case (Cons x xs)
  obtain r st1 where one: "run_store_op ops c x st = (r, st1)" by fastforce
  obtain rs1 where rest: "run_store_ops ops c xs st1 = (rs1, st')" using Cons.prems(4) one by (auto split: prod.splits)
  have valid: "op_valid x" "list_all op_valid xs" using Cons.prems(3) by simp_all
  have st1: "pps_name st1 = pps_name st" "store_wf c (pps_name st) (journal (pps_session st1))"
    using run_store_op_outcome [OF assms(1,2) Cons.prems(1,2) valid(1) one] by blast+
  show ?case using Cons.IH [OF _ _ valid(2) rest] Cons.prems(1) st1 by simp
qed simp

lemma run_store_ops_memory:
  assumes "fiber_session ops journal" "codec_contract c" "fibers_distinct c (pps_name st)"
    "store_wf c (pps_name st) (journal (pps_session st))" "list_all op_valid xs" "run_store_ops ops c xs st = (rs, st')"
    "list_all is_ok rs"
    "\<forall>i. pair_of c (pps_name st) (journal (pps_session st)) i = (load_snapshot i mem, load_checkpoint i mem)"
  shows "\<forall>i. pair_of c (pps_name st) (journal (pps_session st')) i
    = (load_snapshot i (fold run_projection_op (map memory_op xs) mem), load_checkpoint i (fold run_projection_op (map memory_op xs) mem))"
  using assms(3-8)
proof (induction xs arbitrary: st rs mem)
  case (Cons x xs)
  obtain r st1 where one: "run_store_op ops c x st = (r, st1)" by fastforce
  obtain rs1 where rest: "run_store_ops ops c xs st1 = (rs1, st')" "rs = r # rs1" using Cons.prems(4) one by (auto split: prod.splits)
  have valid: "op_valid x" "list_all op_valid xs" using Cons.prems(3) by simp_all
  note out = run_store_op_outcome [OF assms(1,2) Cons.prems(1,2) valid(1) one]
  obtain u where ok: "r = Ok u" "list_all is_ok rs1" using Cons.prems(5) rest(2) by (cases r) auto
  let ?mem1 = "run_projection_op (memory_op x) mem"
  have "\<forall>i. pair_of c (pps_name st) (journal (pps_session st1)) i = (load_snapshot i ?mem1, load_checkpoint i ?mem1)"
  proof (cases "fst x")
    case (PersistOp k p n)
    then show ?thesis using out ok(1) Cons.prems(6)
      by (simp add: memory_op_def persist_def load_snapshot_def load_checkpoint_def)
  next
    case (DeleteOp k)
    then show ?thesis using out ok(1) Cons.prems(6)
      by (simp add: memory_op_def delete_def load_snapshot_def load_checkpoint_def)
  qed
  then show ?case using Cons.IH [OF _ _ valid(2) rest(1) ok(2), of ?mem1] Cons.prems(1) out by simp
qed simp

section \<open>The properties\<close>

text \<open>A codec for the records of one aggregate, and stores over a session with faults.\<close>

fun sample_encode :: "projection_record \<Rightarrow> (string, string) result" where
  "sample_encode (TombstoneRecord i name k) = (if i = 1 \<and> name = ''v'' then Ok (CHR ''t'' # replicate k CHR ''k'') else Err ''unsupported'')"
| "sample_encode (SnapshotRecord i name b) = (if i = 1 \<and> name = ''v'' then Ok (CHR ''s'' # b) else Err ''unsupported'')"
| "sample_encode (CheckpointRecord i name n) = (if i = 1 \<and> name = ''v'' then Ok (CHR ''c'' # replicate n CHR ''k'') else Err ''unsupported'')"

definition sample_decode :: "string \<Rightarrow> (string, projection_record) result" where
  "sample_decode x = (case x of
      [] \<Rightarrow> Err ''empty''
    | k # rest \<Rightarrow>
        if k = CHR ''t'' then Ok (TombstoneRecord 1 ''v'' (length rest))
        else if k = CHR ''s'' then Ok (SnapshotRecord 1 ''v'' rest)
        else Ok (CheckpointRecord 1 ''v'' (length rest)))"

definition sample_codec :: "(string, string) projection_codec" where
  "sample_codec = \<lparr>derive_fiber_id = (\<lambda>k. k), to_vec = Ok, from_slice = Ok,
    event_bytes_new = (\<lambda>n b. if length b \<le> n then Ok b else Err ''too long''),
    encode_payload = sample_encode, decode_payload = sample_decode\<rparr>"

lemma sample_codec_contract: "codec_contract sample_codec" "fibers_distinct sample_codec name"
proof -
  have "sample_encode r = Ok b \<Longrightarrow> sample_decode b = Ok r" for r b
    by (cases r) (auto simp: sample_decode_def split: if_splits)
  then show "codec_contract sample_codec" by (auto simp: codec_contract_def sample_codec_def)
  show "fibers_distinct sample_codec name" by (simp add: fibers_distinct_def sample_codec_def inj_on_def)
qed

definition sample_persist :: "fault list \<Rightarrow> (pp_error, unit) result \<times> string planned_session pardosa_projection_store" where
  "sample_persist plan = pardosa_persist planned_ops sample_codec 7 8 (AggregateId 1) ''p'' 4 (new_store ''v'' (planned_start plan))"

lemmas planned_defs = pardosa_persist_def new_store_def planned_start_def ready_session_def planned_ops_def
  persist_payloads_def encode_snapshot_def sample_codec_def SNAPSHOT_BYTES_MAX_def load_checkpoint_from_session_def
  persist_writes_def write_record_def verdict_of_def landed_def require_landed_def planned_write_def next_fault_def
  snapshot_key_def checkpoint_key_def show_nat_digit digit_char_def

text \<open>
  C20. The persistent projection store. On any session that keeps the contract of the journal,
  whatever writes land, are refused or stay undetermined, after any sequence of calls on an
  empty journal a checkpoint never stands without its snapshot, so neither does it after a crash
  between two writes; every live record is readable, so a load fails only when the session does, and
  returns the stored value otherwise.
\<close>

theorem pardosa_checkpoint_has_snapshot:
  assumes "fiber_session ops journal" "codec_contract c" "fibers_distinct c name" "journal s = []"
    and "list_all op_valid xs" "run_store_ops ops c xs (new_store name s) = (rs, st)"
  shows "(checkpoint_of c name (journal (pps_session st)) i \<noteq> None \<longrightarrow> snapshot_of c name (journal (pps_session st)) i \<noteq> None)
    \<and> (ready_session ops st = Ok s' \<longrightarrow>
        pardosa_load_snapshot ops c i st \<in> {Ok (snapshot_of c name (journal (pps_session st)) i)} \<union> range (\<lambda>x. Err (PPInfrastructure x))
        \<and> pardosa_load_checkpoint ops c i st \<in>
          {Ok (map_option (ProjectionCheckpoint_new i name) (checkpoint_of c name (journal (pps_session st)) i))} \<union> range (\<lambda>x. Err (PPInfrastructure x)))"
proof -
  have "store_wf c name (journal s)" using assms(4) by (simp add: store_wf_def checkpoint_of_def)
  then have st: "pps_name st = name" "store_wf c name (journal (pps_session st))"
    using run_store_ops_wf [OF assms(1,2), of "new_store name s" xs rs st] assms(3,5,6) by (simp_all add: new_store_def)
  have "pardosa_load_snapshot ops c i st \<in> {Ok (snapshot_of c name (journal (pps_session st)) i)} \<union> range (\<lambda>x. Err (PPInfrastructure x))"
      "pardosa_load_checkpoint ops c i st \<in>
        {Ok (map_option (ProjectionCheckpoint_new i name) (checkpoint_of c name (journal (pps_session st)) i))} \<union> range (\<lambda>x. Err (PPInfrastructure x))"
    if ready: "ready_session ops st = Ok s'"
    using fiber_session.load_snapshot_result [OF assms(1) _ ready, of c i]
      fiber_session.load_checkpoint_result [OF assms(1), of c name "pps_session st" i] st ready_session_Ok [OF ready] ready
    by (auto simp: pardosa_load_checkpoint_def)
  moreover have "checkpoint_of c name (journal (pps_session st)) i \<noteq> None \<longrightarrow> snapshot_of c name (journal (pps_session st)) i \<noteq> None"
    using st(2) [unfolded store_wf_def, rule_format, of i] by blast
  ultimately show ?thesis by blast
qed

theorem pardosa_checkpoint_has_snapshot_witness:
  "\<exists>r st. run_store_ops planned_ops sample_codec [(PersistOp (AggregateId 1) ''p'' 4, 7, 8)] (new_store ''v'' (planned_start [Works, Refuses]))
      = ([r], st)
    \<and> (checkpoint_of sample_codec ''v'' (pl_journal (pps_session st)) (AggregateId 1) \<noteq> None \<longrightarrow>
        snapshot_of sample_codec ''v'' (pl_journal (pps_session st)) (AggregateId 1) \<noteq> None)"
proof -
  obtain r st where "sample_persist [Works, Refuses] = (r, st)" by fastforce
  then have run: "run_store_ops planned_ops sample_codec [(PersistOp (AggregateId 1) ''p'' 4, 7, 8)]
      (new_store ''v'' (planned_start [Works, Refuses])) = ([r], st)" by (simp add: sample_persist_def)
  have "pl_journal (planned_start [Works, Refuses] :: string planned_session) = []" by (simp add: planned_start_def)
  then show ?thesis
    using pardosa_checkpoint_has_snapshot [OF planned.fiber_session_axioms sample_codec_contract _ _ run, of "AggregateId 1"] run
    by (simp add: op_valid_def)
qed

text \<open>
  C23. What an answer of \<open>persist\<close> means, on every branch. Success stores the pair; a
  diagnostic that the checkpoint landed means the pair is stored; one that the snapshot landed means the new
  snapshot is stored beside the old or the new checkpoint; an undetermined write leaves the pair or
  replaces the snapshot only; every other error leaves the pair unchanged. The pairs of other aggregates
  never change and the checkpoint never goes back.
\<close>

theorem pardosa_persist_outcomes:
  assumes "fiber_session ops journal" "codec_contract c" "fibers_distinct c (pps_name st)"
    and "store_wf c (pps_name st) (journal (pps_session st))" "0 < get i" "0 < n"
    and "pardosa_persist ops c u1 u2 i p n st = (r, st')"
    and "pair_of c (pps_name st) (journal (pps_session st)) i = (old_snapshot, old_checkpoint)"
    and "pair_of c (pps_name st) (journal (pps_session st')) i = (new_snapshot, new_checkpoint)"
  shows "(r = Ok () \<longrightarrow> new_snapshot = Some p \<and> new_checkpoint = Some n)
    \<and> (\<forall>x. r = Err (PPIndeterminate (CheckpointLanded x)) \<longrightarrow> new_snapshot = Some p \<and> new_checkpoint = Some n)
    \<and> (\<forall>e. r = Err (PPIndeterminate (SnapshotLanded e)) \<longrightarrow> new_snapshot = Some p \<and> new_checkpoint \<in> {old_checkpoint, Some n})
    \<and> (\<forall>epoch. r = Err (PPIndeterminate (WriteUndetermined epoch)) \<longrightarrow> new_snapshot \<in> {old_snapshot, Some p} \<and> new_checkpoint = old_checkpoint)
    \<and> (\<forall>e. r = Err e \<and> before_writing e \<longrightarrow> new_snapshot = old_snapshot \<and> new_checkpoint = old_checkpoint)
    \<and> (\<forall>k. k \<noteq> i \<longrightarrow> pair_of c (pps_name st) (journal (pps_session st')) k = pair_of c (pps_name st) (journal (pps_session st)) k)
    \<and> (\<forall>m. old_checkpoint = Some m \<longrightarrow> (\<exists>m' \<ge> m. new_checkpoint = Some m'))"
proof -
  note out = fiber_session.persist_outcome [OF assms(1-7)]
  have says: "persist_says r p n (old_snapshot, old_checkpoint) (new_snapshot, new_checkpoint)" using out assms(8,9) by simp
  have "new_snapshot = old_snapshot \<and> new_checkpoint = old_checkpoint" if "r = Err e" "before_writing e" for e
    using says that by (cases e rule: before_writing.cases) simp_all
  moreover have "\<forall>m. old_checkpoint = Some m \<longrightarrow> (\<exists>m' \<ge> m. new_checkpoint = Some m')"
    using out assms(8,9) by (simp add: pair_of_def)
  ultimately show ?thesis using says out by auto
qed

theorem pardosa_persist_outcomes_witness:
  "\<exists>st'. sample_persist [Works, Refuses] = (Err (PPIndeterminate (SnapshotLanded (PPInfrastructure ''refused''))), st')
    \<and> snapshot_of sample_codec ''v'' (pl_journal (pps_session st')) (AggregateId 1) = Some ''p''
    \<and> checkpoint_of sample_codec ''v'' (pl_journal (pps_session st')) (AggregateId 1) \<in> {None, Some 4}"
proof -
  let ?e = "Err (PPIndeterminate (SnapshotLanded (PPInfrastructure ''refused'')))"
  obtain st' where call: "pardosa_persist planned_ops sample_codec 7 8 (AggregateId 1) ''p'' 4 (new_store ''v'' (planned_start [Works, Refuses])) = (?e, st')"
    by (simp add: planned_defs)
  have start: "store_wf sample_codec ''v'' []" "pair_of sample_codec ''v'' [] (AggregateId 1) = (None, None)"
    by (simp_all add: store_wf_def checkpoint_of_def snapshot_of_def pair_of_def)
  show ?thesis
    using pardosa_persist_outcomes [OF planned.fiber_session_axioms sample_codec_contract, of "new_store ''v'' (planned_start [Works, Refuses])"
        "AggregateId 1" 4 7 8 "''p''" ?e st' None None] call start
    by (simp add: sample_persist_def new_store_def planned_start_def pair_of_def)
qed

text \<open>
  C22. Refinement of the in-memory projection store: when every call of a sequence succeeds, the
  persistent store holds for every aggregate exactly the snapshot and the checkpoint that the
  in-memory store holds after the same calls.
\<close>

theorem pardosa_refines_in_memory:
  assumes "fiber_session ops journal" "codec_contract c" "fibers_distinct c name" "journal s = []"
    and "list_all op_valid xs" "run_store_ops ops c xs (new_store name s) = (rs, st)" "list_all is_ok rs"
    and "mem = fold run_projection_op (map memory_op xs) (InMemoryProjectionStore_new name)"
  shows "snapshot_of c name (journal (pps_session st)) i = load_snapshot i mem
    \<and> checkpoint_of c name (journal (pps_session st)) i = load_checkpoint i mem"
proof -
  have "store_wf c name (journal s)" using assms(4) by (simp add: store_wf_def checkpoint_of_def)
  moreover have "\<forall>i. pair_of c name (journal s) i = (\<lambda>m. (load_snapshot i m, load_checkpoint i m)) (InMemoryProjectionStore_new name)"
    using assms(4) by (simp add: pair_of_def snapshot_of_def checkpoint_of_def InMemoryProjectionStore_new_def load_snapshot_def load_checkpoint_def)
  ultimately show ?thesis
    using run_store_ops_memory [OF assms(1,2), of "new_store name s" xs rs st "InMemoryProjectionStore_new name"] assms(3-8)
    by (simp add: new_store_def pair_of_def)
qed

theorem pardosa_refines_in_memory_witness:
  "\<exists>rs st. run_store_ops planned_ops sample_codec [(PersistOp (AggregateId 1) ''p'' 4, 7, 8)] (new_store ''v'' (planned_start [])) = (rs, st)
    \<and> snapshot_of sample_codec ''v'' (pl_journal (pps_session st)) (AggregateId 1) = Some ''p''"
proof -
  let ?xs = "[(PersistOp (AggregateId 1) ''p'' 4, 7, 8)]"
  obtain st where run: "run_store_ops planned_ops sample_codec ?xs (new_store ''v'' (planned_start [])) = ([Ok ()], st)"
    by (simp add: planned_defs)
  have "pl_journal (planned_start [] :: string planned_session) = []" by (simp add: planned_start_def)
  then show ?thesis
    using pardosa_refines_in_memory [OF planned.fiber_session_axioms sample_codec_contract _ _ run _ refl, of "AggregateId 1"] run
    by (simp add: op_valid_def memory_op_def persist_def load_snapshot_def InMemoryProjectionStore_new_def)
qed

text \<open>An uncertain session refuses every operation and nothing is written.\<close>

lemma uncertain_blocks:
  assumes "uncertain_diagnostic ops (pps_session st) = Some d" "\<not> pps_poisoned st"
  shows "pardosa_persist ops c u1 u2 i p n st = (Err (PPIndeterminate (RetainedUncertainty (carried_epoch ops (pps_session st)) d)), st)"
    "pardosa_delete ops c u1 u2 i st = (Err (PPIndeterminate (RetainedUncertainty (carried_epoch ops (pps_session st)) d)), st)"
    "pardosa_load_snapshot ops c i st = Err (PPIndeterminate (RetainedUncertainty (carried_epoch ops (pps_session st)) d))"
    "pardosa_load_checkpoint ops c i st = Err (PPIndeterminate (RetainedUncertainty (carried_epoch ops (pps_session st)) d))"
  using assms by (simp_all add: pardosa_persist_def pardosa_delete_def pardosa_load_snapshot_def pardosa_load_checkpoint_def ready_session_def)

text \<open>
  Creating validates before it removes: a name that is too long or an inadmissible schema leaves
  the files as they are. Opening a store of another schema is refused as corrupt data without opening it.
\<close>

lemma create_pgno_refused:
  assumes "event_string_new PROJECTION_NAME_MAX name = Err x \<or> expected_descriptor = Err y"
  shows "\<exists>e. create_pgno event_string_new expected_descriptor adapter name w = (Err (PPInfrastructure e), w)"
  using assms by (cases "event_string_new PROJECTION_NAME_MAX name"; cases expected_descriptor) (simp_all add: create_pgno_def)

lemma open_pgno_mismatch:
  assumes "event_string_new PROJECTION_NAME_MAX name = Ok bounded" "read_meta_descriptor adapter w = Ok recorded" "recorded \<noteq> Some d"
  shows "open_pgno event_string_new (Ok d) adapter name w = (Err (PPCorruptData ''projection codec/schema version mismatch''), w)"
  using assms by (simp add: open_pgno_def validate_descriptor_def)

lemma open_pgno_validates:
  assumes "open_pgno event_string_new (Ok d) adapter name w = (Ok st, w')"
  shows "read_meta_descriptor adapter w = Ok (Some d) \<and> session_descriptor adapter (pps_session st) = Some d"
  using assms
  by (auto simp: open_pgno_def validate_descriptor_def new_store_def and_then_Ok_iff and_then_Err_iff
      split: sum.splits prod.splits if_splits)

end
