(* ===== verification/Pardosa_Store.thy ===== *)
theory Pardosa_Store
  imports Pardosa_Session Mem_Store "HOL-Library.Multiset"
begin

text \<open>
  The event store over a writer session, \<open>PgnoEventStore\<close> of
  \<open>pardosa-cherry-pit-test-support/src/lib.rs\<close>: one record per event, on the fiber of its aggregate.
  The JSON and byte codecs, the clock and the identifiers are parameters. A call holds the lock of
  its aggregate from its first read of the history to its last, so it is one step. Arithmetic that
  overflows panics (the profiles of the workspace check overflow): a panic is the result None.
\<close>

section \<open>Records\<close>

record 'e pgno_envelope =
  pg_event_id :: uuid
  pg_aggregate_id :: nat
  pg_sequence :: nat
  pg_timestamp_nanos :: int
  pg_correlation_id :: "uuid option"
  pg_causation_id :: "uuid option"
  pg_payload :: 'e

record ('e, 'f) pgno_codec =
  pg_derive_fiber_id :: "string \<Rightarrow> 'f"
  json_to_vec :: "'e pgno_envelope \<Rightarrow> (string, string) result"
  json_from_slice :: "string \<Rightarrow> (string, 'e pgno_envelope) result"
  json_bytes_new :: "string \<Rightarrow> (string, string) result"
  encode_type :: "string \<Rightarrow> (string, string) result"
  decode_type :: "string \<Rightarrow> (string, string \<times> nat) result"
  from_nanosecond :: "int \<Rightarrow> (string, timestamp) result"
  as_nanosecond :: "timestamp \<Rightarrow> int"

definition i64_max :: int where
  "i64_max = 9223372036854775807"

definition i64_try_from_or_max :: "int \<Rightarrow> int" where
  "i64_try_from_or_max n = (if - i64_max - 1 \<le> n \<and> n \<le> i64_max then n else i64_max)"

section \<open>Errors\<close>

datatype store_diagnostic = StoreUndetermined nat | StoreRetained nat string | StoreLanded string

fun store_diagnostic_fmt :: "store_diagnostic \<Rightarrow> string" where
  "store_diagnostic_fmt (StoreUndetermined epoch) = ''write landing undetermined at epoch '' @ show_nat epoch"
| "store_diagnostic_fmt (StoreRetained epoch diagnostic) = ''session uncertain at epoch '' @ show_nat epoch @ '': '' @ diagnostic"
| "store_diagnostic_fmt (StoreLanded source) = ''event landed before failure: '' @ source"

definition indeterminate :: "store_diagnostic \<Rightarrow> store_error" where
  "indeterminate d = Indeterminate (BoxForeign (store_diagnostic_fmt d))"

definition after_landed :: "string \<Rightarrow> store_error" where
  "after_landed source = indeterminate (StoreLanded source)"

definition to_store_error :: "string \<Rightarrow> store_error" where
  "to_store_error x = Infrastructure (BoxForeign x)"

definition foreign_corrupt :: "string \<Rightarrow> store_error" where
  "foreign_corrupt x = CorruptData (BoxForeign x)"

definition single_event_error :: store_error where
  "single_event_error = infra_msg (''PgnoEventStore accepts only single-event batches (create/append); multi-event atomic commit has no ''
    @ ''primitive in the pardosa substrate today (see bd ghr-00b572de option (a))'')"

definition decode_record :: "('e, 'f) pgno_codec \<Rightarrow> string \<Rightarrow> (store_error, 'e pgno_envelope) result" where
  "decode_record c payload =
    and_then (map_err foreign_corrupt (decode_type c payload)) (\<lambda>(bytes, consumed).
      if consumed \<noteq> length payload then Err (CorruptData (BoxMessage ''trailing JSON envelope bytes''))
      else map_err foreign_corrupt (json_from_slice c bytes))"

definition encode_record :: "('e, 'f) pgno_codec \<Rightarrow> 'e pgno_envelope \<Rightarrow> (store_error, string) result" where
  "encode_record c envelope =
    map_err to_store_error (and_then (and_then (json_to_vec c envelope) (json_bytes_new c)) (encode_type c))"

section \<open>The store\<close>

record 's pgno_world =
  pg_session :: 's
  pg_next_id :: nat
  pg_draws :: nat
  pg_reads :: nat

definition pgno_ready :: "('s, 'f) session_ops \<Rightarrow> 's pgno_world \<Rightarrow> (store_error, 's) result" where
  "pgno_ready ops w = (case uncertain_diagnostic ops (pg_session w) of
      Some diagnostic \<Rightarrow> Err (indeterminate (StoreRetained (carried_epoch ops (pg_session w)) diagnostic))
    | None \<Rightarrow> Ok (pg_session w))"

text \<open>\<open>from_session\<close>: the counter starts at the largest aggregate of the journal.\<close>

definition max_aggregate :: "('e, 'f) pgno_codec \<Rightarrow> 'f journal_entry list \<Rightarrow> (store_error, nat) result" where
  "max_aggregate c entries = fold (\<lambda>entry acc.
      and_then acc (\<lambda>maximum. and_then (decode_record c (je_payload entry)) (\<lambda>record. Ok (max maximum (pg_aggregate_id record)))))
    entries (Ok 0)"

definition validate_json_descriptor :: "'d option \<Rightarrow> 'd \<Rightarrow> (store_error, unit) result" where
  "validate_json_descriptor recorded expected_desc =
    (if recorded = Some expected_desc then Ok () else Err (foreign_corrupt ''JSON byte codec/schema version mismatch''))"

definition from_session ::
  "('s, 'f) session_ops \<Rightarrow> ('e, 'f) pgno_codec \<Rightarrow> (string, 'd) result \<Rightarrow> ('w, 's, 'd) storage_adapter \<Rightarrow> nat \<Rightarrow> nat \<Rightarrow> 's
    \<Rightarrow> (store_error, 's pgno_world) result" where
  "from_session ops c expected_descriptor adapter draws reads s =
    and_then (map_err to_store_error expected_descriptor) (\<lambda>descriptor.
    and_then (validate_json_descriptor (session_descriptor adapter s) descriptor) (\<lambda>_.
    and_then (map_err to_store_error (read_all_envelopes ops s)) (\<lambda>entries.
    and_then (max_aggregate c entries) (\<lambda>max_id.
    Ok \<lparr>pg_session = s, pg_next_id = max_id, pg_draws = draws, pg_reads = reads\<rparr>))))"

definition pgno_create_store ::
  "('s, 'f) session_ops \<Rightarrow> ('e, 'f) pgno_codec \<Rightarrow> (string, 'd) result \<Rightarrow> ('w, 's, 'd) storage_adapter \<Rightarrow> nat \<Rightarrow> nat \<Rightarrow> 'w
    \<Rightarrow> (store_error, 's pgno_world) result \<times> 'w" where
  "pgno_create_store ops c expected_descriptor adapter draws reads files = (case expected_descriptor of
      Err x \<Rightarrow> (Err (to_store_error x), files)
    | Ok descriptor \<Rightarrow>
        (case adapter_create adapter 1 descriptor (remove_pgno adapter (remove_meta adapter files)) of (r, files') \<Rightarrow>
          (and_then (map_err to_store_error r) (from_session ops c expected_descriptor adapter draws reads), files')))"

definition pgno_open_store ::
  "('s, 'f) session_ops \<Rightarrow> ('e, 'f) pgno_codec \<Rightarrow> (string, 'd) result \<Rightarrow> ('w, 's, 'd) storage_adapter \<Rightarrow> nat \<Rightarrow> nat \<Rightarrow> 'w
    \<Rightarrow> (store_error, 's pgno_world) result \<times> 'w" where
  "pgno_open_store ops c expected_descriptor adapter draws reads files =
    (case and_then (map_err to_store_error expected_descriptor) (\<lambda>descriptor.
        and_then (map_err to_store_error (read_meta_descriptor adapter files)) (\<lambda>recorded.
        and_then (validate_json_descriptor recorded descriptor) (\<lambda>_.
        map_err to_store_error (current_epoch adapter files)))) of
      Err e \<Rightarrow> (Err e, files)
    | Ok epoch \<Rightarrow> (case open_write adapter epoch files of (r, files') \<Rightarrow>
        (and_then (map_err to_store_error r) (from_session ops c expected_descriptor adapter draws reads), files')))"

text \<open>\<open>ordered_stream\<close>: collect the records of the aggregate, sort them, validate the stream.\<close>

definition envelope_of :: "('e, 'f) pgno_codec \<Rightarrow> aggregate_id \<Rightarrow> 'e pgno_envelope \<Rightarrow> (store_error, 'e event_envelope) result" where
  "envelope_of c i record =
    (if pg_sequence record = 0 then Err (CorruptData (BoxMessage ''stored sequence must be non-zero''))
     else and_then (map_err foreign_corrupt (from_nanosecond c (pg_timestamp_nanos record))) (\<lambda>timestamp.
       map_err (\<lambda>e. CorruptData (BoxEnvelopeError e))
         (EventEnvelope_new (pg_event_id record) i (pg_sequence record) timestamp (pg_correlation_id record) (pg_causation_id record)
           (pg_payload record))))"

fun collect_stream :: "('e, 'f) pgno_codec \<Rightarrow> aggregate_id \<Rightarrow> 'f journal_entry list \<Rightarrow> (store_error, 'e event_envelope list) result" where
  "collect_stream c i [] = Ok []"
| "collect_stream c i (entry # entries) =
    (if je_detached entry then collect_stream c i entries
     else and_then (decode_record c (je_payload entry)) (\<lambda>record.
       if pg_aggregate_id record = get i
       then and_then (envelope_of c i record) (\<lambda>envelope. and_then (collect_stream c i entries) (\<lambda>rest. Ok (envelope # rest)))
       else collect_stream c i entries))"

definition ordered_stream :: "('s, 'f) session_ops \<Rightarrow> ('e, 'f) pgno_codec \<Rightarrow> aggregate_id \<Rightarrow> 's pgno_world \<Rightarrow> (store_error, 'e event_envelope list) result" where
  "ordered_stream ops c i w =
    and_then (pgno_ready ops w) (\<lambda>s.
    and_then (map_err to_store_error (read_all_envelopes ops s)) (\<lambda>entries.
    and_then (collect_stream c i entries) (\<lambda>found.
    let sorted = sort_key env_sequence found in
    and_then (map_err (\<lambda>e. CorruptData (BoxEnvelopeError e)) (validate_stream i sorted)) (\<lambda>_. Ok sorted))))"

definition record_single ::
  "('s, 'f) session_ops \<Rightarrow> ('e, 'f) pgno_codec \<Rightarrow> timestamp \<Rightarrow> nat \<Rightarrow> uuid \<Rightarrow> nat \<Rightarrow> correlation_context \<Rightarrow> 'e \<Rightarrow> 's pgno_world
    \<Rightarrow> (store_error, unit) result \<times> 's pgno_world" where
  "record_single ops c now aggregate_id event_id sequence ctx payload w =
    (case encode_record c \<lparr>pg_event_id = event_id, pg_aggregate_id = aggregate_id, pg_sequence = sequence,
        pg_timestamp_nanos = i64_try_from_or_max (as_nanosecond c now), pg_correlation_id = correlation_id ctx,
        pg_causation_id = causation_id ctx, pg_payload = payload\<rparr> of
      Err e \<Rightarrow> (Err e, w)
    | Ok bytes \<Rightarrow> (case pgno_ready ops w of
        Err e \<Rightarrow> (Err e, w)
      | Ok s \<Rightarrow> (case write_record ops (pg_derive_fiber_id c (show_nat aggregate_id)) event_id bytes s of
          (Err (SessionError x), s1) \<Rightarrow> (Err (to_store_error x), w\<lparr>pg_session := s1\<rparr>)
        | (Err (NotDetermined epoch), s1) \<Rightarrow> (Err (indeterminate (StoreUndetermined epoch)), w\<lparr>pg_session := s1\<rparr>)
        | (Ok _, s1) \<Rightarrow> (case sync ops s1 of (r, s2) \<Rightarrow> (map_err after_landed r, w\<lparr>pg_session := s2\<rparr>)))))"

text \<open>The text of an error after landing is that of the error that followed.\<close>

definition pgno_create ::
  "(uuid \<Rightarrow> string) \<Rightarrow> ('s, 'f) session_ops \<Rightarrow> ('e, 'f) pgno_codec \<Rightarrow> (nat \<Rightarrow> uuid) \<Rightarrow> (nat \<Rightarrow> timestamp) \<Rightarrow> 'e list \<Rightarrow> correlation_context \<Rightarrow> 's pgno_world
    \<Rightarrow> (store_error, aggregate_id \<times> 'e event_envelope list) result option \<times> 's pgno_world" where
  "pgno_create show_uuid ops c v7 ts events ctx w =
    (case pgno_ready ops w of
      Err e \<Rightarrow> (Some (Err e), w)
    | Ok _ \<Rightarrow> (case events of
        [] \<Rightarrow> (Some (Err (infra_msg ''cannot create aggregate with zero events'')), w)
      | payload # others \<Rightarrow>
          if others \<noteq> [] then (Some (Err single_event_error), w)
          else if pg_next_id w = u64_max then (None, w\<lparr>pg_next_id := 0\<rparr>)
          else
            let raw_id = pg_next_id w + 1; i = AggregateId_new raw_id;
              w1 = w\<lparr>pg_next_id := raw_id, pg_draws := Suc (pg_draws w), pg_reads := Suc (pg_reads w)\<rparr> in
            (case record_single ops c (ts (pg_reads w)) raw_id (v7 (pg_draws w)) 1 ctx payload w1 of
              (Err e, w2) \<Rightarrow> (Some (Err e), w2)
            | (Ok _, w2) \<Rightarrow> (Some (map_err (\<lambda>e. after_landed (StoreError_fmt show_uuid e))
                (and_then (ordered_stream ops c i w2) (\<lambda>envelopes. Ok (i, envelopes)))), w2))))"

definition pgno_append ::
  "(uuid \<Rightarrow> string) \<Rightarrow> ('s, 'f) session_ops \<Rightarrow> ('e, 'f) pgno_codec \<Rightarrow> (nat \<Rightarrow> uuid) \<Rightarrow> (nat \<Rightarrow> timestamp) \<Rightarrow> aggregate_id \<Rightarrow> nat \<Rightarrow> 'e list
    \<Rightarrow> correlation_context \<Rightarrow> 's pgno_world \<Rightarrow> (store_error, 'e event_envelope list) result option \<times> 's pgno_world" where
  "pgno_append show_uuid ops c v7 ts i expected_seq events ctx w =
    (case pgno_ready ops w of
      Err e \<Rightarrow> (Some (Err e), w)
    | Ok _ \<Rightarrow> (case events of
        [] \<Rightarrow> (Some (Ok []), w)
      | payload # others \<Rightarrow>
          if others \<noteq> [] then (Some (Err single_event_error), w)
          else (case ordered_stream ops c i w of
            Err e \<Rightarrow> (Some (Err e), w)
          | Ok existing \<Rightarrow>
              if existing = [] then (Some (Err (infra_msg (''append to aggregate AggregateId('' @ show_nat (get i) @ '') that was never created''))), w)
              else
                let actual_seq = (case last_opt existing of None \<Rightarrow> 0 | Some env \<Rightarrow> env_sequence env) in
                if actual_seq \<noteq> expected_seq then (Some (Err (ConcurrencyConflict i expected_seq actual_seq)), w)
                else
                  let event_id = v7 (pg_draws w); w1 = w\<lparr>pg_draws := Suc (pg_draws w), pg_reads := Suc (pg_reads w)\<rparr> in
                  if expected_seq = u64_max then (None, w\<lparr>pg_draws := Suc (pg_draws w)\<rparr>)
                  else (case record_single ops c (ts (pg_reads w)) (get i) event_id (expected_seq + 1) ctx payload w1 of
                    (Err e, w2) \<Rightarrow> (Some (Err e), w2)
                  | (Ok _, w2) \<Rightarrow> (Some (and_then (map_err (\<lambda>e. after_landed (StoreError_fmt show_uuid e)) (ordered_stream ops c i w2)) (\<lambda>full_stream.
                      case find (\<lambda>envelope. env_event_id envelope = event_id) full_stream of
                        Some new_envelope \<Rightarrow> Ok [new_envelope]
                      | None \<Rightarrow> Err (after_landed ''landed event absent from reloaded stream''))), w2)))))"

section \<open>Histories in the journal\<close>

text \<open>
  Documented behaviour of the codecs: what was encoded decodes to itself, consuming all of it, and
  every 64-bit number of nanoseconds is a timestamp.
\<close>

definition pgno_codec_contract :: "('e, 'f) pgno_codec \<Rightarrow> bool" where
  "pgno_codec_contract c \<longleftrightarrow>
    (\<forall>r b. json_to_vec c r = Ok b \<longrightarrow> json_from_slice c b = Ok r)
    \<and> (\<forall>b b'. json_bytes_new c b = Ok b' \<longrightarrow> b' = b)
    \<and> (\<forall>b p. encode_type c b = Ok p \<longrightarrow> decode_type c p = Ok (b, length p))
    \<and> (\<forall>n. - i64_max - 1 \<le> n \<and> n \<le> i64_max \<longrightarrow> is_ok (from_nanosecond c n))"

definition pg_stream :: "('e, 'f) pgno_codec \<Rightarrow> 'f journal_entry list \<Rightarrow> aggregate_id \<Rightarrow> 'e event_envelope list" where
  "pg_stream c j i = (case collect_stream c i j of Ok es \<Rightarrow> es | Err _ \<Rightarrow> [])"

definition entry_good :: "('e, 'f) pgno_codec \<Rightarrow> nat \<Rightarrow> 'f journal_entry \<Rightarrow> bool" where
  "entry_good c n entry \<longleftrightarrow> \<not> je_detached entry \<and>
    (\<exists>r. decode_record c (je_payload entry) = Ok r \<and> 0 < pg_aggregate_id r \<and> pg_aggregate_id r \<le> n)"

definition stream_good :: "(nat \<Rightarrow> uuid) \<Rightarrow> ('e, 'f) pgno_codec \<Rightarrow> nat \<Rightarrow> 'f journal_entry list \<Rightarrow> aggregate_id \<Rightarrow> bool" where
  "stream_good v7 c d j i \<longleftrightarrow>
    (\<exists>es. collect_stream c i j = Ok es \<and> valid_stream i es \<and> env_event_id ` set es \<subseteq> v7 ` {..<d})"

definition pgno_inv :: "(nat \<Rightarrow> uuid) \<Rightarrow> ('e, 'f) pgno_codec \<Rightarrow> nat \<Rightarrow> nat \<Rightarrow> 'f journal_entry list \<Rightarrow> bool" where
  "pgno_inv v7 c d n j \<longleftrightarrow> (\<forall>entry \<in> set j. entry_good c n entry) \<and> (\<forall>i. stream_good v7 c d j i)"

lemma decode_encode_record:
  "pgno_codec_contract c \<Longrightarrow> encode_record c r = Ok payload \<Longrightarrow> decode_record c payload = Ok r"
  by (fastforce simp: encode_record_def decode_record_def pgno_codec_contract_def and_then_Ok_iff)

lemma collect_stream_append:
  "collect_stream c i (xs @ ys) = and_then (collect_stream c i xs) (\<lambda>as. and_then (collect_stream c i ys) (\<lambda>bs. Ok (as @ bs)))"
proof (induction xs)
  case Nil
  show ?case by (cases "collect_stream c i ys") simp_all
next
  case (Cons x xs)
  show ?case
  proof (cases "decode_record c (je_payload x)")
    case (Inr r)
    then show ?thesis
      using Cons by (cases "envelope_of c i r"; cases "collect_stream c i xs"; cases "collect_stream c i ys") simp_all
  qed (use Cons in simp_all)
qed

lemma pg_stream_good:
  assumes "pgno_inv v7 c d n j"
  shows "collect_stream c i j = Ok (pg_stream c j i)" "valid_stream i (pg_stream c j i)"
    "env_event_id ` set (pg_stream c j i) \<subseteq> v7 ` {..<d}"
  using assms by (auto simp: pgno_inv_def stream_good_def pg_stream_def dest!: spec [of _ i])

lemma pgno_inv_mono: "pgno_inv v7 c d n j \<Longrightarrow> d \<le> d' \<Longrightarrow> n \<le> n' \<Longrightarrow> pgno_inv v7 c d' n' j"
  unfolding pgno_inv_def stream_good_def entry_good_def by (meson image_mono lessThan_subset_iff order_trans)

lemma pgno_inv_Nil: "pgno_inv v7 c d n []"
  by (simp add: pgno_inv_def stream_good_def)

text \<open>No record of an aggregate beyond the counter.\<close>

lemma pg_stream_unassigned:
  assumes "\<forall>entry \<in> set j. entry_good c n entry" "get i = 0 \<or> n < get i"
  shows "collect_stream c i j = Ok []"
  using assms(1)
proof (induction j)
  case (Cons entry j)
  then obtain r where "\<not> je_detached entry" "decode_record c (je_payload entry) = Ok r" "pg_aggregate_id r \<noteq> get i"
    using assms(2) by (auto simp: entry_good_def)
  then show ?case using Cons by simp
qed simp

lemma find_append: "find P (xs @ ys) = (case find P xs of Some x \<Rightarrow> Some x | None \<Rightarrow> find P ys)"
  by (induction xs) auto

lemma sort_valid_stream: "valid_stream i es \<Longrightarrow> sort_key env_sequence es = es"
  by (rule sort_key_id_if_sorted) (metis valid_stream_def sorted_upt)

text \<open>One more record: it extends the history of its aggregate and no other.\<close>

lemma record_extends:
  assumes "pgno_inv v7 c d n j" "fresh_uuids v7"
    "decode_record c (je_payload entry) = Ok r" "\<not> je_detached entry"
    "pg_event_id r = v7 d" "pg_aggregate_id r = get i" "0 < get i" "get i \<le> n"
    "pg_sequence r = Suc (length (pg_stream c j i))" "from_nanosecond c (pg_timestamp_nanos r) = Ok t"
  obtains env where "pg_stream c (j @ [entry]) = (pg_stream c j)(i := pg_stream c j i @ [env])" "pgno_inv v7 c (Suc d) n (j @ [entry])"
    "env_event_id env = v7 d" "env_payload env = pg_payload r" "env_correlation_id env = pg_correlation_id r"
    "env_causation_id env = pg_causation_id r"
proof -
  let ?env = "\<lparr>env_event_id = v7 d, env_aggregate_id = i, env_sequence = Suc (length (pg_stream c j i)), env_timestamp = t,
    env_correlation_id = pg_correlation_id r, env_causation_id = pg_causation_id r, env_payload = pg_payload r\<rparr>"
  have id: "v7 d \<noteq> nil_uuid" "v7 d \<notin> v7 ` {..<d}" using assms(2) by (auto simp: fresh_uuids_def inj_on_def)
  have env: "envelope_of c i r = Ok ?env"
    using assms(5,9,10) id(1) by (simp add: envelope_of_def EventEnvelope_new_def)
  have collect: "collect_stream c k (j @ [entry]) = Ok (if k = i then pg_stream c j i @ [?env] else pg_stream c j k)" for k
    using pg_stream_good(1) [OF assms(1), of k] assms(3,4,6) env
    by (auto simp: collect_stream_append aggregate_id.expand)
  have streams: "pg_stream c (j @ [entry]) = (pg_stream c j)(i := pg_stream c j i @ [?env])"
    using collect by (auto simp: pg_stream_def fun_eq_iff)
  have "valid_stream i (pg_stream c j i @ [?env])"
    using pg_stream_good(2,3) [OF assms(1), of i] id by (auto simp: valid_stream_snoc)
  moreover have "env_event_id ` set (pg_stream c j k) \<subseteq> v7 ` {..<Suc d}" for k
    using pg_stream_good(3) [OF assms(1), of k] by (auto simp: lessThan_Suc)
  ultimately have "stream_good v7 c (Suc d) (j @ [entry]) k" for k
    using collect [of k] pg_stream_good(2) [OF assms(1), of k] by (auto simp: stream_good_def)
  moreover have "entry_good c n entry" using assms(3,4,6-8) by (simp add: entry_good_def)
  ultimately have "pgno_inv v7 c (Suc d) n (j @ [entry])" using assms(1) by (auto simp: pgno_inv_def)
  then show ?thesis using that [of ?env] streams by simp
qed

lemma collect_stream_length: "collect_stream c i j = Ok es \<Longrightarrow> length es \<le> length j"
proof (induction j arbitrary: es)
  case (Cons entry j)
  then show ?case
    by (cases "je_detached entry") (fastforce simp: and_then_Ok_iff split: if_splits)+
qed simp

lemma pg_stream_length: "length (pg_stream c j i) \<le> length j"
  using collect_stream_length [of c i j] by (simp add: pg_stream_def split: sum.splits)

text \<open>An envelope that records one event under a context, with a given identifier.\<close>

definition records_one :: "'e \<Rightarrow> correlation_context \<Rightarrow> uuid \<Rightarrow> 'e event_envelope \<Rightarrow> bool" where
  "records_one p ctx u env \<longleftrightarrow> records [p] ctx [env] \<and> env_event_id env = u"

text \<open>What a write of one record for an aggregate did to the histories.\<close>

definition write_effect ::
  "(aggregate_id \<Rightarrow> 'e event_envelope list) \<Rightarrow> (aggregate_id \<Rightarrow> 'e event_envelope list) \<Rightarrow> aggregate_id \<Rightarrow> 'e \<Rightarrow> correlation_context \<Rightarrow> uuid
    \<Rightarrow> (store_error, unit) result \<Rightarrow> bool" where
  "write_effect f f' i p ctx u r \<longleftrightarrow> (case r of
      Ok _ \<Rightarrow> \<exists>env. records_one p ctx u env \<and> f' = f(i := f i @ [env])
    | Err e \<Rightarrow> f' = f \<or> StoreError_category e = ReconciliationRequired \<and> (\<exists>env. records_one p ctx u env \<and> f' = f(i := f i @ [env])))"

text \<open>What an answer of the store means for the histories before and after; None is a panic.\<close>

definition create_answer ::
  "'e list \<Rightarrow> correlation_context \<Rightarrow> (aggregate_id \<Rightarrow> 'e event_envelope list) \<Rightarrow> (aggregate_id \<Rightarrow> 'e event_envelope list)
    \<Rightarrow> (store_error, aggregate_id \<times> 'e event_envelope list) result option \<Rightarrow> bool" where
  "create_answer evs ctx f f' r \<longleftrightarrow> (case r of
      Some (Ok (i, envs)) \<Rightarrow> f i = [] \<and> evs \<noteq> [] \<and> records evs ctx envs \<and> f' = f(i := envs)
    | Some (Err e) \<Rightarrow> (if StoreError_category e = ReconciliationRequired then maybe_created evs ctx f f' else f' = f)
    | None \<Rightarrow> False)"

definition append_answer ::
  "aggregate_id \<Rightarrow> nat \<Rightarrow> 'e list \<Rightarrow> correlation_context \<Rightarrow> (aggregate_id \<Rightarrow> 'e event_envelope list) \<Rightarrow> (aggregate_id \<Rightarrow> 'e event_envelope list)
    \<Rightarrow> (store_error, 'e event_envelope list) result option \<Rightarrow> bool" where
  "append_answer i k evs ctx f f' r \<longleftrightarrow> (case r of
      Some (Ok envs) \<Rightarrow> records evs ctx envs \<and> f' = f(i := f i @ envs) \<and> (evs \<noteq> [] \<longrightarrow> f i \<noteq> [] \<and> k = length (f i))
    | Some (Err e) \<Rightarrow> (if StoreError_category e = ReconciliationRequired then maybe_appended i evs ctx f f' else f' = f)
    | None \<Rightarrow> False)"

lemma pgno_ready_Ok: "pgno_ready ops w = Ok s \<Longrightarrow> s = pg_session w"
  by (simp add: pgno_ready_def split: option.splits)

lemma pgno_ready_Err: "pgno_ready ops w = Err e \<Longrightarrow> StoreError_category e = ReconciliationRequired"
  by (auto simp: pgno_ready_def indeterminate_def split: option.splits)

context fiber_session
begin

lemma ordered_stream_Ok:
  assumes "pgno_inv v7 c d n (journal (pg_session w))" "ordered_stream ops c i w = Ok es"
  shows "es = pg_stream c (journal (pg_session w)) i"
proof -
  obtain s entries where "pgno_ready ops w = Ok s" "read_all_envelopes ops s = Ok entries"
    using assms(2) by (auto simp: ordered_stream_def and_then_Ok_iff)
  then have "entries = journal (pg_session w)" using pgno_ready_Ok reads by metis
  then show ?thesis
    using assms(2) \<open>pgno_ready ops w = Ok s\<close> \<open>read_all_envelopes ops s = Ok entries\<close> pg_stream_good(1,2) [OF assms(1), of i]
    by (auto simp: ordered_stream_def and_then_Ok_iff Let_def sort_valid_stream)
qed

text \<open>A call of \<open>record_single\<close> leaves the journal or adds the record; it adds it for sure when it succeeds.\<close>

lemma record_single_journal:
  assumes "pgno_codec_contract c" "record_single ops c now a u sq ctx p w = (r, w')"
  shows "w' = w\<lparr>pg_session := pg_session w'\<rparr> \<and>
    (journal (pg_session w') = journal (pg_session w) \<and> \<not> is_ok r
     \<or> (\<exists>entry t nanos. journal (pg_session w') = journal (pg_session w) @ [entry] \<and> \<not> je_detached entry \<and> from_nanosecond c nanos = Ok t
         \<and> decode_record c (je_payload entry) = Ok \<lparr>pg_event_id = u, pg_aggregate_id = a, pg_sequence = sq, pg_timestamp_nanos = nanos,
             pg_correlation_id = correlation_id ctx, pg_causation_id = causation_id ctx, pg_payload = p\<rparr>
         \<and> (\<forall>e. r = Err e \<longrightarrow> StoreError_category e = ReconciliationRequired)))"
proof -
  let ?j = "journal (pg_session w)" and ?nanos = "i64_try_from_or_max (as_nanosecond c now)"
  let ?r = "\<lparr>pg_event_id = u, pg_aggregate_id = a, pg_sequence = sq, pg_timestamp_nanos = ?nanos, pg_correlation_id = correlation_id ctx,
        pg_causation_id = causation_id ctx, pg_payload = p\<rparr>"
  show ?thesis
  proof (cases "encode_record c ?r")
    case (Inl e)
    then show ?thesis using assms(2) by (auto simp: record_single_def)
  next
    case enc: (Inr bytes)
    have "- i64_max - 1 \<le> ?nanos \<and> ?nanos \<le> i64_max" by (simp add: i64_try_from_or_max_def i64_max_def)
    then obtain t where t: "from_nanosecond c ?nanos = Ok t" using assms(1) by (fastforce simp: pgno_codec_contract_def is_ok_iff)
    let ?f = "pg_derive_fiber_id c (show_nat a)"
    let ?entry = "\<lparr>je_fiber = ?f, je_event_id = u, je_detached = False, je_payload = bytes\<rparr>"
    have dec: "decode_record c (je_payload ?entry) = Ok ?r" using decode_encode_record [OF assms(1) enc] by simp
    have added: "\<exists>entry t nanos. j' = ?j @ [entry] \<and> \<not> je_detached entry \<and> from_nanosecond c nanos = Ok t
         \<and> decode_record c (je_payload entry) = Ok \<lparr>pg_event_id = u, pg_aggregate_id = a, pg_sequence = sq, pg_timestamp_nanos = nanos,
             pg_correlation_id = correlation_id ctx, pg_causation_id = causation_id ctx, pg_payload = p\<rparr>"
      if "j' = ?j @ [?entry]" for j'
      using that t dec by (intro exI [of _ ?entry] exI [of _ t] exI [of _ ?nanos]) simp
    show ?thesis
    proof (cases "pgno_ready ops w")
      case (Inl e)
      then show ?thesis using assms(2) enc by (auto simp: record_single_def)
    next
      case (Inr s)
      obtain r1 s1 where wrote: "write_record ops ?f u bytes (pg_session w) = (r1, s1)" by fastforce
      note fate = write_record_fate [OF wrote, unfolded write_fate_def]
      note call = assms(2) [unfolded record_single_def]
      show ?thesis
      proof (cases r1)
        case e: (Inl e)
        show ?thesis
        proof (cases e)
          case (SessionError x)
          then show ?thesis using call enc Inr wrote e fate pgno_ready_Ok [OF Inr] by auto
        next
          case (NotDetermined epoch)
          then have out: "r = Err (indeterminate (StoreUndetermined epoch))" "w' = w\<lparr>pg_session := s1\<rparr>"
            using call enc Inr wrote e pgno_ready_Ok [OF Inr] by auto
          have "journal s1 = ?j \<or> journal s1 = ?j @ [?entry]" using fate e NotDetermined by simp
          then show ?thesis using out added [of "journal s1"] by (auto simp: indeterminate_def)
        qed
      next
        case (Inr unit)
        obtain r2 s2 where sync: "sync ops s1 = (r2, s2)" by fastforce
        then have out: "r = map_err after_landed r2" "w' = w\<lparr>pg_session := s2\<rparr>"
          using call enc \<open>pgno_ready ops w = Inr s\<close> wrote Inr pgno_ready_Ok [OF \<open>pgno_ready ops w = Inr s\<close>] by auto
        have "journal s2 = ?j @ [?entry]" using syncs [OF sync] fate Inr by simp
        then show ?thesis
          using out added [of "journal s2"] by (auto simp: map_err_Err_iff after_landed_def indeterminate_def)
      qed
    qed
  qed
qed

lemma record_single_effect:
  assumes "pgno_inv v7 c d n (journal (pg_session w))" "fresh_uuids v7" "pgno_codec_contract c" "0 < get i" "get i \<le> n"
    "sq = Suc (length (pg_stream c (journal (pg_session w)) i))"
    "record_single ops c now (get i) (v7 d) sq ctx p w = (r, w')"
  shows "w' = w\<lparr>pg_session := pg_session w'\<rparr> \<and> pgno_inv v7 c (Suc d) n (journal (pg_session w'))
    \<and> length (journal (pg_session w')) \<le> Suc (length (journal (pg_session w)))
    \<and> write_effect (pg_stream c (journal (pg_session w))) (pg_stream c (journal (pg_session w'))) i p ctx (v7 d) r"
proof -
  let ?j = "journal (pg_session w)"
  note call = record_single_journal [OF assms(3,7)]
  show ?thesis
  proof (cases "journal (pg_session w') = ?j")
    case True
    then have "\<not> is_ok r" using call by auto
    then show ?thesis
      using True call pgno_inv_mono [OF assms(1), of "Suc d" n] by (cases r) (auto simp: write_effect_def)
  next
    case False
    then obtain entry t nanos where entry: "journal (pg_session w') = ?j @ [entry]" "\<not> je_detached entry" "from_nanosecond c nanos = Ok t"
      "decode_record c (je_payload entry) = Ok \<lparr>pg_event_id = v7 d, pg_aggregate_id = get i, pg_sequence = sq, pg_timestamp_nanos = nanos,
             pg_correlation_id = correlation_id ctx, pg_causation_id = causation_id ctx, pg_payload = p\<rparr>"
      "\<forall>e. r = Err e \<longrightarrow> StoreError_category e = ReconciliationRequired"
      using call by blast
    obtain env where env: "pg_stream c (?j @ [entry]) = (pg_stream c ?j)(i := pg_stream c ?j i @ [env])"
        "pgno_inv v7 c (Suc d) n (?j @ [entry])" "records_one p ctx (v7 d) env"
      using record_extends [OF assms(1,2) entry(4,2), of i t] assms(4-6) entry(3) by (auto simp: records_one_def records_def)
    then show ?thesis using call entry(1,5) by (cases r) (auto simp: write_effect_def)
  qed
qed

lemma create_effect:
  assumes "pgno_inv v7 c (pg_draws w) (pg_next_id w) (journal (pg_session w))" "fresh_uuids v7" "pgno_codec_contract c"
    "pg_next_id w < u64_max" "pgno_create show_uuid ops c v7 ts evs ctx w = (r, w')"
  shows "pgno_inv v7 c (pg_draws w') (pg_next_id w') (journal (pg_session w')) \<and> pg_next_id w' \<le> Suc (pg_next_id w)
    \<and> length (journal (pg_session w')) \<le> Suc (length (journal (pg_session w)))
    \<and> create_answer evs ctx (pg_stream c (journal (pg_session w))) (pg_stream c (journal (pg_session w'))) r"
proof (cases "\<exists>s p. pgno_ready ops w = Ok s \<and> evs = [p]")
  case False
  then show ?thesis
    using assms(1,5) pgno_ready_Err [of ops w]
    by (cases "pgno_ready ops w"; cases evs)
      (auto simp: pgno_create_def create_answer_def maybe_created_def single_event_error_def infra_msg_def)
next
  case True
  then obtain s p where ready: "pgno_ready ops w = Ok s" and evs: "evs = [p]" by blast
  let ?f = "pg_stream c (journal (pg_session w))" and ?i = "AggregateId_new (Suc (pg_next_id w))"
  let ?w1 = "w\<lparr>pg_next_id := Suc (pg_next_id w), pg_draws := Suc (pg_draws w), pg_reads := Suc (pg_reads w)\<rparr>"
  have "\<forall>entry \<in> set (journal (pg_session w)). entry_good c (pg_next_id w) entry" using assms(1) by (simp add: pgno_inv_def)
  then have new: "?f ?i = []"
    using pg_stream_unassigned [of "journal (pg_session w)" c "pg_next_id w" ?i] by (simp add: pg_stream_def AggregateId_new_def)
  have inv: "pgno_inv v7 c (pg_draws w) (Suc (pg_next_id w)) (journal (pg_session ?w1))"
    using pgno_inv_mono [OF assms(1), of "pg_draws w" "Suc (pg_next_id w)"] by simp
  obtain r1 w2 where call: "record_single ops c (ts (pg_reads w)) (get ?i) (v7 (pg_draws w)) 1 ctx p ?w1 = (r1, w2)" by fastforce
  note eff = record_single_effect [OF inv assms(2,3) _ _ _ call]
  have e: "w2 = ?w1\<lparr>pg_session := pg_session w2\<rparr>" "pgno_inv v7 c (Suc (pg_draws w)) (Suc (pg_next_id w)) (journal (pg_session w2))"
      "length (journal (pg_session w2)) \<le> Suc (length (journal (pg_session w)))"
      "write_effect ?f (pg_stream c (journal (pg_session w2))) ?i p ctx (v7 (pg_draws w)) r1"
    using eff new by (auto simp: AggregateId_new_def)
  have fields: "pg_next_id w2 = Suc (pg_next_id w)" "pg_draws w2 = Suc (pg_draws w)" by (subst e(1); simp)+
  have out: "w' = w2" "r = (case r1 of Err x \<Rightarrow> Some (Err x)
      | Ok _ \<Rightarrow> Some (map_err (\<lambda>e. after_landed (StoreError_fmt show_uuid e)) (and_then (ordered_stream ops c ?i w2) (\<lambda>envelopes. Ok (?i, envelopes)))))"
    using assms(4,5) ready evs call by (auto simp: pgno_create_def Let_def AggregateId_new_def split: sum.splits)
  have "create_answer evs ctx ?f (pg_stream c (journal (pg_session w'))) r"
  proof (cases r1)
    case (Inl x)
    then show ?thesis using e(4) out new evs by (auto simp: create_answer_def write_effect_def maybe_created_def records_one_def)
  next
    case (Inr u)
    then obtain env where env: "records [p] ctx [env]" "pg_stream c (journal (pg_session w2)) = ?f(?i := [env])"
      using e(4) new by (auto simp: write_effect_def records_one_def)
    show ?thesis
    proof (cases "ordered_stream ops c ?i w2")
      case (Inl x)
      then have "r = Some (Err (after_landed (StoreError_fmt show_uuid x)))" using out Inr by simp
      moreover have "maybe_created [p] ctx ?f (?f(?i := [env]))" using new env(1) unfolding maybe_created_def by blast
      ultimately show ?thesis using out(1) evs env(2) by (simp add: create_answer_def after_landed_def indeterminate_def)
    next
      case (Inr es)
      then show ?thesis using ordered_stream_Ok [OF e(2) Inr] out \<open>r1 = Inr u\<close> new evs env by (simp add: create_answer_def)
    qed
  qed
  then show ?thesis using e(2,3) fields out(1) by simp
qed

lemma append_effect:
  assumes "pgno_inv v7 c (pg_draws w) (pg_next_id w) (journal (pg_session w))" "fresh_uuids v7" "pgno_codec_contract c"
    "length (journal (pg_session w)) < u64_max" "pgno_append show_uuid ops c v7 ts i k evs ctx w = (r, w')"
  shows "pgno_inv v7 c (pg_draws w') (pg_next_id w') (journal (pg_session w')) \<and> pg_next_id w' = pg_next_id w
    \<and> length (journal (pg_session w')) \<le> Suc (length (journal (pg_session w)))
    \<and> append_answer i k evs ctx (pg_stream c (journal (pg_session w))) (pg_stream c (journal (pg_session w'))) r"
proof -
  let ?f = "pg_stream c (journal (pg_session w))"
  have stays: ?thesis
    if "w' = w" "\<exists>e. r = Some (Err e) \<or> r = Some (Ok []) \<and> evs = []"
    using that assms(1) by (auto simp: append_answer_def maybe_appended_def)
  show ?thesis
  proof (cases "\<exists>s p es. pgno_ready ops w = Ok s \<and> evs = [p] \<and> ordered_stream ops c i w = Ok es \<and> es \<noteq> [] \<and> env_sequence (last es) = k")
    case False
    then show ?thesis
      using assms(5)
      by (intro stays; cases "pgno_ready ops w"; cases evs; cases "ordered_stream ops c i w")
        (auto simp: pgno_append_def Let_def last_opt_Some split: option.splits if_splits)
  next
    case True
    then obtain s p es where ready: "pgno_ready ops w = Ok s" and evs: "evs = [p]"
      and es: "ordered_stream ops c i w = Ok es" "es \<noteq> []" "env_sequence (last es) = k" by blast
    have esf: "es = ?f i" using ordered_stream_Ok [OF assms(1) es(1)] .
    have valid: "valid_stream i (?f i)" using pg_stream_good(2) [OF assms(1)] .
    then have k: "k = length (?f i)" using es esf valid_stream_last_seq by blast
    then have room: "k \<noteq> u64_max" using pg_stream_length [of c "journal (pg_session w)" i] assms(4) by linarith
    have "0 < get i \<and> get i \<le> pg_next_id w"
    proof (rule ccontr)
      assume "\<not> (0 < get i \<and> get i \<le> pg_next_id w)"
      then have "collect_stream c i (journal (pg_session w)) = Ok []"
        using assms(1) pg_stream_unassigned [of "journal (pg_session w)" c "pg_next_id w" i] by (auto simp: pgno_inv_def)
      then show False using esf es(2) by (simp add: pg_stream_def)
    qed
    then have i: "0 < get i" "get i \<le> pg_next_id w" by simp_all
    let ?w1 = "w\<lparr>pg_draws := Suc (pg_draws w), pg_reads := Suc (pg_reads w)\<rparr>"
    have inv: "pgno_inv v7 c (pg_draws w) (pg_next_id w) (journal (pg_session ?w1))" using assms(1) by simp
    obtain r1 w2 where call: "record_single ops c (ts (pg_reads w)) (get i) (v7 (pg_draws w)) (Suc k) ctx p ?w1 = (r1, w2)" by fastforce
    have e: "w2 = ?w1\<lparr>pg_session := pg_session w2\<rparr>" "pgno_inv v7 c (Suc (pg_draws w)) (pg_next_id w) (journal (pg_session w2))"
        "length (journal (pg_session w2)) \<le> Suc (length (journal (pg_session w)))"
        "write_effect ?f (pg_stream c (journal (pg_session w2))) i p ctx (v7 (pg_draws w)) r1"
      using record_single_effect [OF inv assms(2,3) i _ call] k by auto
    have fields: "pg_next_id w2 = pg_next_id w" "pg_draws w2 = Suc (pg_draws w)" by (subst e(1); simp)+
    have out: "w' = w2" "r = (case r1 of Err x \<Rightarrow> Some (Err x)
        | Ok _ \<Rightarrow> Some (and_then (map_err (\<lambda>e. after_landed (StoreError_fmt show_uuid e)) (ordered_stream ops c i w2)) (\<lambda>full_stream.
            case find (\<lambda>envelope. env_event_id envelope = v7 (pg_draws w)) full_stream of
              Some new_envelope \<Rightarrow> Ok [new_envelope]
            | None \<Rightarrow> Err (after_landed ''landed event absent from reloaded stream''))))"
      using assms(5) ready evs es call room
      by (auto simp: pgno_append_def Let_def last_opt_Some split: sum.splits option.splits)
    have "append_answer i k evs ctx ?f (pg_stream c (journal (pg_session w'))) r"
    proof (cases r1)
      case (Inl x)
      then show ?thesis
        using e(4) out evs es(2) esf by (auto simp: append_answer_def write_effect_def maybe_appended_def records_one_def)
    next
      case (Inr u)
      then obtain env where env: "records [p] ctx [env]" "env_event_id env = v7 (pg_draws w)"
          "pg_stream c (journal (pg_session w2)) = ?f(i := ?f i @ [env])"
        using e(4) by (auto simp: write_effect_def records_one_def)
      show ?thesis
      proof (cases "ordered_stream ops c i w2")
        case (Inl x)
        then have "r = Some (Err (after_landed (StoreError_fmt show_uuid x)))" using out Inr by simp
        then show ?thesis using out(1) evs env es(2) esf
          by (auto simp: append_answer_def maybe_appended_def after_landed_def indeterminate_def)
      next
        case (Inr full)
        then have full: "full = ?f i @ [env]" using ordered_stream_Ok [OF e(2) Inr] env(3) by simp
        have "v7 (pg_draws w) \<notin> env_event_id ` set (?f i)"
          using pg_stream_good(3) [OF assms(1), of i] assms(2) by (auto simp: fresh_uuids_def inj_on_def)
        then have "find (\<lambda>envelope. env_event_id envelope = v7 (pg_draws w)) (?f i) = None" by (force simp: find_None_iff)
        then have "find (\<lambda>envelope. env_event_id envelope = v7 (pg_draws w)) full = Some env"
          using env(2) unfolding full find_append by simp
        then show ?thesis using out \<open>r1 = Inr u\<close> Inr evs env es(2) esf k by (simp add: append_answer_def)
      qed
    qed
    then show ?thesis using e(2,3) fields out(1) by simp
  qed
qed

end

section \<open>Sequences of calls\<close>

fun pgno_call ::
  "(uuid \<Rightarrow> string) \<Rightarrow> ('s, 'f) session_ops \<Rightarrow> ('e, 'f) pgno_codec \<Rightarrow> (nat \<Rightarrow> uuid) \<Rightarrow> (nat \<Rightarrow> timestamp) \<Rightarrow> 'e store_call \<Rightarrow> 's pgno_world \<Rightarrow> 's pgno_world" where
  "pgno_call show_uuid ops c v7 ts (CallCreate evs ctx) w = snd (pgno_create show_uuid ops c v7 ts evs ctx w)"
| "pgno_call show_uuid ops c v7 ts (CallAppend i k evs ctx) w = snd (pgno_append show_uuid ops c v7 ts i k evs ctx w)"

text \<open>
  The stores a program can have: opened on an empty journal, after a call, or opened again by another
  process on the journal the last one left. Neither the counter nor a journal is exhausted before a call.
\<close>

inductive pgno_reachable ::
  "(uuid \<Rightarrow> string) \<Rightarrow> ('s, 'f) session_ops \<Rightarrow> ('s \<Rightarrow> 'f journal_entry list) \<Rightarrow> ('e, 'f) pgno_codec \<Rightarrow> (nat \<Rightarrow> uuid) \<Rightarrow> (nat \<Rightarrow> timestamp)
    \<Rightarrow> (string, 'd) result \<Rightarrow> ('w, 's, 'd) storage_adapter \<Rightarrow> 's pgno_world \<Rightarrow> bool"
  for show_uuid ops journal c v7 ts expected_descriptor adapter where
  reach_start: "journal s = [] \<Longrightarrow> from_session ops c expected_descriptor adapter draws reads s = Ok w
    \<Longrightarrow> pgno_reachable show_uuid ops journal c v7 ts expected_descriptor adapter w"
| reach_call: "pgno_reachable show_uuid ops journal c v7 ts expected_descriptor adapter w \<Longrightarrow> pg_next_id w < u64_max
    \<Longrightarrow> length (journal (pg_session w)) < u64_max
    \<Longrightarrow> pgno_reachable show_uuid ops journal c v7 ts expected_descriptor adapter (pgno_call show_uuid ops c v7 ts call w)"
| reach_reopen: "pgno_reachable show_uuid ops journal c v7 ts expected_descriptor adapter w \<Longrightarrow> journal s = journal (pg_session w)
    \<Longrightarrow> from_session ops c expected_descriptor adapter (pg_draws w) (pg_reads w) s = Ok w'
    \<Longrightarrow> pgno_reachable show_uuid ops journal c v7 ts expected_descriptor adapter w'"

lemma max_aggregate_from:
  assumes "fold (\<lambda>entry acc. and_then acc (\<lambda>maximum. and_then (decode_record c (je_payload entry)) (\<lambda>record. Ok (max maximum (pg_aggregate_id record)))))
      entries (Ok m0) = Ok m"
  shows "m0 \<le> m \<and> (\<forall>entry \<in> set entries. \<forall>r. decode_record c (je_payload entry) = Ok r \<longrightarrow> pg_aggregate_id r \<le> m)"
  using assms
proof (induction entries arbitrary: m0)
  case (Cons entry entries)
  have "fold (\<lambda>entry acc. and_then acc (\<lambda>maximum. and_then (decode_record c (je_payload entry)) (\<lambda>record. Ok (max maximum (pg_aggregate_id record)))))
      xs (Err e) \<noteq> Ok m" for xs e
    by (induction xs) auto
  then obtain r where r: "decode_record c (je_payload entry) = Ok r"
    using Cons.prems by (cases "decode_record c (je_payload entry)") auto
  then show ?case using Cons.IH [of "max m0 (pg_aggregate_id r)"] Cons.prems by auto
qed simp

lemma max_aggregate_covers:
  "max_aggregate c entries = Ok m \<Longrightarrow> entry \<in> set entries \<Longrightarrow> decode_record c (je_payload entry) = Ok r \<Longrightarrow> pg_aggregate_id r \<le> m"
  using max_aggregate_from unfolding max_aggregate_def by blast

context fiber_session
begin

lemma from_session_inv:
  assumes "pgno_inv v7 c d n (journal s)" "from_session ops c expected_descriptor adapter d reads s = Ok w"
  shows "pgno_inv v7 c (pg_draws w) (pg_next_id w) (journal (pg_session w))" "journal (pg_session w) = journal s"
proof -
  obtain entries m where m: "read_all_envelopes ops s = Ok entries" "max_aggregate c entries = Ok m"
      "w = \<lparr>pg_session = s, pg_next_id = m, pg_draws = d, pg_reads = reads\<rparr>"
    using assms(2) by (auto simp: from_session_def and_then_Ok_iff)
  then have "entries = journal s" using reads by blast
  then show "pgno_inv v7 c (pg_draws w) (pg_next_id w) (journal (pg_session w))" "journal (pg_session w) = journal s"
    using assms(1) m max_aggregate_covers [OF m(2)] by (fastforce simp: pgno_inv_def entry_good_def)+
qed

lemma call_effect:
  assumes "pgno_inv v7 c (pg_draws w) (pg_next_id w) (journal (pg_session w))" "fresh_uuids v7" "pgno_codec_contract c"
    and "pg_next_id w < u64_max" "length (journal (pg_session w)) < u64_max"
    and "w' = pgno_call show_uuid ops c v7 ts call w"
  shows "pgno_inv v7 c (pg_draws w') (pg_next_id w') (journal (pg_session w'))"
    "\<exists>new. pg_stream c (journal (pg_session w')) i = pg_stream c (journal (pg_session w)) i @ new"
proof -
  have "pgno_inv v7 c (pg_draws w') (pg_next_id w') (journal (pg_session w'))
    \<and> (\<exists>new. pg_stream c (journal (pg_session w')) i = pg_stream c (journal (pg_session w)) i @ new)"
  proof (cases call)
    case (CallCreate evs ctx)
    obtain r where call: "pgno_create show_uuid ops c v7 ts evs ctx w = (r, w')" using CallCreate assms(6) by (metis pgno_call.simps(1) prod.collapse)
    show ?thesis
      using create_effect [OF assms(1-4) call] by (auto simp: create_answer_def maybe_created_def split: option.splits sum.splits if_splits)
  next
    case (CallAppend k n evs ctx)
    obtain r where call: "pgno_append show_uuid ops c v7 ts k n evs ctx w = (r, w')"
      using CallAppend assms(6) by (metis pgno_call.simps(2) prod.collapse)
    show ?thesis
      using append_effect [OF assms(1-3,5) call] by (auto simp: append_answer_def maybe_appended_def split: option.splits sum.splits if_splits)
  qed
  then show "pgno_inv v7 c (pg_draws w') (pg_next_id w') (journal (pg_session w'))"
    "\<exists>new. pg_stream c (journal (pg_session w')) i = pg_stream c (journal (pg_session w)) i @ new" by blast+
qed

lemma reachable_inv:
  assumes "pgno_reachable show_uuid ops journal c v7 ts expected_descriptor adapter w" "fresh_uuids v7" "pgno_codec_contract c"
  shows "pgno_inv v7 c (pg_draws w) (pg_next_id w) (journal (pg_session w))"
  using assms(1)
proof (induction rule: pgno_reachable.induct)
  case (reach_start s draws reads w)
  then show ?case using from_session_inv(1) [of v7 c draws 0 s] by (simp add: pgno_inv_Nil)
next
  case (reach_call w call)
  then show ?case using call_effect(1) assms(2,3) by blast
next
  case (reach_reopen w s w')
  then show ?case using from_session_inv(1) [of v7 c "pg_draws w" "pg_next_id w" s] by simp
qed

end

text \<open>
  C21. The journal-backed event store. On any session that keeps the contract of the journal, whatever
  the writes do, after any calls and reopenings every history is a valid stream, a load that succeeds returns it, and each call
  keeps the contract of the event store port: an event is recorded with the caller's context exactly when the call succeeds, a
  definite error changes no history, and an indeterminate one means the event was recorded as a whole
  or not at all. Opening the journal again shows the same histories. No call panics before a counter is exhausted.
\<close>

theorem pgno_store_contract:
  fixes w :: "'s pgno_world"
  assumes "fiber_session ops journal" "fresh_uuids v7" "pgno_codec_contract c"
    and "pgno_reachable show_uuid ops journal c v7 ts expected_descriptor adapter w"
    and "pg_next_id w < u64_max" "length (journal (pg_session w)) < u64_max"
  defines "past \<equiv> \<lambda>w :: 's pgno_world. pg_stream c (journal (pg_session w))"
  shows "valid_stream i (past w i)
    \<and> (\<forall>es. ordered_stream ops c i w = Ok es \<longrightarrow> es = past w i)
    \<and> (\<forall>r w'. pgno_create show_uuid ops c v7 ts evs ctx w = (r, w') \<longrightarrow> create_answer evs ctx (past w) (past w') r)
    \<and> (\<forall>r w'. pgno_append show_uuid ops c v7 ts i k evs ctx w = (r, w') \<longrightarrow> append_answer i k evs ctx (past w) (past w') r)
    \<and> (\<forall>s w'. journal s = journal (pg_session w) \<and> from_session ops c expected_descriptor adapter (pg_draws w) (pg_reads w) s = Ok w'
        \<longrightarrow> past w' = past w)"
proof -
  note inv = fiber_session.reachable_inv [OF assms(1,4,2,3)]
  have "past w' = past w" if "journal s = journal (pg_session w)"
    "from_session ops c expected_descriptor adapter (pg_draws w) (pg_reads w) s = Ok w'" for s w'
    using fiber_session.from_session_inv(2) [OF assms(1), of v7 c "pg_draws w" "pg_next_id w" s expected_descriptor adapter "pg_reads w" w'] inv that
    by (simp add: past_def)
  then show ?thesis
    using pg_stream_good(2) [OF inv] fiber_session.ordered_stream_Ok [OF assms(1) inv]
      fiber_session.create_effect [OF assms(1) inv assms(2,3,5)] fiber_session.append_effect [OF assms(1) inv assms(2,3,6)]
    unfolding past_def by blast
qed

text \<open>A codec for events of the first aggregate with a given payload, identifier and sequence number in unary.\<close>

definition unary_record :: "'e \<Rightarrow> nat \<Rightarrow> nat \<Rightarrow> 'e pgno_envelope" where
  "unary_record p u sq = \<lparr>pg_event_id = u, pg_aggregate_id = 1, pg_sequence = sq, pg_timestamp_nanos = 0, pg_correlation_id = None,
    pg_causation_id = None, pg_payload = p\<rparr>"

definition unary_codec :: "'e \<Rightarrow> ('e, string) pgno_codec" where
  "unary_codec p = \<lparr>pg_derive_fiber_id = (\<lambda>k. k),
    json_to_vec = (\<lambda>r. if r = unary_record p (pg_event_id r) (pg_sequence r)
      then Ok (replicate (pg_event_id r) CHR ''i'' @ CHR ''s'' # replicate (pg_sequence r) CHR ''q'') else Err ''unsupported''),
    json_from_slice = (\<lambda>x. Ok (unary_record p (length (takeWhile (\<lambda>ch. ch = CHR ''i'') x)) (length (dropWhile (\<lambda>ch. ch = CHR ''i'') x) - 1))),
    json_bytes_new = Ok, encode_type = Ok, decode_type = (\<lambda>x. Ok (x, length x)), from_nanosecond = (\<lambda>n. Ok n), as_nanosecond = (\<lambda>t. t)\<rparr>"

lemma unary_codec_contract: "pgno_codec_contract (unary_codec p)"
  by (auto simp: pgno_codec_contract_def unary_codec_def takeWhile_append dropWhile_append split: if_splits)

definition sample_adapter :: "(unit, string planned_session, unit) storage_adapter" where
  "sample_adapter = \<lparr>remove_meta = (\<lambda>w. w), remove_pgno = (\<lambda>w. w), adapter_create = (\<lambda>_ _ w. (Ok (planned_start []), w)),
    read_meta_descriptor = (\<lambda>_. Ok (Some ())), current_epoch = (\<lambda>_. Ok 1), open_write = (\<lambda>_ w. (Ok (planned_start []), w)),
    session_descriptor = (\<lambda>_. Some ())\<rparr>"

definition sample_pgno :: "string planned_session pgno_world" where
  "sample_pgno = \<lparr>pg_session = planned_start [Works, Works], pg_next_id = 0, pg_draws = 0, pg_reads = 0\<rparr>"

theorem pgno_store_contract_witness:
  "let w = pgno_call show_nat planned_ops (unary_codec ()) Suc (\<lambda>_. 0) (CallCreate [()] CorrelationContext_none) sample_pgno in
    valid_stream (AggregateId 1) (pg_stream (unary_codec ()) (pl_journal (pg_session w)) (AggregateId 1)) \<and> pl_journal (pg_session w) \<noteq> []"
proof -
  let ?w = "pgno_call show_nat planned_ops (unary_codec ()) Suc (\<lambda>_. 0) (CallCreate [()] CorrelationContext_none) sample_pgno"
  have "pgno_reachable show_nat planned_ops pl_journal (unary_codec ()) Suc (\<lambda>_. 0) (Ok ()) sample_adapter sample_pgno"
    by (rule reach_start [of _ "planned_start [Works, Works]" _ _ _ _ 0 0])
      (simp_all add: planned_start_def from_session_def validate_json_descriptor_def sample_adapter_def planned_ops_def max_aggregate_def sample_pgno_def)
  then have reach: "pgno_reachable show_nat planned_ops pl_journal (unary_codec ()) Suc (\<lambda>_. 0) (Ok ()) sample_adapter ?w"
    by (rule reach_call) (simp_all add: sample_pgno_def planned_start_def u64_max_def)
  have "pg_next_id ?w = 1 \<and> length (pl_journal (pg_session ?w)) = 1"
    by (simp add: pgno_create_def sample_pgno_def planned_start_def pgno_ready_def planned_ops_def u64_max_def Let_def record_single_def
        encode_record_def unary_codec_def unary_record_def CorrelationContext_none_def i64_try_from_or_max_def i64_max_def write_record_def
        verdict_of_def landed_def planned_write_def next_fault_def split: sum.splits)
  then have room: "pg_next_id ?w < u64_max" "length (pl_journal (pg_session ?w)) < u64_max" "pl_journal (pg_session ?w) \<noteq> []"
    by (auto simp: u64_max_def)
  show ?thesis
    using pgno_store_contract [OF planned.fiber_session_axioms fresh_uuids_Suc unary_codec_contract reach room(1,2), where i = "AggregateId 1"]
      room(3) by (auto simp: Let_def)
qed

text \<open>
  C40. The aggregate counter wraps around. When it stands at the largest 64-bit number, which is the case
  right after opening a journal that holds such an aggregate, a create panics and leaves the counter
  at zero; the next create then assigns the identifier one again, and when its record lands on an
  aggregate that exists, that aggregate cannot be loaded any more.
\<close>

theorem pgno_id_wraps:
  assumes "fiber_session ops journal" "fresh_uuids v7" "pgno_codec_contract c"
    and "pgno_inv v7 c (pg_draws w) (pg_next_id w) (journal (pg_session w))" "length (journal (pg_session w)) < u64_max"
    and "pg_next_id w = u64_max" "uncertain_diagnostic ops (pg_session w) = None"
    and "pg_stream c (journal (pg_session w)) (AggregateId 1) \<noteq> []"
    and "pgno_create show_uuid ops c v7 ts [p] ctx w = (r1, w1)" "pgno_create show_uuid ops c v7 ts [q] ctx w1 = (r2, w2)"
    and "journal (pg_session w2) \<noteq> journal (pg_session w)"
  shows "r1 = None \<and> pg_next_id w1 = 0 \<and> (\<forall>x. r2 \<noteq> Some (Ok x)) \<and> (\<forall>es. ordered_stream ops c (AggregateId 1) w2 \<noteq> Ok es)"
proof -
  let ?j = "journal (pg_session w)" and ?i = "AggregateId 1"
  have ready: "pgno_ready ops w = Ok (pg_session w)" using assms(7) by (simp add: pgno_ready_def)
  then have first: "r1 = None" "w1 = w\<lparr>pg_next_id := 0\<rparr>" using assms(6,9) by (simp_all add: pgno_create_def)
  let ?w0 = "w1\<lparr>pg_next_id := 1, pg_draws := Suc (pg_draws w), pg_reads := Suc (pg_reads w)\<rparr>"
  obtain r w3 where call: "record_single ops c (ts (pg_reads w)) 1 (v7 (pg_draws w)) 1 ctx q ?w0 = (r, w3)" by fastforce
  have ready1: "pgno_ready ops w1 = Ok (pg_session w)" using assms(7) first by (simp add: pgno_ready_def)
  have second: "w2 = w3" "\<And>i es. r2 = Some (Ok (i, es)) \<Longrightarrow> ordered_stream ops c ?i w2 = Ok es"
    using assms(10) ready1 first call by (auto simp: pgno_create_def Let_def u64_max_def AggregateId_new_def and_then_Ok_iff split: sum.splits)
  obtain entry t nanos where entry: "journal (pg_session w2) = ?j @ [entry]" "\<not> je_detached entry" "from_nanosecond c nanos = Ok t"
      "decode_record c (je_payload entry) = Ok \<lparr>pg_event_id = v7 (pg_draws w), pg_aggregate_id = 1, pg_sequence = 1, pg_timestamp_nanos = nanos,
             pg_correlation_id = correlation_id ctx, pg_causation_id = causation_id ctx, pg_payload = q\<rparr>"
    using fiber_session.record_single_journal [OF assms(1,3) call] assms(11) second(1) first(2) by auto
  let ?old = "pg_stream c ?j ?i"
  obtain env where env: "collect_stream c ?i (?j @ [entry]) = Ok (?old @ [env])" "env_sequence env = 1"
    using pg_stream_good(1) [OF assms(4), of ?i] entry assms(2)
    by (auto simp: collect_stream_append envelope_of_def EventEnvelope_new_def fresh_uuids_def)
  have old: "valid_stream ?i ?old" using pg_stream_good(2) [OF assms(4)] .
  have "ordered_stream ops c ?i w2 \<noteq> Ok es" for es
  proof
    assume ok: "ordered_stream ops c ?i w2 = Ok es"
    then obtain s entries where "pgno_ready ops w2 = Ok s" "read_all_envelopes ops s = Ok entries"
      by (auto simp: ordered_stream_def and_then_Ok_iff)
    then have "entries = ?j @ [entry]" using pgno_ready_Ok fiber_session.reads [OF assms(1)] entry(1) by metis
    then have es: "es = sort_key env_sequence (?old @ [env])" "validate_stream ?i es = Ok ()"
      using ok \<open>pgno_ready ops w2 = Ok s\<close> \<open>read_all_envelopes ops s = Ok entries\<close> env(1)
      by (auto simp: ordered_stream_def and_then_Ok_iff Let_def)
    have "length es \<le> u64_max" using es(1) pg_stream_length [of c ?j ?i] assms(5) by simp
    then have valid: "valid_stream ?i es" using es(2) validate_stream_Ok_iff by blast
    have "mset (map env_sequence es) = mset (map env_sequence (?old @ [env]))" by (simp only: es(1) mset_map mset_sort)
    then have "distinct (map env_sequence (?old @ [env]))"
      using valid unfolding valid_stream_def by (metis distinct_upt mset_eq_imp_distinct_iff)
    moreover have "1 \<in> set (map env_sequence ?old)"
      using valid_stream_seq [OF old, of 0] assms(8) by (force simp: in_set_conv_nth)
    ultimately show False using env(2) by auto
  qed
  then show ?thesis using first second(2) by fastforce
qed

text \<open>A store with one aggregate whose counter stands at the limit.\<close>

definition full_pgno :: "string planned_session pgno_world" where
  "full_pgno = \<lparr>pg_session = \<lparr>pl_journal = [\<lparr>je_fiber = ''1'', je_event_id = 1, je_detached = False, je_payload = ''isq''\<rparr>],
    pl_plan = [], pl_uncertain = None\<rparr>, pg_next_id = u64_max, pg_draws = 1, pg_reads = 0\<rparr>"

lemma full_pgno_inv:
  "pgno_inv Suc (unary_codec ()) (pg_draws full_pgno) (pg_next_id full_pgno) (pl_journal (pg_session full_pgno))"
  "pg_stream (unary_codec ()) (pl_journal (pg_session full_pgno)) (AggregateId 1) \<noteq> []"
  by (auto simp: pgno_inv_def entry_good_def stream_good_def full_pgno_def decode_record_def unary_codec_def unary_record_def u64_max_def
      envelope_of_def EventEnvelope_new_def nil_uuid_def valid_stream_def pg_stream_def aggregate_id.expand lessThan_Suc)

theorem pgno_id_wraps_witness:
  "\<exists>w1 r2 w2. pgno_create show_nat planned_ops (unary_codec ()) Suc (\<lambda>_. 0) [()] CorrelationContext_none full_pgno = (None, w1)
    \<and> pgno_create show_nat planned_ops (unary_codec ()) Suc (\<lambda>_. 0) [()] CorrelationContext_none w1 = (r2, w2)
    \<and> (\<forall>es. ordered_stream planned_ops (unary_codec ()) (AggregateId 1) w2 \<noteq> Ok es)"
proof -
  obtain r1 w1 where first: "pgno_create show_nat planned_ops (unary_codec ()) Suc (\<lambda>_. 0) [()] CorrelationContext_none full_pgno = (r1, w1)" by fastforce
  obtain r2 w2 where second: "pgno_create show_nat planned_ops (unary_codec ()) Suc (\<lambda>_. 0) [()] CorrelationContext_none w1 = (r2, w2)" by fastforce
  have w1: "w1 = full_pgno\<lparr>pg_next_id := 0\<rparr>"
    using first by (simp add: pgno_create_def full_pgno_def pgno_ready_def planned_ops_def)
  have "pl_journal (pg_session (snd (pgno_create show_nat planned_ops (unary_codec ()) Suc (\<lambda>_. 0) [()] CorrelationContext_none
      (full_pgno\<lparr>pg_next_id := 0\<rparr>)))) \<noteq> pl_journal (pg_session full_pgno)"
    by (simp add: pgno_create_def full_pgno_def pgno_ready_def planned_ops_def u64_max_def Let_def record_single_def
        encode_record_def unary_codec_def unary_record_def CorrelationContext_none_def i64_try_from_or_max_def i64_max_def write_record_def
        verdict_of_def landed_def planned_write_def next_fault_def)
  then have "pl_journal (pg_session w2) \<noteq> pl_journal (pg_session full_pgno)" using second w1 by simp
  moreover have "length (pl_journal (pg_session full_pgno)) < u64_max" "pg_next_id full_pgno = u64_max"
      "uncertain_diagnostic planned_ops (pg_session full_pgno) = None"
    by (simp_all add: full_pgno_def u64_max_def planned_ops_def)
  ultimately show ?thesis
    using pgno_id_wraps [OF planned.fiber_session_axioms fresh_uuids_Suc unary_codec_contract full_pgno_inv(1) _ _ _ full_pgno_inv(2) first second]
      first second by blast
qed

end
