(* ===== verification/Pardosa_Bridge.thy ===== *)
theory Pardosa_Bridge
  imports Pardosa_Store Scheduler
begin

text \<open>
  The two event stores that keep events of a type the journal cannot hold: \<open>PgnoSchedulerStore\<close>
  (\<open>pardosa-cherry-pit-test-support/src/scheduler_store.rs\<close>) converts scheduler facts field by field, and
  \<open>PgnoSerdeStore\<close> (\<open>serde_bridge.rs\<close>) keeps the serialised event as bytes. Both wrap a
  \<open>PgnoEventStore\<close> and convert at the boundary in the same way; what they need of a conversion is the
  locale \<open>event_bridge\<close>. Serialisation and the nanosecond form of timestamps are parameters.
\<close>

section \<open>Conversion at the boundary\<close>

record ('e, 'd) bridge =
  bridge_to :: "'e \<Rightarrow> (store_error, 'd) result"
  bridge_from :: "'d \<Rightarrow> (store_error, 'e) result"

definition remap_envelope :: "('e, 'd) bridge \<Rightarrow> 'd event_envelope \<Rightarrow> (store_error, 'e event_envelope) result" where
  "remap_envelope b envelope = and_then (bridge_from b (env_payload envelope)) (\<lambda>payload.
    map_err (\<lambda>e. CorruptData (BoxEnvelopeError e))
      (EventEnvelope_new (env_event_id envelope) (env_aggregate_id envelope) (env_sequence envelope) (env_timestamp envelope)
        (env_correlation_id envelope) (env_causation_id envelope) payload))"

definition bridged_load ::
  "('e, 'd) bridge \<Rightarrow> ('s, 'f) session_ops \<Rightarrow> ('d, 'f) pgno_codec \<Rightarrow> aggregate_id \<Rightarrow> 's pgno_world \<Rightarrow> (store_error, 'e event_envelope list) result" where
  "bridged_load b ops c i w = and_then (ordered_stream ops c i w) (traverse (remap_envelope b))"

definition remap_landed ::
  "(uuid \<Rightarrow> string) \<Rightarrow> ('e, 'd) bridge \<Rightarrow> 'd event_envelope list \<Rightarrow> (store_error, 'e event_envelope list) result" where
  "remap_landed show_uuid b envelopes =
    map_err (\<lambda>e. after_landed (StoreError_fmt show_uuid e)) (traverse (remap_envelope b) envelopes)"

definition bridged_create ::
  "(uuid \<Rightarrow> string) \<Rightarrow> ('e, 'd) bridge \<Rightarrow> ('s, 'f) session_ops \<Rightarrow> ('d, 'f) pgno_codec \<Rightarrow> (nat \<Rightarrow> uuid) \<Rightarrow> (nat \<Rightarrow> timestamp) \<Rightarrow> 'e list
    \<Rightarrow> correlation_context \<Rightarrow> 's pgno_world \<Rightarrow> (store_error, aggregate_id \<times> 'e event_envelope list) result option \<times> 's pgno_world" where
  "bridged_create show_uuid b ops c v7 ts events ctx w = (case traverse (bridge_to b) events of
      Err e \<Rightarrow> (Some (Err e), w)
    | Ok dtos \<Rightarrow> (case pgno_create show_uuid ops c v7 ts dtos ctx w of
        (None, w') \<Rightarrow> (None, w')
      | (Some r, w') \<Rightarrow>
          (Some (and_then r (\<lambda>(i, envelopes). and_then (remap_landed show_uuid b envelopes) (\<lambda>remapped. Ok (i, remapped)))), w')))"

definition bridged_append ::
  "(uuid \<Rightarrow> string) \<Rightarrow> ('e, 'd) bridge \<Rightarrow> ('s, 'f) session_ops \<Rightarrow> ('d, 'f) pgno_codec \<Rightarrow> (nat \<Rightarrow> uuid) \<Rightarrow> (nat \<Rightarrow> timestamp) \<Rightarrow> aggregate_id \<Rightarrow> nat
    \<Rightarrow> 'e list \<Rightarrow> correlation_context \<Rightarrow> 's pgno_world \<Rightarrow> (store_error, 'e event_envelope list) result option \<times> 's pgno_world" where
  "bridged_append show_uuid b ops c v7 ts i expected_seq events ctx w = (case traverse (bridge_to b) events of
      Err e \<Rightarrow> (Some (Err e), w)
    | Ok dtos \<Rightarrow> (case pgno_append show_uuid ops c v7 ts i expected_seq dtos ctx w of
        (None, w') \<Rightarrow> (None, w')
      | (Some r, w') \<Rightarrow> (Some (and_then r (remap_landed show_uuid b)), w')))"

section \<open>Scheduler facts\<close>

definition CALLER_EVENT_TYPE_MAX :: nat where
  "CALLER_EVENT_TYPE_MAX = 512"

definition PAYLOAD_MAX :: nat where
  "PAYLOAD_MAX = 65536"

record schedule_armed_dto =
  ad_schedule_id :: uuid
  ad_fire_at_nanos :: int
  ad_target_aggregate :: nat
  ad_caller_event_id :: uuid
  ad_caller_event_type :: string
  ad_payload :: "nat list"
  ad_correlation_id :: "uuid option"
  ad_causation_id :: "uuid option"

record schedule_fired_dto =
  fd_schedule_id :: uuid
  fd_target_aggregate :: nat
  fd_caller_event_id :: uuid
  fd_caller_event_type :: string
  fd_payload :: "nat list"
  fd_correlation_id :: "uuid option"
  fd_causation_id :: "uuid option"

record schedule_cancelled_dto =
  cd_schedule_id :: uuid

datatype scheduler_event_dto =
    ArmedDto schedule_armed_dto
  | FiredDto schedule_fired_dto
  | CancelledDto schedule_cancelled_dto

fun SchedulerEventDto_event_type :: "scheduler_event_dto \<Rightarrow> string" where
  "SchedulerEventDto_event_type (ArmedDto _) = ''scheduler.schedule_armed''"
| "SchedulerEventDto_event_type (FiredDto _) = ''scheduler.schedule_fired''"
| "SchedulerEventDto_event_type (CancelledDto _) = ''scheduler.schedule_cancelled''"

datatype scheduler_conversion_error = CallerEventTypeTooLong nat | PayloadTooLong nat

fun SchedulerEventConversionError_fmt :: "scheduler_conversion_error \<Rightarrow> string" where
  "SchedulerEventConversionError_fmt (CallerEventTypeTooLong len) =
    ''caller_event_type is '' @ show_nat len @ '' bytes, exceeds bound '' @ show_nat CALLER_EVENT_TYPE_MAX"
| "SchedulerEventConversionError_fmt (PayloadTooLong len) =
    ''payload is '' @ show_nat len @ '' bytes, exceeds bound '' @ show_nat PAYLOAD_MAX"

definition caller_event_type_dto :: "string \<Rightarrow> (scheduler_conversion_error, string) result" where
  "caller_event_type_dto s = (if CALLER_EVENT_TYPE_MAX < length s then Err (CallerEventTypeTooLong (length s)) else Ok s)"

definition payload_dto :: "nat list \<Rightarrow> (scheduler_conversion_error, nat list) result" where
  "payload_dto bytes = (if PAYLOAD_MAX < length bytes then Err (PayloadTooLong (length bytes)) else Ok bytes)"

fun scheduler_to_dto :: "(timestamp \<Rightarrow> int) \<Rightarrow> scheduler_event \<Rightarrow> (scheduler_conversion_error, scheduler_event_dto) result" where
  "scheduler_to_dto as_nanos (Armed a) =
    and_then (caller_event_type_dto (armed_caller_event_type a)) (\<lambda>caller_event_type.
    and_then (payload_dto (armed_payload a)) (\<lambda>payload.
    Ok (ArmedDto \<lparr>ad_schedule_id = as_uuid (armed_schedule_id a), ad_fire_at_nanos = as_nanos (armed_fire_at a),
      ad_target_aggregate = get (armed_target_aggregate a), ad_caller_event_id = armed_caller_event_id a,
      ad_caller_event_type = caller_event_type, ad_payload = payload, ad_correlation_id = correlation_id (armed_correlation a),
      ad_causation_id = causation_id (armed_correlation a)\<rparr>)))"
| "scheduler_to_dto as_nanos (Fired x) =
    and_then (caller_event_type_dto (fired_caller_event_type x)) (\<lambda>caller_event_type.
    and_then (payload_dto (fired_payload x)) (\<lambda>payload.
    Ok (FiredDto \<lparr>fd_schedule_id = as_uuid (fired_schedule_id x), fd_target_aggregate = get (fired_target_aggregate x),
      fd_caller_event_id = fired_caller_event_id x, fd_caller_event_type = caller_event_type, fd_payload = payload,
      fd_correlation_id = correlation_id (fired_correlation x), fd_causation_id = causation_id (fired_correlation x)\<rparr>)))"
| "scheduler_to_dto as_nanos (Cancelled x) = Ok (CancelledDto \<lparr>cd_schedule_id = as_uuid (cancelled_schedule_id x)\<rparr>)"

definition target_aggregate_from :: "nat \<Rightarrow> (store_error, aggregate_id) result" where
  "target_aggregate_from raw = (case non_zero_u64 raw of
      Some n \<Rightarrow> Ok (AggregateId_new n)
    | None \<Rightarrow> Err (CorruptData (BoxMessage ''scheduler DTO target_aggregate must be non-zero'')))"

fun correlation_from :: "uuid option \<Rightarrow> uuid option \<Rightarrow> correlation_context" where
  "correlation_from (Some c) (Some k) = CorrelationContext_new c k"
| "correlation_from (Some c) None = CorrelationContext_correlated c"
| "correlation_from None _ = CorrelationContext_none"

definition UNIX_EPOCH :: timestamp where
  "UNIX_EPOCH = 0"

fun scheduler_from_dto :: "(int \<Rightarrow> (string, timestamp) result) \<Rightarrow> scheduler_event_dto \<Rightarrow> (store_error, scheduler_event) result" where
  "scheduler_from_dto from_nanos (ArmedDto a) =
    and_then (target_aggregate_from (ad_target_aggregate a)) (\<lambda>target_aggregate.
    and_then (map_err foreign_corrupt (from_nanos (ad_fire_at_nanos a))) (\<lambda>fire_at.
    Ok (Armed \<lparr>armed_schedule_id = ScheduleId (ad_schedule_id a), armed_fire_at = fire_at, armed_target_aggregate = target_aggregate,
      armed_caller_event_id = ad_caller_event_id a, armed_caller_event_type = ad_caller_event_type a, armed_payload = ad_payload a,
      armed_correlation = correlation_from (ad_correlation_id a) (ad_causation_id a)\<rparr>)))"
| "scheduler_from_dto from_nanos (FiredDto x) =
    and_then (target_aggregate_from (fd_target_aggregate x)) (\<lambda>target_aggregate.
    Ok (Fired (from_armed \<lparr>armed_schedule_id = ScheduleId (fd_schedule_id x), armed_fire_at = UNIX_EPOCH,
      armed_target_aggregate = target_aggregate, armed_caller_event_id = fd_caller_event_id x,
      armed_caller_event_type = fd_caller_event_type x, armed_payload = fd_payload x,
      armed_correlation = correlation_from (fd_correlation_id x) (fd_causation_id x)\<rparr>)))"
| "scheduler_from_dto from_nanos (CancelledDto x) = Ok (Cancelled \<lparr>cancelled_schedule_id = ScheduleId (cd_schedule_id x)\<rparr>)"

definition scheduler_bridge ::
  "(timestamp \<Rightarrow> int) \<Rightarrow> (int \<Rightarrow> (string, timestamp) result) \<Rightarrow> (scheduler_event, scheduler_event_dto) bridge" where
  "scheduler_bridge as_nanos from_nanos =
    \<lparr>bridge_to = (\<lambda>event. map_err (\<lambda>e. Infrastructure (BoxForeign (SchedulerEventConversionError_fmt e))) (scheduler_to_dto as_nanos event)),
     bridge_from = scheduler_from_dto from_nanos\<rparr>"

section \<open>Serialised events\<close>

definition SERDE_ENVELOPE_MAX :: nat where
  "SERDE_ENVELOPE_MAX = 262144"

record serde_envelope_dto =
  dto_bytes :: string

datatype serde_bridge_error = TooLarge nat | SerdeCodec string

fun SerdeBridgeError_fmt :: "serde_bridge_error \<Rightarrow> string" where
  "SerdeBridgeError_fmt (TooLarge len) =
    ''serde-bridge event is '' @ show_nat len @ '' bytes, exceeds bound '' @ show_nat SERDE_ENVELOPE_MAX"
| "SerdeBridgeError_fmt (SerdeCodec e) = ''serde-bridge codec error: '' @ e"

definition serde_to_dto :: "('e \<Rightarrow> (string, string) result) \<Rightarrow> 'e \<Rightarrow> (serde_bridge_error, serde_envelope_dto) result" where
  "serde_to_dto serialize event = and_then (map_err SerdeCodec (serialize event)) (\<lambda>json.
    if SERDE_ENVELOPE_MAX < length json then Err (TooLarge (length json)) else Ok \<lparr>dto_bytes = json\<rparr>)"

definition serde_from_dto :: "(string \<Rightarrow> (string, 'e) result) \<Rightarrow> serde_envelope_dto \<Rightarrow> (serde_bridge_error, 'e) result" where
  "serde_from_dto deserialize dto = map_err SerdeCodec (deserialize (dto_bytes dto))"

definition serde_conversion_error :: "serde_bridge_error \<Rightarrow> store_error" where
  "serde_conversion_error e = Infrastructure (BoxForeign (SerdeBridgeError_fmt e))"

definition serde_bridge ::
  "('e \<Rightarrow> (string, string) result) \<Rightarrow> (string \<Rightarrow> (string, 'e) result) \<Rightarrow> ('e, serde_envelope_dto) bridge" where
  "serde_bridge serialize deserialize =
    \<lparr>bridge_to = (\<lambda>event. map_err serde_conversion_error (serde_to_dto serialize event)),
     bridge_from = (\<lambda>dto. map_err serde_conversion_error (serde_from_dto deserialize dto))\<rparr>"

section \<open>The two stores\<close>

definition PgnoSchedulerStore_load where
  "PgnoSchedulerStore_load as_nanos from_nanos = bridged_load (scheduler_bridge as_nanos from_nanos)"

definition PgnoSchedulerStore_create where
  "PgnoSchedulerStore_create as_nanos from_nanos show_uuid = bridged_create show_uuid (scheduler_bridge as_nanos from_nanos)"

definition PgnoSchedulerStore_append where
  "PgnoSchedulerStore_append as_nanos from_nanos show_uuid = bridged_append show_uuid (scheduler_bridge as_nanos from_nanos)"

definition PgnoSerdeStore_load where
  "PgnoSerdeStore_load serialize deserialize = bridged_load (serde_bridge serialize deserialize)"

definition PgnoSerdeStore_create where
  "PgnoSerdeStore_create serialize deserialize show_uuid = bridged_create show_uuid (serde_bridge serialize deserialize)"

definition PgnoSerdeStore_append where
  "PgnoSerdeStore_append serialize deserialize show_uuid = bridged_append show_uuid (serde_bridge serialize deserialize)"

lemmas scheduler_store_defs = PgnoSchedulerStore_load_def PgnoSchedulerStore_create_def PgnoSchedulerStore_append_def
lemmas serde_store_defs = PgnoSerdeStore_load_def PgnoSerdeStore_create_def PgnoSerdeStore_append_def

section \<open>Histories of converted events\<close>

definition bridged :: "('e, 'd) bridge \<Rightarrow> 'd event_envelope list \<Rightarrow> 'e event_envelope list" where
  "bridged b es = (case traverse (remap_envelope b) es of Ok es' \<Rightarrow> es' | Err _ \<Rightarrow> [])"

definition convertible :: "('e, 'd) bridge \<Rightarrow> 'd event_envelope list \<Rightarrow> bool" where
  "convertible b es \<longleftrightarrow> (\<forall>env \<in> set es. env_event_id env \<noteq> nil_uuid \<and> is_ok (bridge_from b (env_payload env)))"

lemma remap_envelope_Ok_iff:
  "remap_envelope b env = Ok env' \<longleftrightarrow> env_event_id env \<noteq> nil_uuid \<and>
    (\<exists>p. bridge_from b (env_payload env) = Ok p \<and>
      env' = \<lparr>env_event_id = env_event_id env, env_aggregate_id = env_aggregate_id env, env_sequence = env_sequence env,
        env_timestamp = env_timestamp env, env_correlation_id = env_correlation_id env, env_causation_id = env_causation_id env, env_payload = p\<rparr>)"
  by (auto simp: remap_envelope_def and_then_Ok_iff EventEnvelope_new_def)

lemma traverse_bridged: "convertible b es \<Longrightarrow> traverse (remap_envelope b) es = Ok (bridged b es)"
  using traverse_total [of es "remap_envelope b"]
  by (fastforce simp: bridged_def convertible_def remap_envelope_Ok_iff is_ok_iff)

lemma bridged_rel: "convertible b es \<Longrightarrow> list_all2 (\<lambda>env env'. remap_envelope b env = Ok env') es (bridged b es)"
  using traverse_bridged traverse_Ok_iff by blast

lemma bridged_Nil [simp]: "bridged b [] = []"
  by (simp add: bridged_def)

lemma bridged_append:
  assumes "convertible b xs" "convertible b ys"
  shows "bridged b (xs @ ys) = bridged b xs @ bridged b ys"
proof -
  have "list_all2 (\<lambda>env env'. remap_envelope b env = Ok env') (xs @ ys) (bridged b xs @ bridged b ys)"
    using assms bridged_rel by (blast intro: list_all2_appendI)
  then show ?thesis by (simp add: traverse_Ok_iff [symmetric] bridged_def [of b "xs @ ys"])
qed

lemma convertible_append [simp]: "convertible b (xs @ ys) \<longleftrightarrow> convertible b xs \<and> convertible b ys"
  by (auto simp: convertible_def)

lemma bridged_eq_Nil: "convertible b es \<Longrightarrow> bridged b es = [] \<longleftrightarrow> es = []"
  using bridged_rel by fastforce

lemma bridged_maps:
  assumes "convertible b es"
  shows "map env_event_id (bridged b es) = map env_event_id es" "map env_sequence (bridged b es) = map env_sequence es"
    "map env_aggregate_id (bridged b es) = map env_aggregate_id es" "length (bridged b es) = length es"
    "map env_correlation_id (bridged b es) = map env_correlation_id es" "map env_causation_id (bridged b es) = map env_causation_id es"
    "map (Ok \<circ> env_payload) (bridged b es) = map (bridge_from b \<circ> env_payload) es"
  using bridged_rel [OF assms] by (induction rule: list_all2_induct) (auto simp: remap_envelope_Ok_iff)

lemma bridged_valid:
  assumes "convertible b es" "valid_stream i es"
  shows "valid_stream i (bridged b es)"
proof -
  have "env_event_id ` set (bridged b es) = env_event_id ` set es" "env_aggregate_id ` set (bridged b es) = env_aggregate_id ` set es"
    using bridged_maps(1,3) [OF assms(1)] by (metis set_map)+
  then have "env_event_id env \<noteq> nil_uuid \<and> env_aggregate_id env = i" if "env \<in> set (bridged b es)" for env
    using that assms(2) unfolding valid_stream_def by (metis (no_types, lifting) image_iff)
  then show ?thesis
    using assms(2) bridged_maps(1,2,4) [OF assms(1)] unfolding valid_stream_def by simp
qed

section \<open>The contract of a conversion\<close>

locale event_bridge =
  fixes b :: "('e, 'd) bridge"
    and wf :: "'e \<Rightarrow> bool"
  assumes round_trip: "wf e \<Longrightarrow> bridge_to b e = Ok d \<Longrightarrow> bridge_from b d = Ok e"
    and definite: "bridge_to b e = Err x \<Longrightarrow> StoreError_category x \<noteq> ReconciliationRequired"
begin

lemma traverse_round_trip:
  assumes "list_all wf evs" "traverse (bridge_to b) evs = Ok ds"
  shows "map (bridge_from b) ds = map (\<lambda>e. Ok e) evs"
  using assms round_trip unfolding traverse_Ok_iff by (induction evs arbitrary: ds) (auto simp: list_all2_Cons1)

lemma records_convertible:
  assumes "list_all wf evs" "traverse (bridge_to b) evs = Ok ds" "records ds ctx envs" "\<forall>env \<in> set envs. env_event_id env \<noteq> nil_uuid"
  shows "convertible b envs" "records evs ctx (bridged b envs)"
proof -
  have decoded: "map (bridge_from b \<circ> env_payload) envs = map (\<lambda>e. Ok e :: (store_error, 'e) result) evs"
    using traverse_round_trip [OF assms(1,2)] assms(3) by (metis map_map records_def)
  then have "\<forall>env \<in> set envs. is_ok (bridge_from b (env_payload env))"
    by (metis comp_apply image_eqI image_iff is_ok.simps(1) list.set_map)
  then show conv: "convertible b envs" using assms(4) by (simp add: convertible_def)
  have "map (\<lambda>e. Ok e :: (store_error, 'e) result) (map env_payload (bridged b envs)) = map (\<lambda>e. Ok e) evs"
    using bridged_maps(7) [OF conv] decoded by (simp add: comp_def)
  then have "map env_payload (bridged b envs) = evs" by (rule map_injective) (simp add: inj_def)
  moreover have "\<forall>env \<in> set (bridged b envs). env_correlation_id env = correlation_id ctx \<and> env_causation_id env = causation_id ctx"
    using bridged_maps(5,6) [OF conv] assms(3) unfolding records_def
    by (metis (no_types, lifting) image_iff list.set_map)
  ultimately show "records evs ctx (bridged b envs)" by (simp add: records_def)
qed

text \<open>What an answer means for the histories of converted events, from what the wrapped store's answer means.\<close>

abbreviation "ready_hist f \<equiv> \<forall>i. valid_stream i (f i) \<and> convertible b (f i)"

lemma valid_not_nil: "valid_stream i es \<Longrightarrow> \<forall>env \<in> set es. env_event_id env \<noteq> nil_uuid"
  by (simp add: valid_stream_def)

lemma new_records:
  assumes "list_all wf evs" "traverse (bridge_to b) evs = Ok ds" "records ds ctx envs" "ready_hist f"
    and "valid_stream i (f i @ envs)" "f' = f(i := f i @ envs)"
  shows "ready_hist f'" "convertible b envs" "records evs ctx (bridged b envs)"
    "(\<lambda>k. bridged b (f' k)) = (\<lambda>k. bridged b (f k))(i := bridged b (f i) @ bridged b envs)"
proof -
  have "\<forall>env \<in> set envs. env_event_id env \<noteq> nil_uuid" using valid_not_nil [OF assms(5)] by simp
  note new = records_convertible [OF assms(1-3) this]
  show "convertible b envs" "records evs ctx (bridged b envs)" by (rule new)+
  show "ready_hist f'" using assms(4-6) new(1) by auto
  show "(\<lambda>k. bridged b (f' k)) = (\<lambda>k. bridged b (f k))(i := bridged b (f i) @ bridged b envs)"
    using assms(4,6) new(1) by (auto simp: bridged_append)
qed

lemma lift_create:
  assumes "list_all wf evs" "traverse (bridge_to b) evs = Ok ds" "create_answer ds ctx f f' r" "ready_hist f" "\<And>i. valid_stream i (f' i)"
  shows "ready_hist f' \<and> create_answer evs ctx (\<lambda>i. bridged b (f i)) (\<lambda>i. bridged b (f' i))
    (map_option (\<lambda>r. and_then r (\<lambda>(i, envs). and_then (remap_landed show_uuid b envs) (\<lambda>remapped. Ok (i, remapped)))) r)"
proof -
  have created: "ready_hist f' \<and> convertible b envs \<and> records evs ctx (bridged b envs) \<and> bridged b (f i) = []
      \<and> (\<lambda>k. bridged b (f' k)) = (\<lambda>k. bridged b (f k))(i := bridged b envs)"
    if "f i = []" "records ds ctx envs" "f' = f(i := envs)" for i envs
    using new_records [OF assms(1,2) that(2) assms(4), of i f'] that assms(5) [of i] by simp
  have evs: "evs = [] \<longleftrightarrow> ds = []" using assms(2) unfolding traverse_Ok_iff by auto
  consider (ok) i envs where "r = Some (Ok (i, envs))" "f i = []" "ds \<noteq> []" "records ds ctx envs" "f' = f(i := envs)"
    | (unchanged) e where "r = Some (Err e)" "f' = f"
    | (unknown) e i envs where "r = Some (Err e)" "StoreError_category e = ReconciliationRequired" "f i = []" "records ds ctx envs" "f' = f(i := envs)"
    using assms(3) by (auto simp: create_answer_def maybe_created_def split: option.splits sum.splits prod.splits if_splits)
  then show ?thesis
  proof cases
    case ok
    then show ?thesis using created [OF ok(2,4,5)] evs by (simp add: create_answer_def remap_landed_def traverse_bridged)
  next
    case unchanged
    then show ?thesis using assms(4) by (simp add: create_answer_def maybe_created_def)
  next
    case unknown
    note new = created [OF unknown(3-5)]
    then have "maybe_created evs ctx (\<lambda>i. bridged b (f i)) (\<lambda>i. bridged b (f' i))" unfolding maybe_created_def by blast
    then show ?thesis using new unknown(1,2) by (simp add: create_answer_def)
  qed
qed

lemma lift_append:
  assumes "list_all wf evs" "traverse (bridge_to b) evs = Ok ds" "append_answer i k ds ctx f f' r" "ready_hist f" "\<And>i. valid_stream i (f' i)"
  shows "ready_hist f' \<and> append_answer i k evs ctx (\<lambda>i. bridged b (f i)) (\<lambda>i. bridged b (f' i))
    (map_option (\<lambda>r. and_then r (remap_landed show_uuid b)) r)"
proof -
  have appended: "ready_hist f' \<and> convertible b envs \<and> records evs ctx (bridged b envs)
      \<and> (\<lambda>k. bridged b (f' k)) = (\<lambda>k. bridged b (f k))(i := bridged b (f i) @ bridged b envs)"
    if "records ds ctx envs" "f' = f(i := f i @ envs)" for envs
    using new_records [OF assms(1,2) that(1) assms(4), of i f'] that assms(5) [of i] by simp
  have evs: "evs = [] \<longleftrightarrow> ds = []" using assms(2) unfolding traverse_Ok_iff by auto
  have old: "length (bridged b (f i)) = length (f i)" "bridged b (f i) = [] \<longleftrightarrow> f i = []"
    using assms(4) bridged_maps(4) bridged_eq_Nil by blast+
  consider (ok) envs where "r = Some (Ok envs)" "records ds ctx envs" "f' = f(i := f i @ envs)" "ds \<noteq> [] \<longrightarrow> f i \<noteq> [] \<and> k = length (f i)"
    | (unchanged) e where "r = Some (Err e)" "f' = f"
    | (unknown) e envs where "r = Some (Err e)" "StoreError_category e = ReconciliationRequired" "f i \<noteq> []" "records ds ctx envs"
        "f' = f(i := f i @ envs)"
    using assms(3) by (auto simp: append_answer_def maybe_appended_def split: option.splits sum.splits if_splits)
  then show ?thesis
  proof cases
    case ok
    then show ?thesis using appended [OF ok(2,3)] evs old by (simp add: append_answer_def remap_landed_def traverse_bridged)
  next
    case unchanged
    then show ?thesis using assms(4) by (simp add: append_answer_def maybe_appended_def)
  next
    case unknown
    note new = appended [OF unknown(4,5)]
    then have "maybe_appended i evs ctx (\<lambda>i. bridged b (f i)) (\<lambda>i. bridged b (f' i))"
      unfolding maybe_appended_def using old(2) unknown(3) by blast
    then show ?thesis using new unknown(1,2) by (simp add: append_answer_def)
  qed
qed

end

section \<open>Sequences of calls\<close>

fun call_events :: "'e store_call \<Rightarrow> 'e list" where
  "call_events (CallCreate evs ctx) = evs"
| "call_events (CallAppend i k evs ctx) = evs"

fun bridged_call ::
  "(uuid \<Rightarrow> string) \<Rightarrow> ('e, 'd) bridge \<Rightarrow> ('s, 'f) session_ops \<Rightarrow> ('d, 'f) pgno_codec \<Rightarrow> (nat \<Rightarrow> uuid) \<Rightarrow> (nat \<Rightarrow> timestamp) \<Rightarrow> 'e store_call
    \<Rightarrow> 's pgno_world \<Rightarrow> 's pgno_world" where
  "bridged_call show_uuid b ops c v7 ts (CallCreate evs ctx) w = snd (bridged_create show_uuid b ops c v7 ts evs ctx w)"
| "bridged_call show_uuid b ops c v7 ts (CallAppend i k evs ctx) w = snd (bridged_append show_uuid b ops c v7 ts i k evs ctx w)"

text \<open>The stores a program can have, as for the wrapped store; the events given to a call satisfy \<open>wf\<close>.\<close>

inductive bridged_reachable ::
  "(uuid \<Rightarrow> string) \<Rightarrow> ('e, 'd) bridge \<Rightarrow> ('e \<Rightarrow> bool) \<Rightarrow> ('s, 'f) session_ops \<Rightarrow> ('s \<Rightarrow> 'f journal_entry list) \<Rightarrow> ('d, 'f) pgno_codec \<Rightarrow> (nat \<Rightarrow> uuid)
    \<Rightarrow> (nat \<Rightarrow> timestamp) \<Rightarrow> (string, 'desc) result \<Rightarrow> ('w, 's, 'desc) storage_adapter \<Rightarrow> 's pgno_world \<Rightarrow> bool"
  for show_uuid b wf ops journal c v7 ts expected_descriptor adapter where
  bridged_start: "journal s = [] \<Longrightarrow> from_session ops c expected_descriptor adapter draws reads s = Ok w
    \<Longrightarrow> bridged_reachable show_uuid b wf ops journal c v7 ts expected_descriptor adapter w"
| bridged_step: "bridged_reachable show_uuid b wf ops journal c v7 ts expected_descriptor adapter w \<Longrightarrow> pg_next_id w < u64_max
    \<Longrightarrow> length (journal (pg_session w)) < u64_max \<Longrightarrow> list_all wf (call_events call)
    \<Longrightarrow> bridged_reachable show_uuid b wf ops journal c v7 ts expected_descriptor adapter (bridged_call show_uuid b ops c v7 ts call w)"
| bridged_reopen: "bridged_reachable show_uuid b wf ops journal c v7 ts expected_descriptor adapter w \<Longrightarrow> journal s = journal (pg_session w)
    \<Longrightarrow> from_session ops c expected_descriptor adapter (pg_draws w) (pg_reads w) s = Ok w'
    \<Longrightarrow> bridged_reachable show_uuid b wf ops journal c v7 ts expected_descriptor adapter w'"

definition bridged_inv :: "('e, 'd) bridge \<Rightarrow> (nat \<Rightarrow> uuid) \<Rightarrow> ('s \<Rightarrow> 'f journal_entry list) \<Rightarrow> ('d, 'f) pgno_codec \<Rightarrow> 's pgno_world \<Rightarrow> bool" where
  "bridged_inv b v7 journal c w \<longleftrightarrow> pgno_inv v7 c (pg_draws w) (pg_next_id w) (journal (pg_session w))
    \<and> (\<forall>i. convertible b (pg_stream c (journal (pg_session w)) i))"

context event_bridge
begin

lemma bridged_create_effect:
  assumes "fiber_session ops journal" "fresh_uuids v7" "pgno_codec_contract c" "bridged_inv b v7 journal c w" "pg_next_id w < u64_max"
    and "list_all wf evs" "bridged_create show_uuid b ops c v7 ts evs ctx w = (r, w')"
  shows "bridged_inv b v7 journal c w'
    \<and> create_answer evs ctx (\<lambda>i. bridged b (pg_stream c (journal (pg_session w)) i)) (\<lambda>i. bridged b (pg_stream c (journal (pg_session w')) i)) r"
proof (cases "traverse (bridge_to b) evs")
  case (Inl e)
  then have "StoreError_category e \<noteq> ReconciliationRequired"
    using definite by (induction evs) (auto simp: and_then_Err_iff)
  then show ?thesis using Inl assms(4,7) by (auto simp: bridged_create_def create_answer_def)
next
  case (Inr ds)
  obtain r0 w0 where call: "pgno_create show_uuid ops c v7 ts ds ctx w = (r0, w0)" by fastforce
  have inv: "pgno_inv v7 c (pg_draws w) (pg_next_id w) (journal (pg_session w))" using assms(4) by (simp add: bridged_inv_def)
  note eff = fiber_session.create_effect [OF assms(1) inv assms(2,3,5) call]
  have res: "w' = w0" "r = map_option (\<lambda>r. and_then r (\<lambda>(i, envs). and_then (remap_landed show_uuid b envs) (\<lambda>remapped. Ok (i, remapped)))) r0"
    using assms(7) Inr call by (auto simp: bridged_create_def split: option.splits)
  have "\<forall>i. valid_stream i (pg_stream c (journal (pg_session w)) i) \<and> convertible b (pg_stream c (journal (pg_session w)) i)"
    using pg_stream_good(2) [OF inv] assms(4) by (simp add: bridged_inv_def)
  moreover have "valid_stream i (pg_stream c (journal (pg_session w0)) i)" for i
    using eff pg_stream_good(2) by blast
  ultimately have "(\<forall>i. convertible b (pg_stream c (journal (pg_session w0)) i))
      \<and> create_answer evs ctx (\<lambda>i. bridged b (pg_stream c (journal (pg_session w)) i)) (\<lambda>i. bridged b (pg_stream c (journal (pg_session w0)) i)) r"
    using lift_create [OF assms(6) Inr conjunct2 [OF conjunct2 [OF conjunct2 [OF eff]]]] unfolding res(2) by blast
  then show ?thesis using eff unfolding res(1) bridged_inv_def by blast
qed

lemma bridged_append_effect:
  assumes "fiber_session ops journal" "fresh_uuids v7" "pgno_codec_contract c" "bridged_inv b v7 journal c w"
    and "length (journal (pg_session w)) < u64_max" "list_all wf evs" "bridged_append show_uuid b ops c v7 ts i k evs ctx w = (r, w')"
  shows "bridged_inv b v7 journal c w'
    \<and> append_answer i k evs ctx (\<lambda>i. bridged b (pg_stream c (journal (pg_session w)) i)) (\<lambda>i. bridged b (pg_stream c (journal (pg_session w')) i)) r"
proof (cases "traverse (bridge_to b) evs")
  case (Inl e)
  then have "StoreError_category e \<noteq> ReconciliationRequired"
    using definite by (induction evs) (auto simp: and_then_Err_iff)
  then show ?thesis using Inl assms(4,7) by (auto simp: bridged_append_def append_answer_def)
next
  case (Inr ds)
  obtain r0 w0 where call: "pgno_append show_uuid ops c v7 ts i k ds ctx w = (r0, w0)" by fastforce
  have inv: "pgno_inv v7 c (pg_draws w) (pg_next_id w) (journal (pg_session w))" using assms(4) by (simp add: bridged_inv_def)
  note eff = fiber_session.append_effect [OF assms(1) inv assms(2,3,5) call]
  have res: "w' = w0" "r = map_option (\<lambda>r. and_then r (remap_landed show_uuid b)) r0"
    using assms(7) Inr call by (auto simp: bridged_append_def split: option.splits)
  have "\<forall>i. valid_stream i (pg_stream c (journal (pg_session w)) i) \<and> convertible b (pg_stream c (journal (pg_session w)) i)"
    using pg_stream_good(2) [OF inv] assms(4) by (simp add: bridged_inv_def)
  moreover have "valid_stream i (pg_stream c (journal (pg_session w0)) i)" for i
    using eff pg_stream_good(2) by blast
  ultimately have "(\<forall>i. convertible b (pg_stream c (journal (pg_session w0)) i))
      \<and> append_answer i k evs ctx (\<lambda>i. bridged b (pg_stream c (journal (pg_session w)) i)) (\<lambda>i. bridged b (pg_stream c (journal (pg_session w0)) i)) r"
    using lift_append [OF assms(6) Inr conjunct2 [OF conjunct2 [OF conjunct2 [OF eff]]]] unfolding res(2) by blast
  then show ?thesis using eff unfolding res(1) bridged_inv_def by blast
qed

lemma bridged_reachable_inv:
  assumes "bridged_reachable show_uuid b wf ops journal c v7 ts expected_descriptor adapter w"
    and "fiber_session ops journal" "fresh_uuids v7" "pgno_codec_contract c"
  shows "bridged_inv b v7 journal c w"
  using assms(1)
proof (induction rule: bridged_reachable.induct)
  case (bridged_start s draws reads w)
  then show ?case
    using fiber_session.from_session_inv [OF assms(2), of v7 c draws 0 s expected_descriptor adapter reads w]
    by (simp add: pgno_inv_Nil bridged_inv_def pg_stream_def convertible_def)
next
  case (bridged_step w call)
  show ?case
  proof (cases call)
    case (CallCreate evs ctx)
    then show ?thesis
      using bridged_create_effect [OF assms(2-4) bridged_step.IH bridged_step.hyps(2), of evs] bridged_step.hyps(4)
      by (metis bridged_call.simps(1) call_events.simps(1) prod.collapse)
  next
    case (CallAppend i k evs ctx)
    then show ?thesis
      using bridged_append_effect [OF assms(2-4) bridged_step.IH bridged_step.hyps(3), of evs] bridged_step.hyps(4)
      by (metis bridged_call.simps(2) call_events.simps(2) prod.collapse)
  qed
next
  case (bridged_reopen w s w')
  then show ?case
    using fiber_session.from_session_inv [OF assms(2), of v7 c "pg_draws w" "pg_next_id w" s expected_descriptor adapter "pg_reads w" w']
    by (simp add: bridged_inv_def)
qed

lemma bridged_load_eq:
  assumes "fiber_session ops journal" "bridged_inv b v7 journal c w"
  shows "bridged_load b ops c i w = and_then (ordered_stream ops c i w) (\<lambda>_. Ok (bridged b (pg_stream c (journal (pg_session w)) i)))"
proof (cases "ordered_stream ops c i w")
  case (Inr es)
  then have "es = pg_stream c (journal (pg_session w)) i"
    using fiber_session.ordered_stream_Ok [OF assms(1)] assms(2) by (auto simp: bridged_inv_def)
  then show ?thesis using Inr assms(2) by (simp add: bridged_load_def bridged_inv_def traverse_bridged)
qed (simp add: bridged_load_def)

end

section \<open>The contract on the two conversions\<close>

text \<open>
  Facts the scheduler builds: a target that is a valid identifier, a context made by one of the three
  constructors, an instant that its number of nanoseconds stands for.
\<close>

definition context_built :: "correlation_context \<Rightarrow> bool" where
  "context_built ctx \<longleftrightarrow> (correlation_id ctx = None \<longrightarrow> causation_id ctx = None)"

fun scheduler_event_built :: "(timestamp \<Rightarrow> int) \<Rightarrow> (int \<Rightarrow> (string, timestamp) result) \<Rightarrow> scheduler_event \<Rightarrow> bool" where
  "scheduler_event_built as_nanos from_nanos (Armed a) \<longleftrightarrow> aggregate_id_wf (armed_target_aggregate a) \<and> context_built (armed_correlation a)
    \<and> from_nanos (as_nanos (armed_fire_at a)) = Ok (armed_fire_at a)"
| "scheduler_event_built as_nanos from_nanos (Fired x) \<longleftrightarrow> aggregate_id_wf (fired_target_aggregate x) \<and> context_built (fired_correlation x)"
| "scheduler_event_built as_nanos from_nanos (Cancelled x) \<longleftrightarrow> True"

fun scheduler_event_fits :: "scheduler_event \<Rightarrow> bool" where
  "scheduler_event_fits (Armed a) \<longleftrightarrow> length (armed_caller_event_type a) \<le> 512 \<and> length (armed_payload a) \<le> 65536"
| "scheduler_event_fits (Fired x) \<longleftrightarrow> length (fired_caller_event_type x) \<le> 512 \<and> length (fired_payload x) \<le> 65536"
| "scheduler_event_fits (Cancelled x) \<longleftrightarrow> True"

lemma context_built_constructors:
  "context_built CorrelationContext_none" "context_built (CorrelationContext_new c k)" "context_built (CorrelationContext_correlated c)"
  by (simp_all add: context_built_def CorrelationContext_none_def CorrelationContext_new_def CorrelationContext_correlated_def)

lemma correlation_from_built: "context_built ctx \<Longrightarrow> correlation_from (correlation_id ctx) (causation_id ctx) = ctx"
  by (cases ctx; cases "correlation_id ctx"; cases "causation_id ctx")
    (auto simp: context_built_def CorrelationContext_none_def CorrelationContext_new_def CorrelationContext_correlated_def)

lemma target_aggregate_from_get: "aggregate_id_wf i \<Longrightarrow> target_aggregate_from (get i) = Ok i"
  by (cases i) (auto simp: target_aggregate_from_def aggregate_id_wf_def non_zero_u64_def AggregateId_new_def)

lemma scheduler_dto_back:
  assumes "scheduler_event_built as_nanos from_nanos e" "scheduler_to_dto as_nanos e = Ok d"
  shows "scheduler_from_dto from_nanos d = Ok e"
  using assms
  by (cases e)
    (auto simp: and_then_Ok_iff caller_event_type_dto_def payload_dto_def target_aggregate_from_get correlation_from_built from_armed_def
      split: if_splits)

text \<open>
  A context with a cause and no correlation, which no constructor makes but deserialisation accepts, loses its cause.
\<close>

lemma scheduler_dto_drops_causation:
  assumes "scheduler_to_dto as_nanos (Fired x) = Ok d" "scheduler_from_dto from_nanos d = Ok (Fired y)"
    and "correlation_id (fired_correlation x) = None"
  shows "causation_id (fired_correlation y) = None"
  using assms by (auto simp: and_then_Ok_iff from_armed_def CorrelationContext_none_def)

interpretation sched_bridge: event_bridge "scheduler_bridge as_nanos from_nanos" "scheduler_event_built as_nanos from_nanos"
  for as_nanos from_nanos
  by unfold_locales (auto simp: scheduler_bridge_def scheduler_dto_back map_err_Err_iff)

definition serde_round_trip :: "('e \<Rightarrow> (string, string) result) \<Rightarrow> (string \<Rightarrow> (string, 'e) result) \<Rightarrow> 'e \<Rightarrow> bool" where
  "serde_round_trip serialize deserialize e \<longleftrightarrow> (case serialize e of Ok json \<Rightarrow> deserialize json = Ok e | Err _ \<Rightarrow> True)"

interpretation serde_bridge: event_bridge "serde_bridge serialize deserialize" "serde_round_trip serialize deserialize"
  for serialize deserialize
  by unfold_locales
    (auto simp: serde_bridge_def serde_to_dto_def serde_from_dto_def serde_round_trip_def serde_conversion_error_def and_then_Ok_iff map_err_Err_iff
      split: if_splits)

text \<open>
  What the stored form keeps of a fact: every field, except that a context without a correlation
  keeps no cause either.
\<close>

definition kept_context :: "correlation_context \<Rightarrow> correlation_context" where
  "kept_context ctx = (if correlation_id ctx = None then CorrelationContext_none else ctx)"

fun kept_fact :: "scheduler_event \<Rightarrow> scheduler_event" where
  "kept_fact (Armed a) = Armed (a\<lparr>armed_correlation := kept_context (armed_correlation a)\<rparr>)"
| "kept_fact (Fired x) = Fired (x\<lparr>fired_correlation := kept_context (fired_correlation x)\<rparr>)"
| "kept_fact (Cancelled x) = Cancelled x"

fun fact_context :: "scheduler_event \<Rightarrow> correlation_context option" where
  "fact_context (Armed a) = Some (armed_correlation a)"
| "fact_context (Fired x) = Some (fired_correlation x)"
| "fact_context (Cancelled x) = None"

fun fact_target :: "scheduler_event \<Rightarrow> aggregate_id option" where
  "fact_target (Armed a) = Some (armed_target_aggregate a)"
| "fact_target (Fired x) = Some (fired_target_aggregate x)"
| "fact_target (Cancelled x) = None"

lemma correlation_from_kept: "correlation_from (correlation_id ctx) (causation_id ctx) = kept_context ctx"
  by (cases ctx; cases "correlation_id ctx"; cases "causation_id ctx")
    (auto simp: kept_context_def CorrelationContext_none_def CorrelationContext_new_def CorrelationContext_correlated_def)

lemma kept_context_same: "kept_context ctx = ctx \<longleftrightarrow> context_built ctx"
  by (cases ctx) (auto simp: kept_context_def context_built_def CorrelationContext_none_def)

lemma kept_fact_same: "kept_fact e = e \<longleftrightarrow> pred_option context_built (fact_context e)"
proof (cases e)
  case (Armed a)
  have "a\<lparr>armed_correlation := k\<rparr> = a \<longleftrightarrow> k = armed_correlation a" for k by (cases a) auto
  then show ?thesis using Armed kept_context_same by simp
next
  case (Fired x)
  have "x\<lparr>fired_correlation := k\<rparr> = x \<longleftrightarrow> k = fired_correlation x" for k by (cases x) auto
  then show ?thesis using Fired kept_context_same by simp
qed simp

lemma scheduler_dto_kept:
  assumes "\<And>t. from_nanos (as_nanos t) = Ok t" "pred_option aggregate_id_wf (fact_target e)" "scheduler_to_dto as_nanos e = Ok d"
  shows "scheduler_from_dto from_nanos d = Ok (kept_fact e)"
  using assms
  by (cases e)
    (auto simp: and_then_Ok_iff caller_event_type_dto_def payload_dto_def target_aggregate_from_get correlation_from_kept from_armed_def
      split: if_splits)

text \<open>
  C25. Round trip of scheduler facts. A fact is converted to its stored form exactly when its event type
  and its payload are within the limits, and is refused otherwise. The stored form has the type name
  of the fact and is read back as the fact with every field as it was, except that a context with a cause and
  no correlation loses its cause. So a fact is read back unchanged exactly when its context has no
  cause without a correlation, as every context made by the constructors.
\<close>

theorem scheduler_dto_roundtrip:
  assumes "\<forall>t. from_nanos (as_nanos t) = Ok t" "pred_option aggregate_id_wf (fact_target e)"
  shows "(case scheduler_to_dto as_nanos e of
      Inl err \<Rightarrow> \<not> scheduler_event_fits e
    | Inr d \<Rightarrow> scheduler_event_fits e \<and> scheduler_from_dto from_nanos d = Ok (kept_fact e)
        \<and> SchedulerEventDto_event_type d = SchedulerEvent_event_type e)
    \<and> (kept_fact e = e \<longleftrightarrow> pred_option context_built (fact_context e))"
proof -
  have "is_ok (scheduler_to_dto as_nanos e) \<longleftrightarrow> scheduler_event_fits e"
    by (cases e) (auto simp: caller_event_type_dto_def payload_dto_def CALLER_EVENT_TYPE_MAX_def PAYLOAD_MAX_def)
  moreover have "SchedulerEventDto_event_type d = SchedulerEvent_event_type e" if "scheduler_to_dto as_nanos e = Ok d" for d
    using that by (cases e) (auto simp: and_then_Ok_iff)
  moreover have "scheduler_from_dto from_nanos d = Ok (kept_fact e)" if "scheduler_to_dto as_nanos e = Ok d" for d
    using assms(1) by (intro scheduler_dto_kept [OF _ assms(2) that]) simp
  ultimately show ?thesis using kept_fact_same [of e] by (cases "scheduler_to_dto as_nanos e") simp_all
qed

definition sample_fact :: scheduler_event where
  "sample_fact = Armed \<lparr>armed_schedule_id = ScheduleId 3, armed_fire_at = 5, armed_target_aggregate = AggregateId 1,
    armed_caller_event_id = 42, armed_caller_event_type = ''due'', armed_payload = [1, 2], armed_correlation = CorrelationContext_correlated 7\<rparr>"

theorem scheduler_dto_roundtrip_witness:
  "\<exists>d. scheduler_to_dto (\<lambda>t. t) sample_fact = Ok d \<and> scheduler_from_dto (\<lambda>n. Ok n) d = Ok sample_fact"
proof -
  have fact: "scheduler_event_fits sample_fact" "pred_option aggregate_id_wf (fact_target sample_fact)"
      "pred_option context_built (fact_context sample_fact)"
    by (simp_all add: sample_fact_def context_built_constructors aggregate_id_wf_def u64_max_def)
  have "\<forall>t. (\<lambda>n. Ok n) ((\<lambda>t. t) t) = Ok t" by simp
  from scheduler_dto_roundtrip [OF this fact(2)] fact(1,3) show ?thesis
    by (cases "scheduler_to_dto (\<lambda>t. t) sample_fact") simp_all
qed

text \<open>
  C24. The scheduler's store on the journal. After any calls and reopenings, whatever the writes do, the histories of
  scheduler facts are valid streams, a load answers with the history whenever the wrapped store can be read, and each call keeps the
  contract of the event store port: facts are recorded as they were given exactly when the call succeeds, a definite error
  (a fact over the limits among them) changes no history, and an indeterminate one means recorded as a whole or not at all.
\<close>

theorem scheduler_store_contract:
  fixes w :: "'s pgno_world"
  assumes "fiber_session ops journal" "fresh_uuids v7" "pgno_codec_contract c"
    and "bridged_reachable show_uuid (scheduler_bridge as_nanos from_nanos) (scheduler_event_built as_nanos from_nanos) ops journal c v7 ts
      expected_descriptor adapter w"
    and "pg_next_id w < u64_max" "length (journal (pg_session w)) < u64_max" "list_all (scheduler_event_built as_nanos from_nanos) evs"
  defines "past \<equiv> \<lambda>w :: 's pgno_world. \<lambda>i. bridged (scheduler_bridge as_nanos from_nanos) (pg_stream c (journal (pg_session w)) i)"
  shows "valid_stream i (past w i)
    \<and> PgnoSchedulerStore_load as_nanos from_nanos ops c i w = and_then (ordered_stream ops c i w) (\<lambda>_. Ok (past w i))
    \<and> (\<forall>r w'. PgnoSchedulerStore_create as_nanos from_nanos show_uuid ops c v7 ts evs ctx w = (r, w') \<longrightarrow> create_answer evs ctx (past w) (past w') r)
    \<and> (\<forall>r w'. PgnoSchedulerStore_append as_nanos from_nanos show_uuid ops c v7 ts i k evs ctx w = (r, w')
        \<longrightarrow> append_answer i k evs ctx (past w) (past w') r)"
proof -
  note inv = sched_bridge.bridged_reachable_inv [OF assms(4,1-3)]
  have "valid_stream i (past w i)"
    unfolding past_def by (rule bridged_valid) (use inv pg_stream_good(2) in \<open>auto simp: bridged_inv_def\<close>)
  then show ?thesis
    using sched_bridge.bridged_load_eq [OF assms(1) inv] sched_bridge.bridged_create_effect [OF assms(1-3) inv assms(5,7)]
      sched_bridge.bridged_append_effect [OF assms(1-3) inv assms(6,7)]
    unfolding past_def scheduler_store_defs by blast
qed

definition sample_cancel :: scheduler_event where
  "sample_cancel = Cancelled \<lparr>cancelled_schedule_id = ScheduleId 3\<rparr>"

abbreviation "sample_cancel_codec \<equiv> unary_codec (CancelledDto \<lparr>cd_schedule_id = 3\<rparr>)"

theorem scheduler_store_contract_witness:
  "let w = bridged_call show_nat (scheduler_bridge (\<lambda>t. t) (\<lambda>n. Ok n)) planned_ops sample_cancel_codec Suc (\<lambda>_. 0)
      (CallCreate [sample_cancel] CorrelationContext_none) sample_pgno in
    pl_journal (pg_session w) \<noteq> []
    \<and> valid_stream (AggregateId 1) (bridged (scheduler_bridge (\<lambda>t. t) (\<lambda>n. Ok n)) (pg_stream sample_cancel_codec (pl_journal (pg_session w)) (AggregateId 1)))"
proof -
  let ?b = "scheduler_bridge (\<lambda>t. t) (\<lambda>n. Ok n)" and ?wf = "scheduler_event_built (\<lambda>t. t) (\<lambda>n. Ok n)"
  let ?w = "bridged_call show_nat ?b planned_ops sample_cancel_codec Suc (\<lambda>_. 0) (CallCreate [sample_cancel] CorrelationContext_none) sample_pgno"
  have "bridged_reachable show_nat ?b ?wf planned_ops pl_journal sample_cancel_codec Suc (\<lambda>_. 0) (Ok ()) sample_adapter sample_pgno"
    by (rule bridged_start [of _ "planned_start [Works, Works]" _ _ _ _ 0 0])
      (simp_all add: planned_start_def from_session_def validate_json_descriptor_def sample_adapter_def planned_ops_def max_aggregate_def sample_pgno_def)
  then have reach: "bridged_reachable show_nat ?b ?wf planned_ops pl_journal sample_cancel_codec Suc (\<lambda>_. 0) (Ok ()) sample_adapter ?w"
    by (rule bridged_step) (simp_all add: sample_pgno_def planned_start_def u64_max_def sample_cancel_def)
  have "pg_next_id ?w = 1 \<and> length (pl_journal (pg_session ?w)) = 1"
    by (simp add: bridged_create_def scheduler_bridge_def sample_cancel_def pgno_create_def sample_pgno_def planned_start_def pgno_ready_def planned_ops_def
        u64_max_def Let_def record_single_def encode_record_def unary_codec_def unary_record_def CorrelationContext_none_def i64_try_from_or_max_def
        i64_max_def write_record_def verdict_of_def landed_def planned_write_def next_fault_def split: sum.splits option.splits)
  then have room: "pg_next_id ?w < u64_max" "length (pl_journal (pg_session ?w)) < u64_max" "pl_journal (pg_session ?w) \<noteq> []"
    by (auto simp: u64_max_def)
  show ?thesis
    using scheduler_store_contract [OF planned.fiber_session_axioms fresh_uuids_Suc unary_codec_contract reach room(1,2), of "[]" "AggregateId 1"]
      room(3) by (auto simp: Let_def)
qed

text \<open>The same contract for serialised events that are read back from their serialised form.\<close>

theorem serde_store_contract:
  fixes w :: "'s pgno_world"
  assumes "fiber_session ops journal" "fresh_uuids v7" "pgno_codec_contract c"
    and "list_all (serde_round_trip serialize deserialize) evs"
    and "bridged_reachable show_uuid (serde_bridge serialize deserialize) (serde_round_trip serialize deserialize) ops journal c v7 ts
      expected_descriptor adapter w"
    and "pg_next_id w < u64_max" "length (journal (pg_session w)) < u64_max"
  defines "past \<equiv> \<lambda>w :: 's pgno_world. \<lambda>i. bridged (serde_bridge serialize deserialize) (pg_stream c (journal (pg_session w)) i)"
  shows "valid_stream i (past w i)
    \<and> PgnoSerdeStore_load serialize deserialize ops c i w = and_then (ordered_stream ops c i w) (\<lambda>_. Ok (past w i))
    \<and> (\<forall>r w'. PgnoSerdeStore_create serialize deserialize show_uuid ops c v7 ts evs ctx w = (r, w') \<longrightarrow> create_answer evs ctx (past w) (past w') r)
    \<and> (\<forall>r w'. PgnoSerdeStore_append serialize deserialize show_uuid ops c v7 ts i k evs ctx w = (r, w')
        \<longrightarrow> append_answer i k evs ctx (past w) (past w') r)"
proof -
  note inv = serde_bridge.bridged_reachable_inv [OF assms(5,1-3)]
  have "valid_stream i (past w i)"
    unfolding past_def by (rule bridged_valid) (use inv pg_stream_good(2) in \<open>auto simp: bridged_inv_def\<close>)
  then show ?thesis
    using serde_bridge.bridged_load_eq [OF assms(1) inv] serde_bridge.bridged_create_effect [OF assms(1-3) inv assms(6,4)]
      serde_bridge.bridged_append_effect [OF assms(1-3) inv assms(7,4)]
    unfolding past_def serde_store_defs by blast
qed

text \<open>
  Stored bytes that cannot be read back are answered as a transient failure, where malformed persisted
  data is documented to be corrupt data, a terminal failure.
\<close>

lemma serde_corrupt_bytes_retryable:
  assumes "ordered_stream ops c i w = Ok (env # envs)" "deserialize (dto_bytes (env_payload env)) = Err x"
  shows "\<exists>e. PgnoSerdeStore_load serialize deserialize ops c i w = Err e \<and> StoreError_category e = Retryable"
  using assms
  by (simp add: PgnoSerdeStore_load_def bridged_load_def remap_envelope_def serde_bridge_def serde_from_dto_def serde_conversion_error_def)

end
