(* ===== verification/Projection_Source.thy ===== *)
theory Projection_Source
  imports Projection_Driver Web_Pages
begin

text \<open>
  The adapter from an in-memory projection to the page port of the web crate
  (\<open>cherry-pit-app/src/projection_source.rs\<close>), and the read path from the event store through replay and rendering to the
  answer of a page request. The renderer is a parameter, as it is in the code. Nothing sends on the update channel, so a
  subscriber gets no update; the channel is not part of the state.
\<close>

record 'p in_memory_projection_source =
  src_projection :: "'p in_memory_projection"
  src_render :: "'p \<Rightarrow> (string \<times> page_entry) list"

definition InMemoryProjectionSource_new ::
  "'p in_memory_projection \<Rightarrow> ('p \<Rightarrow> (string \<times> page_entry) list) \<Rightarrow> 'p in_memory_projection_source" where
  "InMemoryProjectionSource_new p render = \<lparr>src_projection = p, src_render = render\<rparr>"

definition rendered_snapshot :: "'p in_memory_projection_source \<Rightarrow> (string \<times> page_entry) list" where
  "rendered_snapshot src = src_render src (projection (src_projection src))"

text \<open>The port: a snapshot is always there and the source is always ready.\<close>

definition as_page_source :: "'p in_memory_projection_source \<Rightarrow> page_source" where
  "as_page_source src = \<lparr>ps_snapshot = Some (rendered_snapshot src), ps_is_ready = True\<rparr>"

text \<open>A source built from the replay of an aggregate.\<close>

definition replayed_source ::
  "('s, 'e) event_store_ops \<Rightarrow> 'p \<Rightarrow> ('e event_envelope \<Rightarrow> 'p \<Rightarrow> 'p) \<Rightarrow> ('p \<Rightarrow> (string \<times> page_entry) list) \<Rightarrow> aggregate_id \<Rightarrow> 's
    \<Rightarrow> (projection_error, 'p in_memory_projection_source) result" where
  "replayed_source ops dflt apply_env render i s = and_then (replay ops dflt apply_env i s) (\<lambda>p.
    Ok (InMemoryProjectionSource_new (InMemoryProjection_replace p (InMemoryProjection_new dflt)) render))"

lemma replayed_source_mem:
  assumes "mem_inv v7 w"
  shows "\<exists>src. replayed_source (mem_ops v7 ts) dflt apply_env render i w = Ok src
    \<and> as_page_source src = \<lparr>ps_snapshot = Some (render (fold apply_env (mem_stream w i) dflt)), ps_is_ready = True\<rparr>"
  using assms
  by (simp add: replayed_source_def mem_replay InMemoryProjectionSource_new_def as_page_source_def rendered_snapshot_def
      InMemoryProjection_replace_def)

text \<open>
  A source shows the history it was built from: a page request is answered with the page rendered from the events recorded
  then, or is refused for its path. The source lends its projection for reading only, so events recorded later show in
  a source that is built again and not in this one.
\<close>

theorem source_shows_history_at_build:
  fixes percent_decode :: "string \<Rightarrow> string option"
  assumes "mem_inv v7 w" "req_method request \<in> {''GET'', ''HEAD''}" "req_path request = ''/v1'' @ path"
    and "mem_append v7 ts i n evs ctx w = (Ok envs, w')"
    and "replayed_source (mem_ops v7 ts) dflt apply_env render i w = Ok before" "replayed_source (mem_ops v7 ts) dflt apply_env render i w' = Ok after"
  defines "reply \<equiv> \<lambda>es. (case normalize_request_path percent_decode path of
      None \<Rightarrow> (404, [], ''not found'')
    | Some np \<Rightarrow> (case first_hit (render (fold apply_env es dflt)) (candidate_keys (np_key np)) of
        None \<Rightarrow> (404, [], ''not found'')
      | Some page \<Rightarrow> serve_page page (req_headers request) 200))"
  shows "snapshot_get percent_decode (as_page_source before) request = reply (mem_stream w i)
    \<and> snapshot_get percent_decode (as_page_source after) request = reply (mem_stream w i @ envs)
    \<and> fst (readyz (as_page_source before)) = 200"
proof -
  have call: "es_append (mem_ops v7 ts) i n evs ctx w = (Ok envs, w')" using assms(4) by (simp add: mem_ops_def)
  have inv: "mem_inv v7 w'" by (rule mem.append_inv [OF assms(1) call])
  have hist: "mem_stream w' i = mem_stream w i @ envs"
    using mem.append_ok [OF assms(1) _ call] mem.append_empty [OF assms(1), of ts i n ctx "Ok envs" w'] call by (cases "evs = []") auto
  have "snapshot_get percent_decode \<lparr>ps_snapshot = Some (render (fold apply_env es dflt)), ps_is_ready = True\<rparr> request = reply es" for es
    unfolding reply_def
    by (rule conjunct1 [OF snapshot_get_outcomes [OF assms(2) _ assms(3)]]) simp
  moreover have "as_page_source before = \<lparr>ps_snapshot = Some (render (fold apply_env (mem_stream w i) dflt)), ps_is_ready = True\<rparr>"
    "as_page_source after = \<lparr>ps_snapshot = Some (render (fold apply_env (mem_stream w' i) dflt)), ps_is_ready = True\<rparr>"
    using replayed_source_mem [OF assms(1), of ts dflt apply_env render i] replayed_source_mem [OF inv, of ts dflt apply_env render i] assms(5,6)
    by auto
  ultimately show ?thesis by (simp add: hist readyz_def del: fold_append)
qed

end
