(* ===== verification/Non_Exhaustive_Check.thy ===== *)
theory Non_Exhaustive_Check
  imports Prelude "HOL-Library.Sublist" "HOL-Library.Char_ord" "HOL-Library.List_Lexorder" "HOL-Library.Product_Lexorder"
begin

text \<open>
  The check that public error enums are closed (\<open>non-exhaustive-check/src/main.rs\<close>): it walks the
  sources of the library crates, collects the enums outside modules that are compiled out, and reports the public ones that
  derive \<open>Error\<close> and are marked non-exhaustive. Whether something is compiled out is decided in
  three-valued logic, with \<open>test\<close> false and every other option unknown.

  The syntax tree and the token trees of attributes are the data of the model; the parser of the \<open>syn\<close> crate from text to
  them is a parameter, as is the parser of the paths in a derive list. Identifiers are given without a raw prefix.
  None is an error of the parser. A panic of the tool is the outcome \<open>CheckPanic\<close>.
\<close>

section \<open>Configuration predicates\<close>

datatype cfg_truth = CfgFalse | CfgTrue | CfgUnknown

datatype token = LitBool bool | Ident string | LitStr string | EqSign | Comma | Paren "token list" | OtherToken

datatype cfg_head = HeadBool bool | HeadOption string string | HeadGroup string "token list" | HeadName string

text \<open>The tokens one predicate starts with, and what is left of the input.\<close>

fun take_head :: "token list \<Rightarrow> (cfg_head \<times> token list) option" where
  "take_head (LitBool b # ts) = Some (HeadBool b, ts)"
| "take_head (Ident n # EqSign # LitStr v # ts) = Some (HeadOption n v, ts)"
| "take_head (Ident n # EqSign # ts) = None"
| "take_head (Ident n # Paren c # ts) = Some (HeadGroup n c, ts)"
| "take_head (Ident n # ts) = Some (HeadName n, ts)"
| "take_head ts = None"

fun cfg_not :: "cfg_truth \<Rightarrow> cfg_truth" where
  "cfg_not CfgFalse = CfgTrue"
| "cfg_not CfgTrue = CfgFalse"
| "cfg_not CfgUnknown = CfgUnknown"

definition cfg_connective :: "string \<Rightarrow> cfg_truth list \<Rightarrow> cfg_truth option" where
  "cfg_connective n values =
    (if n = ''all'' \<or> n = ''any'' then
       let decisive = (if n = ''all'' then CfgFalse else CfgTrue) in
       Some (if decisive \<in> set values then decisive
         else if CfgUnknown \<in> set values then CfgUnknown
         else if n = ''all'' then CfgTrue
         else CfgFalse)
     else if n = ''not'' then (case values of [v] \<Rightarrow> Some (cfg_not v) | _ \<Rightarrow> None)
     else None)"

fun head_size :: "cfg_head \<Rightarrow> nat" where
  "head_size (HeadGroup n c) = Suc (2 * size_list size c)"
| "head_size h = 0"

lemma take_head_smaller:
  "take_head ts = Some (h, rest) \<Longrightarrow> head_size h < 2 * size_list size ts \<and> size_list size rest < size_list size ts"
  by (induction ts rule: take_head.induct) auto

text \<open>One predicate, and the predicates of a parenthesis: separated by commas, with an optional one at the end.\<close>

function (sequential) cfg_value :: "cfg_head \<Rightarrow> cfg_truth option" and cfg_values :: "token list \<Rightarrow> cfg_truth list option" where
  "cfg_value (HeadBool b) = Some (if b then CfgTrue else CfgFalse)"
| "cfg_value (HeadOption n v) = Some CfgUnknown"
| "cfg_value (HeadGroup n c) = (case cfg_values c of None \<Rightarrow> None | Some values \<Rightarrow> cfg_connective n values)"
| "cfg_value (HeadName n) = Some (if n = ''test'' then CfgFalse else CfgUnknown)"
| "cfg_values ts = (if ts = [] then Some [] else
    case take_head ts of
      None \<Rightarrow> None
    | Some (h, rest) \<Rightarrow> (case cfg_value h of
        None \<Rightarrow> None
      | Some v \<Rightarrow> (case rest of
          [] \<Rightarrow> Some [v]
        | Comma # more_tokens \<Rightarrow> (case cfg_values more_tokens of None \<Rightarrow> None | Some vs \<Rightarrow> Some (v # vs))
        | _ \<Rightarrow> None)))"
  by pat_completeness auto

termination
  by (relation "measure (case_sum head_size (\<lambda>ts. 2 * size_list size ts))") (auto dest: take_head_smaller)

declare cfg_values.simps [simp del]

section \<open>Attributes and items\<close>

record attribute =
  attr_ident :: "string option"
  attr_args :: "token list option"

record item_enum =
  enum_public :: bool
  enum_attrs :: "attribute list"
  enum_ident :: string
  enum_line :: nat

datatype item = ItemEnum item_enum | ItemMod "attribute list" "item list option" | ItemOther

definition attr_path_is :: "attribute \<Rightarrow> string \<Rightarrow> bool" where
  "attr_path_is attr name \<longleftrightarrow> attr_ident attr = Some name"

text \<open>The arguments of a \<open>cfg\<close>: one predicate, an optional comma, nothing else.\<close>

definition parse_cfg_args :: "token list \<Rightarrow> cfg_truth option" where
  "parse_cfg_args ts = (case take_head ts of
      None \<Rightarrow> None
    | Some (h, rest) \<Rightarrow> (case cfg_value h of
        None \<Rightarrow> None
      | Some v \<Rightarrow> if rest = [] \<or> rest = [Comma] then Some v else None))"

definition is_cfg_disabled_without_test :: "attribute \<Rightarrow> bool" where
  "is_cfg_disabled_without_test attr \<longleftrightarrow> attr_path_is attr ''cfg'' \<and>
    (case attr_args attr of None \<Rightarrow> False | Some ts \<Rightarrow> parse_cfg_args ts = Some CfgFalse)"

definition derive_idents :: "(token list \<Rightarrow> string list list option) \<Rightarrow> attribute \<Rightarrow> string list" where
  "derive_idents parse_paths attr =
    (if \<not> attr_path_is attr ''derive'' then []
     else case Option.bind (attr_args attr) parse_paths of
       None \<Rightarrow> []
     | Some paths \<Rightarrow> map last (filter (\<lambda>segments. segments \<noteq> []) paths))"

definition is_violation :: "(token list \<Rightarrow> string list list option) \<Rightarrow> item_enum \<Rightarrow> bool" where
  "is_violation parse_paths e =
    (if \<not> enum_public e \<or> list_ex is_cfg_disabled_without_test (enum_attrs e) then False
     else
       let has_non_exhaustive = list_ex (\<lambda>attr. attr_path_is attr ''non_exhaustive'') (enum_attrs e);
         derives = concat (map (derive_idents parse_paths) (enum_attrs e));
         is_error_type = list_ex (\<lambda>d. d = ''Error'') derives in
       is_error_type \<and> has_non_exhaustive)"

fun collect_enums :: "item list \<Rightarrow> item_enum list" where
  "collect_enums [] = []"
| "collect_enums (ItemEnum e # items) = e # collect_enums items"
| "collect_enums (ItemMod attrs content # items) =
    (if list_ex is_cfg_disabled_without_test attrs then []
     else case content of None \<Rightarrow> [] | Some inner_items \<Rightarrow> collect_enums inner_items) @ collect_enums items"
| "collect_enums (ItemOther # items) = collect_enums items"

section \<open>The walk over the sources\<close>

definition LIBRARY_CRATES :: "string list list" where
  "LIBRARY_CRATES = map (\<lambda>crate. [''crates'', crate])
    [''cherry-pit-core'', ''cherry-pit-app'', ''cherry-pit-gateway'', ''cherry-pit-merger'', ''cherry-pit-projection'', ''cherry-pit-storage'',
     ''cherry-pit-web'', ''cherry-pit-wq'', ''pardosa-cherry-pit-projection'', ''pardosa-cherry-pit-test-support'']"

text \<open>A directory tree; None is a file that cannot be read as text. Paths are lists of components.\<close>

datatype fs_entry = FsFile string "string option" | FsDir string "fs_entry list"

definition has_rs_extension :: "string \<Rightarrow> bool" where
  "has_rs_extension name \<longleftrightarrow> suffix ''.rs'' name \<and> 3 < length name"

fun collect_rs_files :: "string list \<Rightarrow> fs_entry list \<Rightarrow> (string list \<times> string option) list" where
  "collect_rs_files dir [] = []"
| "collect_rs_files dir (FsDir name entries # rest) =
    (if name = ''target'' then [] else collect_rs_files (dir @ [name]) entries) @ collect_rs_files dir rest"
| "collect_rs_files dir (FsFile name content # rest) =
    (if has_rs_extension name then [(dir @ [name], content)] else []) @ collect_rs_files dir rest"

definition crate_files :: "(string list \<Rightarrow> fs_entry list option) \<Rightarrow> string list \<Rightarrow> (string, (string list \<times> string option) list) result" where
  "crate_files source_dir crate = (case source_dir crate of
      None \<Rightarrow> Err ''missing source directory''
    | Some entries \<Rightarrow>
        let rs_files = sort_key fst (collect_rs_files (crate @ [''src'']) entries) in
        if rs_files = [] then Err ''no Rust sources'' else Ok rs_files)"

definition scan_file :: "(string \<Rightarrow> item list option) \<Rightarrow> string list \<times> string option \<Rightarrow> (string, (string list \<times> item_enum) list) result" where
  "scan_file parse_file file = (case snd file of
      None \<Rightarrow> Err ''failed to read''
    | Some content \<Rightarrow> (case parse_file content of
        None \<Rightarrow> Err ''failed to parse''
      | Some items \<Rightarrow> Ok (map (\<lambda>e. (fst file, e)) (collect_enums items))))"

definition scan_crates ::
  "(string \<Rightarrow> item list option) \<Rightarrow> (string list \<Rightarrow> fs_entry list option) \<Rightarrow> (string, (string list \<times> item_enum) list) result" where
  "scan_crates parse_file source_dir =
    and_then (traverse (\<lambda>crate. and_then (crate_files source_dir crate) (traverse (scan_file parse_file))) LIBRARY_CRATES)
      (\<lambda>found. Ok (concat (concat found)))"

definition path_display :: "string list \<Rightarrow> string" where
  "path_display path = concat (case path of [] \<Rightarrow> [] | p # ps \<Rightarrow> p # map (\<lambda>q. CHR ''/'' # q) ps)"

definition enum_span_line :: "item_enum \<Rightarrow> nat option" where
  "enum_span_line e = (if enum_line e = 0 then None else Some (enum_line e))"

definition violation_line :: "string list \<times> item_enum \<Rightarrow> string" where
  "violation_line v =
    (let loc = (case enum_span_line (snd v) of Some l \<Rightarrow> path_display (fst v) @ '':'' @ show_nat l | None \<Rightarrow> path_display (fst v)) in
     ''VIOLATION'' @ [CHR 0x09] @ loc @ [CHR 0x09] @ enum_ident (snd v) @ [CHR 0x09]
       @ ''forbidden #[non_exhaustive] on error enum (gh-report RST-0006:R1 closed enumeration policy)'')"

datatype check_outcome = CheckHelp | CheckPanic string | CheckExit nat "string list"

definition check_sources ::
  "(token list \<Rightarrow> string list list option) \<Rightarrow> (string \<Rightarrow> item list option) \<Rightarrow> (string list \<Rightarrow> fs_entry list option) \<Rightarrow> check_outcome" where
  "check_sources parse_paths parse_file source_dir = (case scan_crates parse_file source_dir of
      Err x \<Rightarrow> CheckPanic x
    | Ok found \<Rightarrow>
        let violations = filter (\<lambda>v. is_violation parse_paths (snd v)) found;
          crates_scanned = show_nat (length LIBRARY_CRATES); enums_scanned = show_nat (length found) in
        if violations = [] then
          CheckExit 0 [''OK: '' @ crates_scanned @ '' library crates scanned, '' @ enums_scanned
            @ '' pub enums, 0 violations (syntax-only predicate; enum count includes private declarations)'']
        else
          CheckExit 1 (map violation_line (sort_key (\<lambda>v. (fst v, enum_ident (snd v))) violations)
            @ [''SUMMARY: '' @ crates_scanned @ '' library crates scanned, '' @ enums_scanned @ '' pub enums, ''
              @ show_nat (length violations) @ '' violations'']))"

text \<open>
  The root: the first directory upwards whose manifest has a workspace table. A directory is given by its components from the
  innermost; \<open>manifest\<close> is None without a manifest, and holds None for one that cannot be read.
\<close>

definition declares_workspace :: "string \<Rightarrow> bool" where
  "declares_workspace content \<longleftrightarrow> sublist ''[workspace]'' content"

fun default_root :: "(string list \<Rightarrow> string option option) \<Rightarrow> string list \<Rightarrow> (string, string list) result" where
  "default_root manifest candidate =
    (let parent = (case candidate of [] \<Rightarrow> Err ''no workspace root found'' | _ # up \<Rightarrow> default_root manifest up) in
     case manifest candidate of
       None \<Rightarrow> parent
     | Some None \<Rightarrow> Err ''failed to read''
     | Some (Some content) \<Rightarrow> if declares_workspace content then Ok candidate else parent)"

declare default_root.simps [simp del]

definition check_main ::
  "(token list \<Rightarrow> string list list option) \<Rightarrow> (string \<Rightarrow> item list option) \<Rightarrow> (string list \<Rightarrow> string option option)
    \<Rightarrow> (string list \<Rightarrow> string list \<Rightarrow> fs_entry list option) \<Rightarrow> (string \<Rightarrow> string list) \<Rightarrow> string list \<Rightarrow> string list \<Rightarrow> check_outcome" where
  "check_main parse_paths parse_file manifest source_dir_of path_of current_dir args =
    (if list_ex (\<lambda>a. a = ''--help'' \<or> a = ''-h'') args then CheckHelp
     else case (case args of r # _ \<Rightarrow> Ok (path_of r) | [] \<Rightarrow> default_root manifest current_dir) of
       Err x \<Rightarrow> CheckPanic x
     | Ok root \<Rightarrow> check_sources parse_paths parse_file (source_dir_of root))"

section \<open>What a decided predicate means\<close>

text \<open>
  The reference: the value of a predicate under a choice of the options, with \<open>test\<close> not set. An option is a name, or a name with
  a value.
\<close>

function (sequential) cfg_holds :: "(string \<Rightarrow> string option \<Rightarrow> bool) \<Rightarrow> cfg_head \<Rightarrow> bool"
  and cfg_hold_list :: "(string \<Rightarrow> string option \<Rightarrow> bool) \<Rightarrow> token list \<Rightarrow> bool list" where
  "cfg_holds chosen (HeadBool b) = b"
| "cfg_holds chosen (HeadOption n v) = chosen n (Some v)"
| "cfg_holds chosen (HeadGroup n c) =
    (if n = ''all'' then list_all (\<lambda>x. x) (cfg_hold_list chosen c)
     else if n = ''any'' then list_ex (\<lambda>x. x) (cfg_hold_list chosen c)
     else \<not> list_ex (\<lambda>x. x) (cfg_hold_list chosen c))"
| "cfg_holds chosen (HeadName n) = (n \<noteq> ''test'' \<and> chosen n None)"
| "cfg_hold_list chosen ts = (if ts = [] then [] else
    case take_head ts of
      None \<Rightarrow> []
    | Some (h, rest) \<Rightarrow> cfg_holds chosen h # (case rest of [] \<Rightarrow> [] | _ # more_tokens \<Rightarrow> cfg_hold_list chosen more_tokens))"
  by pat_completeness auto
termination
  by (relation "measure (case_sum (\<lambda>(_, h). head_size h) (\<lambda>(_, ts). 2 * size_list size ts))") (auto dest: take_head_smaller)

declare cfg_hold_list.simps [simp del]

fun approximates :: "cfg_truth \<Rightarrow> bool \<Rightarrow> bool" where
  "approximates CfgFalse x \<longleftrightarrow> \<not> x"
| "approximates CfgTrue x \<longleftrightarrow> x"
| "approximates CfgUnknown x \<longleftrightarrow> True"

lemma cfg_not_sound: "approximates v x \<Longrightarrow> approximates (cfg_not v) (\<not> x)"
  by (cases v) simp_all

lemma approximates_all:
  assumes "list_all2 approximates vs xs"
  shows "CfgFalse \<in> set vs \<Longrightarrow> \<not> list_all (\<lambda>x. x) xs" "CfgFalse \<notin> set vs \<Longrightarrow> CfgUnknown \<notin> set vs \<Longrightarrow> list_all (\<lambda>x. x) xs"
    "CfgTrue \<in> set vs \<Longrightarrow> list_ex (\<lambda>x. x) xs" "CfgTrue \<notin> set vs \<Longrightarrow> CfgUnknown \<notin> set vs \<Longrightarrow> \<not> list_ex (\<lambda>x. x) xs"
  using assms
proof (induction vs xs rule: list_all2_induct)
  case (Cons v vs x xs)
  { case 1 then show ?case using Cons by (cases v) auto }
  { case 2 then show ?case using Cons by (cases v) auto }
  { case 3 then show ?case using Cons by (cases v) auto }
  { case 4 then show ?case using Cons by (cases v) auto }
qed simp_all

lemma cfg_connective_sound:
  assumes "list_all2 approximates vs (cfg_hold_list chosen c)" "cfg_connective n vs = Some v"
  shows "approximates v (cfg_holds chosen (HeadGroup n c))"
proof -
  note rel = approximates_all [OF assms(1)]
  consider "n = ''all''" | "n = ''any''" | v1 where "n = ''not''" "vs = [v1]" "v = cfg_not v1"
    using assms(2) by (auto simp: cfg_connective_def split: if_splits list.splits)
  then show ?thesis
  proof cases
    case 3
    then obtain x where "cfg_hold_list chosen c = [x]" "approximates v1 x"
      using assms(1) by (auto simp: list_all2_Cons1)
    then show ?thesis using 3 cfg_not_sound by simp
  qed (use assms(2) rel in \<open>auto simp: cfg_connective_def Let_def split: if_splits\<close>)
qed

lemma cfg_values_Some:
  assumes "cfg_values ts = Some vs" "ts \<noteq> []"
  obtains h rest v where "take_head ts = Some (h, rest)" "cfg_value h = Some v" "rest = []" "vs = [v]"
  | h rest v tail vs' where "take_head ts = Some (h, rest)" "cfg_value h = Some v" "rest = Comma # tail" "cfg_values tail = Some vs'" "vs = v # vs'"
proof -
  obtain h rest where head: "take_head ts = Some (h, rest)"
    using assms by (subst (asm) cfg_values.simps) (auto split: option.splits)
  then obtain v where v: "cfg_value h = Some v"
    using assms by (subst (asm) cfg_values.simps) (auto split: option.splits)
  show thesis
  proof (cases rest)
    case Nil
    then show ?thesis using assms head v that(1) by (subst (asm) cfg_values.simps) simp
  next
    case (Cons t tail)
    then show ?thesis
      using assms head v that(2) [of h rest v tail] by (subst (asm) cfg_values.simps) (cases t; simp split: option.splits)
  qed
qed

lemma cfg_value_sound:
  "cfg_value h = Some v \<Longrightarrow> approximates v (cfg_holds chosen h)"
  "cfg_values ts = Some vs \<Longrightarrow> list_all2 approximates vs (cfg_hold_list chosen ts)"
proof (induction h and ts arbitrary: v and vs rule: cfg_value_cfg_values.induct)
  case (3 n c)
  then obtain vals where "cfg_values c = Some vals" "cfg_connective n vals = Some v" by (auto split: option.splits)
  then show ?case using 3 cfg_connective_sound by blast
next
  case (5 ts)
  show ?case
  proof (cases "ts = []")
    case True
    then show ?thesis using "5.prems" by (simp add: cfg_values.simps cfg_hold_list.simps)
  next
    case False
    from "5.prems" False show ?thesis
    proof (cases rule: cfg_values_Some)
      case (1 h rest v)
      then show ?thesis using "5.IH"(1) [OF False] False by (subst cfg_hold_list.simps) simp
    next
      case (2 h rest v tail vs')
      then show ?thesis using "5.IH"(1,2) [OF False] False by (subst cfg_hold_list.simps) simp
    qed
  qed
qed auto

lemma disabled_sound:
  assumes "is_cfg_disabled_without_test attr"
  obtains ts h rest where "attr_ident attr = Some ''cfg''" "attr_args attr = Some ts" "take_head ts = Some (h, rest)" "\<And>chosen. \<not> cfg_holds chosen h"
  using assms cfg_value_sound(1) [of _ CfgFalse]
  by (fastforce simp: is_cfg_disabled_without_test_def attr_path_is_def parse_cfg_args_def split: option.splits if_splits)

section \<open>What a predicate can be\<close>

text \<open>
  The values a predicate can take when \<open>test\<close> is not set and each occurrence of another option is
  chosen on its own: two occurrences of one option may differ. This is what the tool decides exactly.
\<close>

function (sequential) cfg_outcomes :: "cfg_head \<Rightarrow> bool set" and cfg_outcome_sets :: "token list \<Rightarrow> bool set list" where
  "cfg_outcomes (HeadBool b) = {b}"
| "cfg_outcomes (HeadOption n v) = {False, True}"
| "cfg_outcomes (HeadGroup n c) =
    (if n = ''all'' then list_all (\<lambda>x. x) ` listset (cfg_outcome_sets c)
     else if n = ''any'' then list_ex (\<lambda>x. x) ` listset (cfg_outcome_sets c)
     else (\<lambda>xs. \<not> list_ex (\<lambda>x. x) xs) ` listset (cfg_outcome_sets c))"
| "cfg_outcomes (HeadName n) = (if n = ''test'' then {False} else {False, True})"
| "cfg_outcome_sets ts = (if ts = [] then [] else
    case take_head ts of
      None \<Rightarrow> []
    | Some (h, rest) \<Rightarrow> cfg_outcomes h # (case rest of [] \<Rightarrow> [] | _ # more_tokens \<Rightarrow> cfg_outcome_sets more_tokens))"
  by pat_completeness auto
termination
  by (relation "measure (case_sum head_size (\<lambda>ts. 2 * size_list size ts))") (auto dest: take_head_smaller)

declare cfg_outcome_sets.simps [simp del]

definition decides :: "cfg_truth \<Rightarrow> bool set \<Rightarrow> bool" where
  "decides v S \<longleftrightarrow> S = (case v of CfgFalse \<Rightarrow> {False} | CfgTrue \<Rightarrow> {True} | CfgUnknown \<Rightarrow> {False, True})"

lemma bool_set_eq: "S = T \<longleftrightarrow> (True \<in> S \<longleftrightarrow> True \<in> T) \<and> (False \<in> S \<longleftrightarrow> False \<in> T)"
  by (metis (full_types) subsetI subset_antisym)

lemma decides_members: "decides v S \<longleftrightarrow> (True \<in> S \<longleftrightarrow> v \<noteq> CfgFalse) \<and> (False \<in> S \<longleftrightarrow> v \<noteq> CfgTrue)"
  unfolding decides_def by (subst bool_set_eq) (cases v; auto)

lemma listset_ex: "(\<exists>xs \<in> listset (S # Ss). P xs) \<longleftrightarrow> (\<exists>x \<in> S. \<exists>xs \<in> listset Ss. P (x # xs))"
  by (auto simp: set_Cons_def)

lemma ex_bool_set: "(\<exists>x \<in> S. Q x) \<longleftrightarrow> True \<in> S \<and> Q True \<or> False \<in> S \<and> Q False"
  by (metis (full_types))

lemma decides_connectives:
  assumes "list_all2 decides vs Ss"
  shows "((\<exists>xs \<in> listset Ss. list_all (\<lambda>x. x) xs) \<longleftrightarrow> CfgFalse \<notin> set vs)
    \<and> ((\<exists>xs \<in> listset Ss. \<not> list_all (\<lambda>x. x) xs) \<longleftrightarrow> CfgFalse \<in> set vs \<or> CfgUnknown \<in> set vs)
    \<and> ((\<exists>xs \<in> listset Ss. list_ex (\<lambda>x. x) xs) \<longleftrightarrow> CfgTrue \<in> set vs \<or> CfgUnknown \<in> set vs)
    \<and> ((\<exists>xs \<in> listset Ss. \<not> list_ex (\<lambda>x. x) xs) \<longleftrightarrow> CfgTrue \<notin> set vs)
    \<and> (\<exists>xs. xs \<in> listset Ss)"
  using assms
proof (induction vs Ss rule: list_all2_induct)
  case (Cons v vs S Ss)
  have S: "True \<in> S \<longleftrightarrow> v \<noteq> CfgFalse" "False \<in> S \<longleftrightarrow> v \<noteq> CfgTrue" using Cons(1) by (simp_all add: decides_members)
  have "\<exists>xs. xs \<in> listset (S # Ss)"
    using listset_ex [of S Ss "\<lambda>_. True"] Cons.IH S by (cases v) auto
  then show ?case unfolding listset_ex ex_bool_set S using Cons.IH by (cases v) auto
qed simp

lemma cfg_connective_decides:
  assumes "list_all2 decides vs (cfg_outcome_sets c)" "cfg_connective n vs = Some v"
  shows "decides v (cfg_outcomes (HeadGroup n c))"
proof -
  note members = decides_connectives [OF assms(1)]
  have image: "True \<in> f ` A \<longleftrightarrow> (\<exists>x \<in> A. f x)" "False \<in> f ` A \<longleftrightarrow> (\<exists>x \<in> A. \<not> f x)" for f and A :: "bool list set"
    by (auto simp: image_iff)
  consider "n = ''all''" | "n = ''any''" | v1 where "n = ''not''" "vs = [v1]" "v = cfg_not v1"
    using assms(2) by (auto simp: cfg_connective_def split: if_splits list.splits)
  then show ?thesis
  proof cases
    case 3
    then show ?thesis unfolding decides_members using members image by (cases v1) auto
  qed (use assms(2) members image in \<open>auto simp: decides_members cfg_connective_def Let_def split: if_splits\<close>)
qed

lemma cfg_value_decides:
  "cfg_value h = Some v \<Longrightarrow> decides v (cfg_outcomes h)"
  "cfg_values ts = Some vs \<Longrightarrow> list_all2 decides vs (cfg_outcome_sets ts)"
proof (induction h and ts arbitrary: v and vs rule: cfg_value_cfg_values.induct)
  case (3 n c)
  then obtain vals where "cfg_values c = Some vals" "cfg_connective n vals = Some v" by (auto split: option.splits)
  then show ?case using 3 cfg_connective_decides by blast
next
  case (5 ts)
  show ?case
  proof (cases "ts = []")
    case True
    then show ?thesis using "5.prems" by (simp add: cfg_values.simps cfg_outcome_sets.simps)
  next
    case False
    from "5.prems" False show ?thesis
    proof (cases rule: cfg_values_Some)
      case (1 h rest v)
      then show ?thesis using "5.IH"(1) [OF False] False by (subst cfg_outcome_sets.simps) simp
    next
      case (2 h rest v tail vs')
      then show ?thesis using "5.IH"(1,2) [OF False] False by (subst cfg_outcome_sets.simps) simp
    qed
  qed
qed (auto simp: decides_def)

text \<open>
  An attribute that compiles its item out: a \<open>cfg\<close> whose arguments the tool can read, with a
  predicate that is false however each occurrence of an option is chosen.
\<close>

definition compiled_out :: "attribute \<Rightarrow> bool" where
  "compiled_out attr \<longleftrightarrow> attr_ident attr = Some ''cfg''
    \<and> (\<exists>ts h rest. attr_args attr = Some ts \<and> parse_cfg_args ts \<noteq> None
        \<and> take_head ts = Some (h, rest) \<and> cfg_outcomes h = {False})"

lemma disabled_iff: "is_cfg_disabled_without_test attr \<longleftrightarrow> compiled_out attr"
proof -
  have decided: "v = CfgFalse \<longleftrightarrow> cfg_outcomes h = {False}" if "cfg_value h = Some v" for v h
    using cfg_value_decides(1) [OF that] by (cases v) (auto simp: decides_def)
  show ?thesis
    unfolding is_cfg_disabled_without_test_def compiled_out_def attr_path_is_def parse_cfg_args_def
    by (auto simp: decided split: option.splits if_splits)
qed

section \<open>What the check reports\<close>

text \<open>An enum in a list of items, with the attributes of the inline modules around it.\<close>

inductive declared :: "item list \<Rightarrow> attribute list \<Rightarrow> item_enum \<Rightarrow> bool" where
  declared_here: "ItemEnum e \<in> set items \<Longrightarrow> declared items [] e"
| declared_inner: "ItemMod attrs (Some inner) \<in> set items \<Longrightarrow> declared inner around e \<Longrightarrow> declared items (attrs @ around) e"

lemma declared_mono: "declared items around e \<Longrightarrow> set items \<subseteq> set items' \<Longrightarrow> declared items' around e"
  by (induction arbitrary: items' rule: declared.induct) (auto intro: declared.intros)

lemma collect_inner:
  "ItemMod attrs (Some inner) \<in> set items \<Longrightarrow> \<not> list_ex is_cfg_disabled_without_test attrs \<Longrightarrow> set (collect_enums inner) \<subseteq> set (collect_enums items)"
  by (induction items rule: collect_enums.induct) auto

lemma collect_here: "ItemEnum e \<in> set items \<Longrightarrow> e \<in> set (collect_enums items)"
  by (induction items rule: collect_enums.induct) auto

lemma declared_collected: "declared items around e \<Longrightarrow> \<not> list_ex is_cfg_disabled_without_test around \<Longrightarrow> e \<in> set (collect_enums items)"
  by (induction rule: declared.induct) (use collect_here collect_inner in \<open>fastforce+\<close>)

lemma collected_declared: "e \<in> set (collect_enums items) \<Longrightarrow> \<exists>around. declared items around e \<and> \<not> list_ex is_cfg_disabled_without_test around"
proof (induction items rule: collect_enums.induct)
  case (2 e' items)
  then consider "e = e'" | around where "declared items around e" "\<not> list_ex is_cfg_disabled_without_test around" by auto
  then show ?case
  proof cases
    case 1
    then have "declared (ItemEnum e' # items) [] e" by (auto intro: declared_here)
    then show ?thesis by fastforce
  qed (metis declared_mono set_subset_Cons)
next
  case (3 attrs content items)
  show ?case
  proof (cases "e \<in> set (collect_enums items)")
    case True
    then show ?thesis using 3(2) declared_mono by (metis set_subset_Cons)
  next
    case False
    then obtain inner where inner: "content = Some inner" "\<not> list_ex is_cfg_disabled_without_test attrs" "e \<in> set (collect_enums inner)"
      using "3.prems" by (auto split: if_splits option.splits)
    then obtain around where "declared inner around e" "\<not> list_ex is_cfg_disabled_without_test around" using 3(1) by blast
    then have "declared (ItemMod attrs content # items) (attrs @ around) e" "\<not> list_ex is_cfg_disabled_without_test (attrs @ around)"
      using inner by (auto intro: declared_inner)
    then show ?thesis by blast
  qed
next
  case (4 items)
  then show ?case by (metis collect_enums.simps(4) declared_mono set_subset_Cons)
qed simp

text \<open>The files of a run: those of the library crates with the extension, read and parsed.\<close>

definition scanned ::
  "(string \<Rightarrow> item list option) \<Rightarrow> (string list \<Rightarrow> fs_entry list option) \<Rightarrow> string list \<Rightarrow> item list \<Rightarrow> bool" where
  "scanned parse_file source_dir path items \<longleftrightarrow> (\<exists>crate entries content. crate \<in> set LIBRARY_CRATES \<and> source_dir crate = Some entries
    \<and> (path, Some content) \<in> set (collect_rs_files (crate @ [''src'']) entries) \<and> parse_file content = Some items)"

lemma scan_crates_found:
  assumes "scan_crates parse_file source_dir = Ok found"
  shows "(path, e) \<in> set found \<longleftrightarrow> (\<exists>items. scanned parse_file source_dir path items \<and> e \<in> set (collect_enums items))"
proof -
  obtain all where all: "found = concat (concat all)"
      "list_all2 (\<lambda>crate fs. \<exists>files. crate_files source_dir crate = Ok files \<and> list_all2 (\<lambda>f es. scan_file parse_file f = Ok es) files fs) LIBRARY_CRATES all"
    using assms by (auto simp: scan_crates_def and_then_Ok_iff traverse_Ok_iff)
  have in_file: "(path, e) \<in> set es \<longleftrightarrow> (\<exists>content items. f = (path, Some content) \<and> parse_file content = Some items \<and> e \<in> set (collect_enums items))"
    if "scan_file parse_file f = Ok es" for f es
    using that by (cases f) (auto simp: scan_file_def split: option.splits)
  have crate: "(path, e) \<in> set (concat fs) \<longleftrightarrow> (\<exists>entries content items. source_dir crate = Some entries
      \<and> (path, Some content) \<in> set (collect_rs_files (crate @ [''src'']) entries) \<and> parse_file content = Some items \<and> e \<in> set (collect_enums items))"
    if files: "crate_files source_dir crate = Ok files" "list_all2 (\<lambda>f es. scan_file parse_file f = Ok es) files fs" for crate files fs
  proof -
    have "(path, e) \<in> set (concat fs) \<longleftrightarrow> (\<exists>content items. (path, Some content) \<in> set files \<and> parse_file content = Some items \<and> e \<in> set (collect_enums items))"
      using files(2) by (induction rule: list_all2_induct) (auto simp: in_file)
    then show ?thesis using files(1) by (auto simp: crate_files_def Let_def split: option.splits if_splits)
  qed
  have "(path, e) \<in> set (concat (concat all)) \<longleftrightarrow> (\<exists>crate \<in> set crates. \<exists>entries content items. source_dir crate = Some entries
      \<and> (path, Some content) \<in> set (collect_rs_files (crate @ [''src'']) entries) \<and> parse_file content = Some items \<and> e \<in> set (collect_enums items))"
    if "list_all2 (\<lambda>crate fs. \<exists>files. crate_files source_dir crate = Ok files \<and> list_all2 (\<lambda>f es. scan_file parse_file f = Ok es) files fs) crates all" for crates
    using that
  proof (induction rule: list_all2_induct)
    case (Cons crate crates fs all)
    then show ?case using crate [of crate _ fs] by auto
  qed simp
  from this [OF all(2)] show ?thesis unfolding all(1) scanned_def by blast
qed

definition open_error :: "(token list \<Rightarrow> string list list option) \<Rightarrow> item_enum \<Rightarrow> bool" where
  "open_error parse_paths e \<longleftrightarrow> enum_public e \<and> (\<exists>attr \<in> set (enum_attrs e). attr_ident attr = Some ''non_exhaustive'')
    \<and> (\<exists>attr \<in> set (enum_attrs e). ''Error'' \<in> set (derive_idents parse_paths attr))"

lemma is_violation_iff: "is_violation parse_paths e \<longleftrightarrow> open_error parse_paths e \<and> \<not> list_ex is_cfg_disabled_without_test (enum_attrs e)"
  by (auto simp: is_violation_def open_error_def list_ex_iff attr_path_is_def)

text \<open>
  C26. The check of error enums. A run that ends answers 0 exactly when every public enum that the
  scanned files declare, at top level or in inline modules, and that derives an \<open>Error\<close> and is marked
  non-exhaustive, stands under a \<open>cfg\<close> that compiles it out, its own or that of a module around it: one that is
  false without \<open>test\<close> however each occurrence of another option is chosen. Otherwise it answers 1 with a line for
  each such enum without one. So after an answer of 0 each of these enums stands under a predicate that is false in every
  build without \<open>test\<close>. The converse is not claimed: a predicate can be false in every build only because two occurrences of
  an option agree, and a module in a file of its own is not related to the \<open>cfg\<close> of its declaration.
\<close>

theorem check_reports_open_errors:
  assumes "check_sources parse_paths parse_file source_dir = CheckExit code lines"
  shows "code = (if \<forall>path items around e. scanned parse_file source_dir path items \<and> declared items around e \<and> open_error parse_paths e
          \<longrightarrow> list_ex compiled_out (around @ enum_attrs e) then 0 else 1)
    \<and> (\<forall>path items around e. code = 0 \<and> scanned parse_file source_dir path items \<and> declared items around e \<and> open_error parse_paths e
        \<longrightarrow> (\<exists>attr \<in> set (around @ enum_attrs e). \<exists>ts h rest. attr_ident attr = Some ''cfg'' \<and> attr_args attr = Some ts
              \<and> take_head ts = Some (h, rest) \<and> (\<forall>chosen. \<not> cfg_holds chosen h)))
    \<and> (\<forall>path items around e. scanned parse_file source_dir path items \<and> declared items around e \<and> open_error parse_paths e
        \<and> \<not> list_ex compiled_out (around @ enum_attrs e) \<longrightarrow> violation_line (path, e) \<in> set lines)"
proof -
  obtain found where found: "scan_crates parse_file source_dir = Ok found"
    using assms by (auto simp: check_sources_def split: sum.splits)
  let ?bad = "filter (\<lambda>v. is_violation parse_paths (snd v)) found"
  have code: "code = (if ?bad = [] then 0 else 1)" "?bad \<noteq> [] \<Longrightarrow> violation_line ` set ?bad \<subseteq> set lines"
    using assms found by (auto simp: check_sources_def Let_def split: if_splits)
  have bad: "(path, e) \<in> set ?bad \<longleftrightarrow> (\<exists>items around. scanned parse_file source_dir path items \<and> declared items around e
      \<and> open_error parse_paths e \<and> \<not> list_ex is_cfg_disabled_without_test (around @ enum_attrs e))" for path e
    using scan_crates_found [OF found, of path e] declared_collected collected_declared
    by (simp add: is_violation_iff) blast
  have none: "?bad = [] \<longleftrightarrow> (\<forall>path items around e. scanned parse_file source_dir path items \<and> declared items around e \<and> open_error parse_paths e
      \<longrightarrow> list_ex is_cfg_disabled_without_test (around @ enum_attrs e))"
    using bad unfolding set_empty [symmetric] by (metis all_not_in_conv surj_pair)
  have reported: "violation_line (path, e) \<in> set lines" if "(path, e) \<in> set ?bad" for path e
  proof -
    have "?bad \<noteq> []" using that by force
    from code(2) [OF this] show ?thesis using that by blast
  qed
  have sound: "\<exists>attr \<in> set attrs. \<exists>ts h rest. attr_ident attr = Some ''cfg'' \<and> attr_args attr = Some ts
      \<and> take_head ts = Some (h, rest) \<and> (\<forall>chosen. \<not> cfg_holds chosen h)" if "list_ex is_cfg_disabled_without_test attrs" for attrs
    using that disabled_sound unfolding list_ex_iff by metis
  have same: "compiled_out = is_cfg_disabled_without_test" by (intro ext) (simp add: disabled_iff)
  show ?thesis
    unfolding same
  proof (intro conjI allI impI)
    show "code = (if \<forall>path items around e. scanned parse_file source_dir path items \<and> declared items around e \<and> open_error parse_paths e
          \<longrightarrow> list_ex is_cfg_disabled_without_test (around @ enum_attrs e) then 0 else 1)"
      using code(1) none by presburger
  next
    fix path items around e
    assume "code = 0 \<and> scanned parse_file source_dir path items \<and> declared items around e \<and> open_error parse_paths e"
    moreover from this have "?bad = []" using code(1) by (metis zero_neq_one)
    ultimately show "\<exists>attr \<in> set (around @ enum_attrs e). \<exists>ts h rest. attr_ident attr = Some ''cfg'' \<and> attr_args attr = Some ts
        \<and> take_head ts = Some (h, rest) \<and> (\<forall>chosen. \<not> cfg_holds chosen h)"
      using none sound by blast
  next
    fix path items around e
    assume "scanned parse_file source_dir path items \<and> declared items around e \<and> open_error parse_paths e
        \<and> \<not> list_ex is_cfg_disabled_without_test (around @ enum_attrs e)"
    then show "violation_line (path, e) \<in> set lines" using bad reported by blast
  qed
qed

text \<open>An error enum that is open, in a module for tests with a feature.\<close>

definition sample_open :: item_enum where
  "sample_open = \<lparr>enum_public = True, enum_attrs = [\<lparr>attr_ident = Some ''non_exhaustive'', attr_args = None\<rparr>,
    \<lparr>attr_ident = Some ''derive'', attr_args = Some []\<rparr>], enum_ident = ''E'', enum_line = 1\<rparr>"

definition sample_cfg :: attribute where
  "sample_cfg = \<lparr>attr_ident = Some ''cfg'', attr_args = Some [Ident ''all'', Paren [Ident ''test'', Comma, Ident ''feature'', EqSign, LitStr ''x'']]\<rparr>"

definition sample_items :: "item list" where
  "sample_items = [ItemMod [sample_cfg] (Some [ItemEnum sample_open])]"

theorem check_reports_open_errors_witness:
  "(\<exists>lines. check_sources (\<lambda>_. Some [[''thiserror'', ''Error'']]) (\<lambda>_. Some sample_items) (\<lambda>_. Some [FsFile ''lib.rs'' (Some [])]) = CheckExit 0 lines)
    \<and> declared sample_items [sample_cfg] sample_open
    \<and> (\<exists>attr \<in> set ([sample_cfg] @ enum_attrs sample_open). \<exists>ts h rest. attr_ident attr = Some ''cfg''
        \<and> attr_args attr = Some ts \<and> take_head ts = Some (h, rest) \<and> (\<forall>chosen. \<not> cfg_holds chosen h))"
proof -
  let ?paths = "\<lambda>_ :: token list. Some [[''thiserror'', ''Error'']]" and ?parse = "\<lambda>_ :: string. Some sample_items"
  let ?src = "\<lambda>_ :: string list. Some [FsFile ''lib.rs'' (Some [])]"
  have "is_cfg_disabled_without_test sample_cfg"
    by (simp add: is_cfg_disabled_without_test_def sample_cfg_def attr_path_is_def parse_cfg_args_def cfg_values.simps cfg_connective_def)
  then have "collect_enums sample_items = []" by (simp add: sample_items_def)
  then have run: "\<exists>lines. check_sources ?paths ?parse ?src = CheckExit 0 lines"
    by (simp add: check_sources_def scan_crates_def LIBRARY_CRATES_def crate_files_def scan_file_def has_rs_extension_def suffix_def Let_def)
  have src: "scanned ?parse ?src [''crates'', ''cherry-pit-core'', ''src'', ''lib.rs''] sample_items" "open_error ?paths sample_open"
    by (simp_all add: scanned_def LIBRARY_CRATES_def has_rs_extension_def suffix_def open_error_def sample_open_def derive_idents_def attr_path_is_def)
  have here: "declared sample_items [sample_cfg] sample_open"
    using declared_inner [of "[sample_cfg]" "[ItemEnum sample_open]" sample_items "[]" sample_open] declared_here [of sample_open "[ItemEnum sample_open]"]
    by (simp add: sample_items_def)
  from run obtain lines where "check_sources ?paths ?parse ?src = CheckExit 0 lines" by blast
  from check_reports_open_errors [OF this] run src here show ?thesis by blast
qed

text \<open>Without a root the nearest directory upwards with a workspace table is taken.\<close>

lemma default_root_nearest:
  assumes "default_root manifest candidate = Ok root"
  shows "suffix root candidate \<and> (\<exists>content. manifest root = Some (Some content) \<and> declares_workspace content)
    \<and> (\<forall>inner content. suffix inner candidate \<and> length root < length inner \<and> manifest inner = Some (Some content) \<longrightarrow> \<not> declares_workspace content)"
  using assms
proof (induction candidate)
  case Nil
  then show ?case by (auto simp: default_root.simps [of manifest "[]"] Let_def split: option.splits if_splits)
next
  case (Cons dir up)
  show ?case
  proof (cases "root = dir # up")
    case True
    then have "default_root manifest up \<noteq> Ok root" using Cons.IH suffix_length_le [of root up] by force
    then show ?thesis
      using True Cons.prems by (auto simp: default_root.simps [of manifest "dir # up"] Let_def dest: suffix_length_le split: option.splits if_splits)
  next
    case False
    then have up: "default_root manifest up = Ok root" "\<And>content. manifest (dir # up) = Some (Some content) \<Longrightarrow> \<not> declares_workspace content"
      using Cons.prems by (auto simp: default_root.simps [of manifest "dir # up"] Let_def split: option.splits if_splits)
    then show ?thesis using Cons.IH [OF up(1)] by (auto simp: suffix_Cons)
  qed
qed

end
