(* ===== verification/Spec2Isabelle.thy ===== *)
theory Spec2Isabelle
  imports Conformance Event_History Projection_Driver Merger Scheduler App_Dispatch Rate_Limit
    Backoff Budget Work_Queue Batch_Tracker Regulators Worker_Pool Run_Lock Signature Web_Router Web_Serve Web_Projection
    Pardosa_Projection Pardosa_Bridge Projection_Source Non_Exhaustive_Check
begin

text \<open>
  Verification of the cherry-pit crates: event sourcing in Rust, with an event store port, a command
  merger, durable scheduling, policy dispatch, projections, a work queue with regulators, and an HTTP edge.
  Paths below are relative to \<open>src/crates/\<close>.

  \<^bold>\<open>How the parts interact.\<close> Commands reach the merger or the HTTP routes, which write events through the event store port.
  Stored envelopes go over a bus to the application, whose consumer runs the policies and dead-letters what fails for good.
  The scheduler keeps its own facts in one store and its due events in another. The projection driver replays a stream into a
  view; a view is served as pages, over the projection surface or the generic serve surface, with updates over WebSockets. The
  work queue feeds a pool of workers that ask regulators (token bucket, budget gate, backoff, rate limit) before each call.
  A run lock keeps two processes from working on one directory. Two crates keep events and projections in a journal of the
  \<open>pardosa\<close> crate. A tool checks the sources for open error enums.

  \<^bold>\<open>Conventions.\<close> A struct is a record, an enum a datatype, a fallible call a value of \<open>result\<close>, a panic a value of its
  own (None, or an outcome of the component). A stateful operation takes the state and returns it updated. Concurrent
  code is a step relation: each atomic access of the code is one step of one worker, and the theorems quantify over all
  interleavings. 64-bit counters are natural numbers with the bound \<open>u64_max\<close> where the code checks or saturates, and words
  where it relies on wrap-around. Code of other crates (tokio channels and timers, axum, uuid, serde, zstd, sha2, http, syn, pardosa)
  is an argument of the definitions that call it; what is relied on is a named predicate or a locale, satisfied by a concrete
  instance in the theory that states it. Clocks, identifiers and scheduling choices are arguments as well.

  \<^bold>\<open>Core\<close> (\<open>cherry-pit-core/src\<close>).
  \<^item> \<open>Prelude\<close>, \<open>Rust_Text\<close>: results, bounded counters, maps, decimal rendering; operations of \<open>str\<close>.
  \<^item> \<open>Core_Types\<close>, \<open>Core_Errors\<close>, \<open>Core_Event\<close>: identifiers, contexts, keys, the error taxonomy with its texts and categories,
    envelopes and the stream check. The check accepts exactly the streams of the replay contract and names the first violation.
  \<^item> \<open>Event_Store\<close>: the port as a record of operations, its contract as the locale \<open>event_store\<close>, and \<open>responsive_event_store\<close> for stores
    without transient failures. \<open>Mem_Store\<close> (\<open>testing.rs\<close>) interprets both: after any calls the histories are valid,
    disjoint in event identifiers, and extend what they were. \<open>Conformance\<close> is the harness, passed by every such store.
    \<open>Event_History\<close>: history reads and the causal walk, a \<open>partial_function\<close>, with the condition under which it returns.
  \<^item> \<open>Event_Bus\<close>, \<open>Scheduler\<close> (also \<open>cherry-pit-app/src/scheduler.rs\<close>): nothing fires twice on any conforming stores, and recovery
    that returns a report leaves nothing due and nothing incomplete; it returns one on stores that answer, with room, an accepting bus
    and decodable payloads.

  \<^bold>\<open>Application, merger, projections.\<close> \<open>Merger\<close> refines a map from keys to event lists. \<open>Channel\<close> and \<open>App_Dispatch\<close>: envelopes are
  consumed in publication order, and dispatch equals its sequential reference. \<open>Projection_Driver\<close>: live updates equal replay; the
  in-memory projection store. \<open>Projection_Source\<close>: the read path from the store through replay and rendering to a page.

  \<^bold>\<open>Work queue and storage\<close> (\<open>cherry-pit-wq/src\<close>, \<open>cherry-pit-storage/src\<close>). \<open>Work_Queue\<close>: one job per key, order, drain.
  \<open>Batch_Tracker\<close>: the barrier. \<open>Token_Bucket\<close>, \<open>Backoff\<close>, \<open>Budget\<close>, \<open>Rate_Limit\<close>, \<open>Regulators\<close>: bounds and exclusion for all
  interleavings. \<open>Worker_Pool\<close>: accepted jobs and permits are accounted for; a panic is a computation that unwinds, caught
  around the executor's call and not around the await. \<open>Run_Lock\<close> (with
  \<open>cherry-pit-gateway/src/recovery.rs\<close>): at most one holder while nobody deletes a file that may be another's, and the races in
  which somebody does. \<open>Signature\<close>: canonical texts agree exactly for values equal up to the order of entries.

  \<^bold>\<open>HTTP edge\<close> (\<open>cherry-pit-web/src\<close>). \<open>Web_Guards\<close>: path normalisation and the origin check, each decided against a grammar. \<open>Web_Headers\<close>: correlation, idempotency,
  compression and security headers. \<open>Web_Errors\<close>: error responses other than rejections carry no text of the error, and when a retry is advised. \<open>Web_Limits\<close>: shedding over the locale
  \<open>semaphore\<close>. \<open>Web_Router\<close>: the command and query routes. \<open>Web_Pages\<close>, \<open>Web_Projection\<close>: page responses and the projection router.
  \<open>Web_Config\<close>: validated configuration. \<open>Web_Serve\<close>: the serve surface, which answers every path that stands for a published file with that file. \<open>Web_Session\<close>: the session loops of both surfaces.

  \<^bold>\<open>Journal\<close> (\<open>pardosa-cherry-pit-projection\<close>, \<open>pardosa-cherry-pit-test-support\<close>). \<open>Pardosa_Session\<close>: the writer session as the
  locale \<open>fiber_session\<close>, interpreted on a session that injects faults from a plan. \<open>Pardosa_Projection\<close>: a checkpoint always has its
  snapshot, what each result says is stored, and refinement of the in-memory store. \<open>Pardosa_Store\<close>: the event store keeps the
  contract of the port until a counter is exhausted, also across reopening, and what happens at the largest identifier.
  \<open>Pardosa_Bridge\<close>: the stores that convert events at the boundary, over the locale \<open>event_bridge\<close> of a conversion with its round trip; the
  scheduler's conversion keeps every field but a cause without a correlation.

  \<^bold>\<open>Tool.\<close> \<open>Non_Exhaustive_Check\<close>: the check passes exactly when every open error enum of the scanned files stands under a
  \<open>cfg\<close> that is false without \<open>test\<close> however each occurrence of an option is chosen, so false in every build without it.

  \<^bold>\<open>Bounds and termination.\<close> No definition uses fuel. Loops are structural recursion or recursion with a measure; session and pool
  loops run over the list of inputs or steps of the environment, of any length. The causal walk may run forever and is
  an option-valued \<open>partial_function\<close>; that it returns is proved under its condition. Statements about counters carry the
  64-bit bound as a hypothesis.

  \<^bold>\<open>Not modelled.\<close>
  \<^item> The plumbing of tasks: spawning, abortion of a worker pool, signal handling, the accept loop, graceful shutdown and
    socket options. Their effect on the modelled code is a step of the environment.
  \<^item> Tracing and log output, \<open>Debug\<close> output, help text: no decision depends on them.
  \<^item> Traits without a body, re-exports and module roots. The purge and hash-chain extensions of the store port have no implementation
    in the repository.
  \<^item> Test modules, benchmarks, and the scripts under \<open>tools\<close> and \<open>scripts\<close>, which run the toolchain.
  \<^item> Weak memory orderings: an atomic access is one step on one shared state.
\<close>

end
